(* ===== verification/GT_Prelude.thy ===== *)
theory GT_Prelude
  imports Main "HOL-Library.Word"
begin

text \<open>
  What every component of the model shares: the machine types of the source, the outcomes that
  leave the defined behaviour of C++, and the two hash containers the code uses
  (\<open>std::unordered_set\<close> and \<open>std::unordered_map\<close>).
\<close>

section \<open>Collections for the automation\<close>

named_theorems frame_simps \<open>which fields an operation leaves alone\<close>
named_theorems us_simps \<open>facts on the unordered set operations\<close>
named_theorems um_simps \<open>facts on the unordered map operations\<close>

section \<open>Machine types\<close>

text \<open>
  The server is built for x64: \<open>size_t\<close>, \<open>ULONG_PTR\<close> and \<open>SOCKET\<close> have 64 bits, \<open>int\<close>,
  \<open>DWORD\<close> and \<open>ULONG\<close> have 32. Addresses of heap objects are natural numbers handed out by a
  counter, one counter per class of objects; 0 is never handed out, a null pointer is \<open>None\<close>.
\<close>

type_synonym addr = nat
type_synonym cint = "32 word"
type_synonym dword = "32 word"
type_synonym size_t = "64 word"
type_synonym byte = "8 word"
type_synonym SOCKET = "64 word"

definition INVALID_SOCKET :: SOCKET where
  "INVALID_SOCKET = -1"

text \<open>\<open>htons\<close> on a little-endian machine swaps the two bytes of a port number.\<close>

definition htons :: "cint \<Rightarrow> 16 word" where
  "htons i = (let w = (ucast i :: 16 word) in or (push_bit 8 w) (drop_bit 8 w))"

text \<open>\<open>(size_t)i\<close> of a C \<open>int\<close>: sign extension.\<close>

definition int_to_size :: "cint \<Rightarrow> size_t" where
  "int_to_size i = scast i"

lemma int_to_size_nonneg:
  assumes "0 \<le> sint i"
  shows "unat (int_to_size i) = nat (sint i)"
proof -
  have lt: "sint i < 2 ^ 31" using sint_lt [of i] by simp
  have "uint (int_to_size i) = sint i mod 2 ^ 64"
    unfolding int_to_size_def scast_eq uint_word_of_int by simp
  also have "\<dots> = sint i"
    using assms lt by (intro mod_pos_pos_trivial) auto
  finally show ?thesis by (simp add: unat_eq_nat_uint)
qed

section \<open>Outcomes outside the defined behaviour\<close>

text \<open>
  C++ gives no meaning to some executions, \<open>new\<close> may throw, and joining a thread that never ends does not
  return. Where the code reaches one, the model returns
  \<open>Inl\<close> of the reason and no state, so a theorem that an operation returns \<open>Inr\<close> is a
  statement that it is memory safe and comes back.
\<close>

datatype ub =
    NullDeref          \<comment> \<open>dereference of a null pointer\<close>
  | UseAfterFree       \<comment> \<open>dereference of a pointer to a destroyed object\<close>
  | InvalidIterator    \<comment> \<open>use of an iterator whose element was erased\<close>
  | EndDeref           \<comment> \<open>dereference or increment of a past-the-end iterator\<close>
  | OutOfBounds        \<comment> \<open>access outside an allocated block\<close>
  | SignedOverflow     \<comment> \<open>overflow of signed arithmetic\<close>
  | MissingReturn      \<comment> \<open>falling off the end of a function with a result\<close>
  | BadAlloc           \<comment> \<open>an allocation that throws\<close>
  | NeverReturns       \<comment> \<open>a call that waits for ever\<close>

type_synonym 'a result = "ub + 'a"

definition bindR :: "'a result \<Rightarrow> ('a \<Rightarrow> 'b result) \<Rightarrow> 'b result" where
  "bindR m f = (case m of Inl e \<Rightarrow> Inl e | Inr x \<Rightarrow> f x)"

lemma bindR_Inl [simp]: "bindR (Inl e) f = Inl e"
  by (simp add: bindR_def)

lemma bindR_Inr [simp]: "bindR (Inr x) f = f x"
  by (simp add: bindR_def)

lemma bindR_eq_Inr: "bindR m f = Inr y \<longleftrightarrow> (\<exists>x. m = Inr x \<and> f x = Inr y)"
  by (cases m) auto

lemma bindR_eq_Inl: "bindR m f = Inl e \<longleftrightarrow> m = Inl e \<or> (\<exists>x. m = Inr x \<and> f x = Inl e)"
  by (cases m) auto

lemma bindR_assoc: "bindR (bindR m f) g = bindR m (\<lambda>x. bindR (f x) g)"
  by (cases m) auto

section \<open>Unordered sets\<close>

text \<open>
  A \<open>std::unordered_set\<close> is the list of its elements in iteration order, without duplicates.
  The standard leaves that order open: \<open>begin()\<close> is an element the environment chooses
  (\<open>us_begin i\<close>), and every theorem is stated for all choices \<open>i\<close>.
\<close>

definition us_insert :: "'a \<Rightarrow> 'a list \<Rightarrow> 'a list" where
  "us_insert x xs = (if x \<in> set xs then xs else xs @ [x])"

definition us_erase :: "'a \<Rightarrow> 'a list \<Rightarrow> 'a list" where
  "us_erase x xs = filter (\<lambda>y. y \<noteq> x) xs"

definition us_begin :: "nat \<Rightarrow> 'a list \<Rightarrow> 'a" where
  "us_begin i xs = xs ! (i mod length xs)"

lemma set_us_insert [simp, us_simps]: "set (us_insert x xs) = insert x (set xs)"
  by (auto simp: us_insert_def)

lemma distinct_us_insert [simp, us_simps]: "distinct (us_insert x xs) = distinct xs"
  by (simp add: us_insert_def)

lemma length_us_insert:
  "length (us_insert x xs) = (if x \<in> set xs then length xs else Suc (length xs))"
  by (simp add: us_insert_def)

lemma us_insert_not_Nil [simp]: "us_insert x xs \<noteq> []"
  by (auto simp: us_insert_def)

lemma set_us_erase [simp, us_simps]: "set (us_erase x xs) = set xs - {x}"
  by (auto simp: us_erase_def)

lemma distinct_us_erase [simp, us_simps]: "distinct xs \<Longrightarrow> distinct (us_erase x xs)"
  by (simp add: us_erase_def)

lemma us_erase_absent [simp]: "x \<notin> set xs \<Longrightarrow> us_erase x xs = xs"
  unfolding us_erase_def by (rule filter_True) auto

lemma us_erase_remove1: "distinct xs \<Longrightarrow> us_erase x xs = remove1 x xs"
  by (simp add: us_erase_def distinct_remove1_removeAll removeAll_filter_not_eq eq_commute)

lemma length_us_erase:
  "distinct xs \<Longrightarrow> length (us_erase x xs) = (if x \<in> set xs then length xs - 1 else length xs)"
  by (simp add: us_erase_remove1 length_remove1)

lemma us_begin_in [simp, us_simps]: "xs \<noteq> [] \<Longrightarrow> us_begin i xs \<in> set xs"
  by (simp add: us_begin_def)

section \<open>Unordered maps\<close>

text \<open>
  A \<open>std::unordered_map\<close> is the list of its key/value pairs in iteration order, each key once.
  \<open>insert\<close> keeps an existing entry, as \<open>unordered_map::insert\<close> does; \<open>operator[]\<close> on a key
  that is there is \<open>um_find\<close>.
\<close>

type_synonym ('k, 'v) umap = "('k \<times> 'v) list"

definition um_find :: "'k \<Rightarrow> ('k, 'v) umap \<Rightarrow> 'v option" where
  "um_find k m = map_of m k"

definition um_insert :: "'k \<Rightarrow> 'v \<Rightarrow> ('k, 'v) umap \<Rightarrow> ('k, 'v) umap" where
  "um_insert k v m = (case um_find k m of Some _ \<Rightarrow> m | None \<Rightarrow> m @ [(k, v)])"

definition um_erase :: "'k \<Rightarrow> ('k, 'v) umap \<Rightarrow> ('k, 'v) umap" where
  "um_erase k m = filter (\<lambda>e. fst e \<noteq> k) m"

definition um_keys :: "('k, 'v) umap \<Rightarrow> 'k set" where
  "um_keys m = fst ` set m"

definition um_ok :: "('k, 'v) umap \<Rightarrow> bool" where
  "um_ok m = distinct (map fst m)"

lemma um_keys_iff: "k \<in> um_keys m \<longleftrightarrow> (\<exists>v. um_find k m = Some v)"
  by (auto simp: um_keys_def um_find_def map_of_eq_Some_iff dest: map_of_SomeD
      weak_map_of_SomeI intro: rev_image_eqI)

lemma um_find_None_iff: "um_find k m = None \<longleftrightarrow> k \<notin> um_keys m"
  by (auto simp: um_keys_def um_find_def map_of_eq_None_iff)

lemma um_keys_Nil [simp, um_simps]: "um_keys [] = {}"
  by (simp add: um_keys_def)

lemma um_find_Nil [simp, um_simps]: "um_find k [] = None"
  by (simp add: um_find_def)

lemma um_find_in: "um_find k m = Some v \<Longrightarrow> (k, v) \<in> set m"
  by (simp add: um_find_def map_of_SomeD)

lemma um_find_insert [simp, um_simps]:
  "um_find k (um_insert k' v m) =
     (if k = k' then (case um_find k m of None \<Rightarrow> Some v | Some w \<Rightarrow> Some w) else um_find k m)"
  by (auto simp: um_insert_def um_find_def map_add_def split: option.splits)

lemma um_find_erase [simp, um_simps]:
  "um_find k (um_erase k' m) = (if k = k' then None else um_find k m)"
  by (induction m) (auto simp: um_erase_def um_find_def)

lemma um_keys_insert [simp, um_simps]: "um_keys (um_insert k v m) = insert k (um_keys m)"
  by (force simp: um_keys_iff split: option.splits if_splits)

lemma um_keys_erase [simp, um_simps]: "um_keys (um_erase k m) = um_keys m - {k}"
  by (auto simp: um_keys_iff split: if_splits)

lemma um_ok_Nil [simp, um_simps]: "um_ok []"
  by (simp add: um_ok_def)

lemma um_ok_insert [simp, um_simps]: "um_ok m \<Longrightarrow> um_ok (um_insert k v m)"
  by (auto simp: um_insert_def um_ok_def um_find_def map_of_eq_None_iff split: option.splits)

lemma um_ok_erase [simp, um_simps]: "um_ok m \<Longrightarrow> um_ok (um_erase k m)"
  by (simp add: um_erase_def um_ok_def distinct_map inj_on_def)

lemma um_insert_absent: "um_find k m = None \<Longrightarrow> um_insert k v m = m @ [(k, v)]"
  by (simp add: um_insert_def)

lemma um_insert_present: "um_find k m = Some w \<Longrightarrow> um_insert k v m = m"
  by (simp add: um_insert_def)

lemma set_um_erase: "set (um_erase k m) = {e \<in> set m. fst e \<noteq> k}"
  by (auto simp: um_erase_def)

text \<open>
  The pools key every entry by the address of the object it holds
  (\<open>make_pair((ULONG_PTR)p.get(), p)\<close>).
\<close>

definition um_self :: "(addr, addr) umap \<Rightarrow> bool" where
  "um_self m = (\<forall>e \<in> set m. fst e = snd e)"

lemma um_self_Nil [simp, um_simps]: "um_self []"
  by (simp add: um_self_def)

lemma um_self_insert [simp, um_simps]: "um_self m \<Longrightarrow> um_self (um_insert k k m)"
  by (auto simp: um_insert_def um_self_def split: option.splits)

lemma um_self_erase [simp, um_simps]: "um_self m \<Longrightarrow> um_self (um_erase k m)"
  by (simp add: um_erase_def um_self_def)

lemma um_self_find: "um_self m \<Longrightarrow> um_find k m = Some v \<Longrightarrow> v = k"
  by (auto simp: um_self_def dest!: um_find_in)

lemma um_self_find_iff: "um_self m \<Longrightarrow> um_find k m = Some k \<longleftrightarrow> k \<in> um_keys m"
  by (auto simp: um_keys_iff dest: um_self_find)

lemma um_self_values: "um_self m \<Longrightarrow> snd ` set m = um_keys m"
  by (force simp: um_self_def um_keys_def)

end
