(* ===== verification/GT_Interfaces.thy ===== *)
theory GT_Interfaces
  imports GT_Prelude
begin

text \<open>
  The interfaces between the components, as locales: the key/value container behind the
  caches (\<open>kv_store\<close>), the table of user callbacks every back end keeps
  (\<open>callback_table\<close>), and the resource pools a server draws sockets and buffers from
  (\<open>tracked_pool\<close>, and \<open>exclusive_pool\<close> for a pool that never hands a resource to two
  holders). Each locale is interpreted in the theory of the component that provides it.
\<close>

section \<open>Key/value containers\<close>

text \<open>
  The laws of the associative containers of the standard library as the code uses them:
  \<open>insert\<close> does not overwrite, \<open>erase\<close> removes, \<open>find\<close> looks up.
\<close>

locale kv_store =
  fixes find :: "'k \<Rightarrow> 'm \<Rightarrow> 'v option"
    and ins :: "'k \<Rightarrow> 'v \<Rightarrow> 'm \<Rightarrow> 'm"
    and era :: "'k \<Rightarrow> 'm \<Rightarrow> 'm"
    and emp :: "'m"
    and ok :: "'m \<Rightarrow> bool"
  assumes ok_emp: "ok emp"
    and ok_ins: "ok m \<Longrightarrow> ok (ins k v m)"
    and ok_era: "ok m \<Longrightarrow> ok (era k m)"
    and find_emp: "find k emp = None"
    and find_ins: "ok m \<Longrightarrow>
      find k (ins k' v m) = (if k = k' \<and> find k m = None then Some v else find k m)"
    and find_era: "ok m \<Longrightarrow> find k (era k' m) = (if k = k' then None else find k m)"
begin

lemmas specs = ok_emp ok_ins ok_era find_emp find_ins find_era

lemma insert_keeps_first: "ok m \<Longrightarrow> find k (ins k w (ins k v m)) = find k (ins k v m)"
  by (simp add: specs)

lemma replace: "ok m \<Longrightarrow> find k (ins k v (era k m)) = Some v"
  by (simp add: specs)

lemma erase_frame: "ok m \<Longrightarrow> k \<noteq> k' \<Longrightarrow> find k (era k' (ins k v m)) = find k (ins k v m)"
  by (simp add: specs)

lemma ok_fold_era: "ok m \<Longrightarrow> ok (fold era ks m)"
  by (induction ks arbitrary: m) (simp_all add: specs)

lemma find_fold_era: "ok m \<Longrightarrow> find k (fold era ks m) = (if k \<in> set ks then None else find k m)"
  by (induction ks arbitrary: m) (simp_all add: specs)

lemma ok_fold_ins: "ok m \<Longrightarrow> ok (fold (\<lambda>(k, v). ins k v) kvs m)"
  by (induction kvs arbitrary: m) (auto simp: specs)

lemma find_fold_ins:
  "ok m \<Longrightarrow> find k (fold (\<lambda>(k, v). ins k v) kvs m) =
     (case find k m of Some w \<Rightarrow> Some w | None \<Rightarrow> map_of kvs k)"
  by (induction kvs arbitrary: m) (auto simp: specs split: option.splits)

end

interpretation um: kv_store um_find um_insert um_erase "[]" um_ok
  by unfold_locales (auto split: option.splits)

section \<open>Callback tables\<close>

text \<open>
  Every back end keeps one slot per event type it can report; an event of a type invokes what
  the slot holds. \<open>known\<close> are the types the back end's \<open>switch\<close> has a case for.
\<close>

datatype ('t, 'cb) cb_op = Register 't 'cb | UnRegister 't

locale callback_table =
  fixes reg :: "'t \<Rightarrow> 'cb \<Rightarrow> 's \<Rightarrow> 's"
    and unreg :: "'t \<Rightarrow> 's \<Rightarrow> 's"
    and slot :: "'t \<Rightarrow> 's \<Rightarrow> 'cb option"
    and known :: "'t \<Rightarrow> bool"
  assumes slot_reg: "slot t (reg t' cb s) = (if t = t' \<and> known t then Some cb else slot t s)"
    and slot_unreg: "slot t (unreg t' s) = (if t = t' \<and> known t then None else slot t s)"
begin

definition cb_step :: "('t, 'cb) cb_op \<Rightarrow> 's \<Rightarrow> 's" where
  "cb_step x s = (case x of Register t cb \<Rightarrow> reg t cb s | UnRegister t \<Rightarrow> unreg t s)"

lemma slot_cb_step:
  "slot t (cb_step x s) =
     (case x of
        Register t' cb \<Rightarrow> (if t = t' \<and> known t then Some cb else slot t s)
      | UnRegister t' \<Rightarrow> (if t = t' \<and> known t then None else slot t s))"
  by (simp add: cb_step_def slot_reg slot_unreg split: cb_op.splits)

lemma last_registration_wins:
  "known t \<Longrightarrow> slot t (reg t cb (fold cb_step ops s)) = Some cb"
  by (simp add: slot_reg)

lemma unregistered_silent: "known t \<Longrightarrow> slot t (unreg t (fold cb_step ops s)) = None"
  by (simp add: slot_unreg)

lemma unknown_never_set: "\<not> known t \<Longrightarrow> slot t (fold cb_step ops s) = slot t s"
  by (induction ops arbitrary: s) (auto simp: slot_cb_step split: cb_op.splits)

lemma other_types_untouched:
  "(\<And>x. x \<in> set ops \<Longrightarrow> (case x of Register t' _ \<Rightarrow> t' | UnRegister t' \<Rightarrow> t') \<noteq> t) \<Longrightarrow>
   slot t (fold cb_step ops s) = slot t s"
proof (induction ops arbitrary: s)
  case (Cons x ops)
  have "slot t (cb_step x s) = slot t s"
    using Cons.prems [of x] by (auto simp: slot_cb_step split: cb_op.splits)
  moreover have "slot t (fold cb_step ops (cb_step x s)) = slot t (cb_step x s)"
    using Cons.prems by (intro Cons.IH) auto
  ultimately show ?case by simp
qed simp

end

section \<open>Resource pools\<close>

text \<open>
  \<open>acquire\<close> hands out a resource, \<open>avail\<close> are the idle ones, \<open>used\<close> the ones the pool
  records as handed out. A \<open>tracked_pool\<close> records what it hands out and takes it off the
  idle ones; an \<open>exclusive_pool\<close> besides never hands out a resource that is in use, and
  \<open>release\<close> gives one back.
\<close>

fun acquire_many :: "('s \<Rightarrow> 'r \<times> 's) \<Rightarrow> nat \<Rightarrow> 's \<Rightarrow> 'r list \<times> 's" where
  "acquire_many acq 0 s = ([], s)"
| "acquire_many acq (Suc n) s =
     (let (r, s1) = acq s; (rs, s2) = acquire_many acq n s1 in (r # rs, s2))"

lemma acquire_many_Suc:
  "acquire_many acq (Suc n) s = (rs, s') \<longleftrightarrow>
     (\<exists>r s1 rs1. acq s = (r, s1) \<and> acquire_many acq n s1 = (rs1, s') \<and> rs = r # rs1)"
  by (auto simp: Let_def split: prod.splits)

lemma length_acquire_many: "length (fst (acquire_many acq n s)) = n"
  by (induction n arbitrary: s) (auto simp: Let_def split: prod.splits, metis fst_conv)

locale tracked_pool =
  fixes acquire :: "'s \<Rightarrow> 'r \<times> 's"
    and avail :: "'s \<Rightarrow> 'r set"
    and used :: "'s \<Rightarrow> 'r set"
    and inv :: "'s \<Rightarrow> bool"
  assumes acquire_inv: "inv s \<Longrightarrow> acquire s = (r, s') \<Longrightarrow> inv s'"
    and acquire_used: "inv s \<Longrightarrow> acquire s = (r, s') \<Longrightarrow> used s' = insert r (used s)"
    and acquire_taken: "inv s \<Longrightarrow> acquire s = (r, s') \<Longrightarrow> r \<notin> avail s'"
begin

lemma acquire_many_inv: "inv s \<Longrightarrow> acquire_many acquire n s = (rs, s') \<Longrightarrow> inv s'"
proof (induction n arbitrary: s rs)
  case (Suc n)
  then show ?case
    by (auto simp: Let_def split: prod.splits intro: acquire_inv)
qed simp

lemma acquire_many_used:
  "inv s \<Longrightarrow> acquire_many acquire n s = (rs, s') \<Longrightarrow> used s' = set rs \<union> used s"
proof (induction n arbitrary: s rs)
  case (Suc n)
  obtain r s1 rs1 where a: "acquire s = (r, s1)"
    and m: "acquire_many acquire n s1 = (rs1, s')" and rs: "rs = r # rs1"
    using Suc.prems(2) by (auto simp only: acquire_many_Suc)
  have "used s' = set rs1 \<union> used s1"
    using Suc.IH m acquire_inv [OF Suc.prems(1) a] by blast
  then show ?case using acquire_used [OF Suc.prems(1) a] rs by auto
qed simp

end

locale exclusive_pool = tracked_pool +
  fixes release :: "'r \<Rightarrow> 's \<Rightarrow> 's"
  assumes acquire_fresh: "inv s \<Longrightarrow> acquire s = (r, s') \<Longrightarrow> r \<notin> used s"
    and release_inv: "inv s \<Longrightarrow> inv (release r s)"
    and release_used: "inv s \<Longrightarrow> used (release r s) = used s - {r}"
begin

lemma acquire_many_fresh:
  "inv s \<Longrightarrow> acquire_many acquire n s = (rs, s') \<Longrightarrow> distinct rs \<and> set rs \<inter> used s = {}"
proof (induction n arbitrary: s rs)
  case (Suc n)
  obtain r s1 rs1 where a: "acquire s = (r, s1)"
    and m: "acquire_many acquire n s1 = (rs1, s')" and rs: "rs = r # rs1"
    using Suc.prems(2) by (auto simp only: acquire_many_Suc)
  have "inv s1" and u: "used s1 = insert r (used s)" and f: "r \<notin> used s"
    using Suc.prems(1) a by (auto dest: acquire_inv acquire_used acquire_fresh)
  then have "distinct rs1 \<and> set rs1 \<inter> used s1 = {}"
    using Suc.IH m by blast
  then show ?case using u f rs by auto
qed simp

lemma release_many:
  "inv s \<Longrightarrow> inv (fold release rs s) \<and> used (fold release rs s) = used s - set rs"
  by (induction rs arbitrary: s) (auto simp: release_inv release_used)

lemma acquire_release_all:
  assumes "inv s" and "acquire_many acquire n s = (rs, s')"
  shows "used (fold release rs s') = used s"
proof -
  have "inv s'" and "used s' = set rs \<union> used s" and "set rs \<inter> used s = {}"
    using assms acquire_many_inv acquire_many_used acquire_many_fresh by blast+
  then show ?thesis using release_many [of s' rs] by blast
qed

end

end
