(* ===== verification/GT_Definition.thy ===== *)
theory GT_Definition
  imports GT_Prelude
begin

text \<open>
  The enumerations of the two \<open>GT_Definition.h\<close>, of \<open>GTEpollDefine.h\<close>,
  \<open>GT_SocketContext.h\<close> and \<open>GT_Module_Wrapper.h\<close>, with the integer values the code relies on
  where it compares them, and the conversion of a configured log level, which the code has
  three times.
\<close>

datatype GT_ERROR_CODE = GT_ERROR_FAILED | GT_ERROR_SUCCESS

datatype GT_LOG_LEVEL =
  GT_LOG_LEVEL_INFO | GT_LOG_LEVEL_WARNING | GT_LOG_LEVEL_ERROR | GT_LOG_LEVEL_OFF

abbreviation GT_LOG_LEVEL_ALL :: GT_LOG_LEVEL where
  "GT_LOG_LEVEL_ALL \<equiv> GT_LOG_LEVEL_INFO"

datatype IO_EVENT_TYPE =
  IO_EVENT_NULL | IO_EVENT_ACCEPT | IO_EVENT_READ | IO_EVENT_WRITE | IO_EVENT_EXIT

datatype EVENT_TYPE = EVENT_READ | EVENT_WRITE | EVENT_EXCEPTION

abbreviation EVENT_ACCEPT :: EVENT_TYPE where
  "EVENT_ACCEPT \<equiv> EVENT_READ"

datatype GTEPOLL_CALLBACK_TYPE = GTEPOLL_READ | GTEPOLL_CONN

datatype SOCKET_TYPE = NULL_SOCKET | LISTEN_SOCKET | ACCEPTED_SOCKET

datatype MODULE_TYPE = GT_IOCP | GT_Select

section \<open>Integer values and order\<close>

text \<open>
  \<open>level < log_level_\<close> and \<open>std::map<EVENT_TYPE, _>\<close> compare the enumerators as integers:
  the two types are linearly ordered by their values.
\<close>

fun log_level_code :: "GT_LOG_LEVEL \<Rightarrow> nat" where
  "log_level_code GT_LOG_LEVEL_INFO = 0"
| "log_level_code GT_LOG_LEVEL_WARNING = 1"
| "log_level_code GT_LOG_LEVEL_ERROR = 2"
| "log_level_code GT_LOG_LEVEL_OFF = 3"

lemma log_level_code_inj: "log_level_code a = log_level_code b \<Longrightarrow> a = b"
  by (cases a; cases b) simp_all

lemma log_level_code_le3: "log_level_code a \<le> 3"
  by (cases a) simp_all

instantiation GT_LOG_LEVEL :: linorder
begin

definition less_eq_GT_LOG_LEVEL :: "GT_LOG_LEVEL \<Rightarrow> GT_LOG_LEVEL \<Rightarrow> bool" where
  "less_eq_GT_LOG_LEVEL a b = (log_level_code a \<le> log_level_code b)"

definition less_GT_LOG_LEVEL :: "GT_LOG_LEVEL \<Rightarrow> GT_LOG_LEVEL \<Rightarrow> bool" where
  "less_GT_LOG_LEVEL a b = (log_level_code a < log_level_code b)"

instance
  by standard (auto simp: less_eq_GT_LOG_LEVEL_def less_GT_LOG_LEVEL_def log_level_code_inj)

end

fun event_type_code :: "EVENT_TYPE \<Rightarrow> nat" where
  "event_type_code EVENT_READ = 0"
| "event_type_code EVENT_WRITE = 1"
| "event_type_code EVENT_EXCEPTION = 2"

lemma event_type_code_inj: "event_type_code a = event_type_code b \<Longrightarrow> a = b"
  by (cases a; cases b) simp_all

instantiation EVENT_TYPE :: linorder
begin

definition less_eq_EVENT_TYPE :: "EVENT_TYPE \<Rightarrow> EVENT_TYPE \<Rightarrow> bool" where
  "less_eq_EVENT_TYPE a b = (event_type_code a \<le> event_type_code b)"

definition less_EVENT_TYPE :: "EVENT_TYPE \<Rightarrow> EVENT_TYPE \<Rightarrow> bool" where
  "less_EVENT_TYPE a b = (event_type_code a < event_type_code b)"

instance
  by standard (auto simp: less_eq_EVENT_TYPE_def less_EVENT_TYPE_def event_type_code_inj)

end

lemmas level_order = less_eq_GT_LOG_LEVEL_def less_GT_LOG_LEVEL_def

section \<open>The configured log level\<close>

text \<open>
  \<open>GT_ServerManager\<close>, \<open>GT_Select_Wrapper\<close> and \<open>GT_Client\<close> each have a private
  \<open>LoglevelConvert\<close>; the three bodies are the same.
\<close>

definition LoglevelConvert :: "string \<Rightarrow> GT_LOG_LEVEL" where
  "LoglevelConvert loglevel =
     (if loglevel = ''all'' then GT_LOG_LEVEL_ALL
      else if loglevel = ''off'' then GT_LOG_LEVEL_OFF
      else if loglevel = ''warn'' then GT_LOG_LEVEL_WARNING
      else if loglevel = ''error'' then GT_LOG_LEVEL_ERROR
      else GT_LOG_LEVEL_OFF)"

definition LoglevelConvert_select :: "string \<Rightarrow> GT_LOG_LEVEL" where
  "LoglevelConvert_select loglevel =
     (if loglevel = ''all'' then GT_LOG_LEVEL_ALL
      else if loglevel = ''off'' then GT_LOG_LEVEL_OFF
      else if loglevel = ''warn'' then GT_LOG_LEVEL_WARNING
      else if loglevel = ''error'' then GT_LOG_LEVEL_ERROR
      else GT_LOG_LEVEL_OFF)"

definition LoglevelConvert_client :: "string \<Rightarrow> GT_LOG_LEVEL" where
  "LoglevelConvert_client loglevel =
     (if loglevel = ''all'' then GT_LOG_LEVEL_ALL
      else if loglevel = ''off'' then GT_LOG_LEVEL_OFF
      else if loglevel = ''warn'' then GT_LOG_LEVEL_WARNING
      else if loglevel = ''error'' then GT_LOG_LEVEL_ERROR
      else GT_LOG_LEVEL_OFF)"

lemma LoglevelConvert_on:
  "LoglevelConvert l \<noteq> GT_LOG_LEVEL_OFF \<longleftrightarrow> l \<in> {''all'', ''warn'', ''error''}"
  by (auto simp: LoglevelConvert_def)

end
