(* ===== verification/GT_Config.thy ===== *)
theory GT_Config
  imports Complex_Main GT_Prelude
begin

text \<open>
  \<open>GT_Util_CfgHelper\<close> and \<open>GT_Util_FileHelper\<close>: the configuration file is read and parsed
  once into a \<open>Json::Value\<close> kept in a static member, and every reader looks a value up as
  \<open>cfg_root_[section][key]\<close>. That index operator of jsoncpp is the non-const one, so a read
  inserts a null member for whatever it does not find: reading mutates the configuration. The
  theorems show that no later read can tell. The parser and the file system are parameters.
\<close>

section \<open>JSON values\<close>

text \<open>
  \<open>Json::Value\<close> by its \<open>ValueType\<close>; a double is a rational (finite) number. An object is the
  list of its members.
\<close>

datatype Json =
    JNull
  | JInt int
  | JUInt nat
  | JReal rat
  | JString string
  | JBool bool
  | JArray "Json list"
  | JObject "(string \<times> Json) list"

text \<open>jsoncpp throws where a value does not have the type an operation needs.\<close>

datatype json_error = LogicError

definition minInt :: int where "minInt = - (2 ^ 31)"
definition maxInt :: int where "maxInt = 2 ^ 31 - 1"

fun isInt :: "Json \<Rightarrow> bool" where
  "isInt (JInt i) = (minInt \<le> i \<and> i \<le> maxInt)"
| "isInt (JUInt n) = (int n \<le> maxInt)"
| "isInt (JReal r) = (of_int minInt \<le> r \<and> r \<le> of_int maxInt \<and> of_int \<lfloor>r\<rfloor> = r)"
| "isInt _ = False"

fun isBool :: "Json \<Rightarrow> bool" where
  "isBool (JBool b) = True"
| "isBool _ = False"

fun isDouble :: "Json \<Rightarrow> bool" where
  "isDouble (JInt _) = True"
| "isDouble (JUInt _) = True"
| "isDouble (JReal _) = True"
| "isDouble _ = False"

fun isString :: "Json \<Rightarrow> bool" where
  "isString (JString _) = True"
| "isString _ = False"

text \<open>
  The conversions, on every type they accept without rendering a number as text. Truncation of a
  double is towards zero.
\<close>

definition trunc_rat :: "rat \<Rightarrow> int" where
  "trunc_rat r = (if 0 \<le> r then \<lfloor>r\<rfloor> else \<lceil>r\<rceil>)"

fun asInt :: "Json \<Rightarrow> json_error + cint" where
  "asInt (JInt i) = (if isInt (JInt i) then Inr (word_of_int i) else Inl LogicError)"
| "asInt (JUInt n) = (if isInt (JUInt n) then Inr (word_of_nat n) else Inl LogicError)"
| "asInt (JReal r) =
     (if of_int minInt \<le> r \<and> r \<le> of_int maxInt then Inr (word_of_int (trunc_rat r))
      else Inl LogicError)"
| "asInt JNull = Inr 0"
| "asInt (JBool b) = Inr (if b then 1 else 0)"
| "asInt _ = Inl LogicError"

fun asBool :: "Json \<Rightarrow> json_error + bool" where
  "asBool (JBool b) = Inr b"
| "asBool JNull = Inr False"
| "asBool (JInt i) = Inr (i \<noteq> 0)"
| "asBool (JUInt n) = Inr (n \<noteq> 0)"
| "asBool (JReal r) = Inr (r \<noteq> 0)"
| "asBool _ = Inl LogicError"

text \<open>The rounding of a 64-bit integer to a double is the parameter \<open>to_double\<close>.\<close>

fun asDouble :: "(int \<Rightarrow> rat) \<Rightarrow> Json \<Rightarrow> json_error + rat" where
  "asDouble to_double (JInt i) = Inr (to_double i)"
| "asDouble to_double (JUInt n) = Inr (to_double (int n))"
| "asDouble to_double (JReal r) = Inr r"
| "asDouble to_double JNull = Inr 0"
| "asDouble to_double (JBool b) = Inr (if b then 1 else 0)"
| "asDouble to_double _ = Inl LogicError"

text \<open>
  \<open>asString\<close> also renders numbers (\<open>valueToString\<close>, the parameter \<open>show_num\<close>); the
  readers call it on strings only.
\<close>

fun asString :: "(Json \<Rightarrow> string) \<Rightarrow> Json \<Rightarrow> json_error + string" where
  "asString show_num (JString s) = Inr s"
| "asString show_num JNull = Inr ''''"
| "asString show_num (JBool b) = Inr (if b then ''true'' else ''false'')"
| "asString show_num (JArray _) = Inl LogicError"
| "asString show_num (JObject _) = Inl LogicError"
| "asString show_num v = Inr (show_num v)"

text \<open>
  \<open>Value::operator[](key)\<close>, that is \<open>resolveReference\<close>: a null value becomes an empty object,
  a missing member is created as null, and the result refers to the member. The model returns
  the member and the object that now holds it; \<open>json_put\<close> writes a changed member back, as
  changing the referenced value does in the code.
\<close>

fun resolveReference :: "string \<Rightarrow> Json \<Rightarrow> json_error + (Json \<times> Json)" where
  "resolveReference key JNull = Inr (JNull, JObject [(key, JNull)])"
| "resolveReference key (JObject ms) =
     (case map_of ms key of
        Some v \<Rightarrow> Inr (v, JObject ms)
      | None \<Rightarrow> Inr (JNull, JObject (ms @ [(key, JNull)])))"
| "resolveReference key _ = Inl LogicError"

fun json_put :: "string \<Rightarrow> Json \<Rightarrow> Json \<Rightarrow> Json" where
  "json_put key v (JObject ms) =
     JObject (map (\<lambda>(k, w). if k = key then (k, v) else (k, w)) ms)"
| "json_put key v j = j"

section \<open>The helper's state\<close>

record os_file =
  f_size :: nat        \<comment> \<open>\<open>tellg\<close> at the end of the file\<close>
  f_data :: string     \<comment> \<open>what \<open>read\<close> delivers; in text mode it may be shorter\<close>
  f_junk :: string     \<comment> \<open>the initial content of the block \<open>new char[len]\<close>\<close>

record cfg_state =
  cfg_content :: string
  cfg_root :: Json
  cfg_load :: bool

definition cfg_init :: cfg_state where
  "cfg_init = \<lparr>cfg_content = '''', cfg_root = JNull, cfg_load = False\<rparr>"

definition ReadFileContent :: "(string \<Rightarrow> os_file option) \<Rightarrow> string \<Rightarrow> string" where
  "ReadFileContent fs path =
     (case fs path of
        None \<Rightarrow> ''''
      | Some f \<Rightarrow> if 0 < f_size f then take (f_size f) (f_data f @ f_junk f) else '''')"

definition LoadCfg ::
    "(string \<Rightarrow> os_file option) \<Rightarrow> (string \<Rightarrow> Json \<Rightarrow> bool \<times> Json) \<Rightarrow> string \<Rightarrow> cfg_state
     \<Rightarrow> bool \<times> cfg_state" where
  "LoadCfg fs parse cfgpath s =
     (if cfg_load s then (cfg_load s, s)
      else
        (let s1 = s\<lparr>cfg_content := ReadFileContent fs cfgpath\<rparr>
         in if cfg_content s1 \<noteq> [] then
              (let (ret, jr) = parse (cfg_content s1) (cfg_root s1);
                   s2 = s1\<lparr>cfg_root := jr\<rparr>
               in if \<not> ret then (ret, s2) else (ret, s2\<lparr>cfg_load := True\<rparr>))
            else (cfg_content s1 \<noteq> [], s1)))"

text \<open>\<open>cfg_root_[section][key]\<close>: the value and the root with what the lookup inserted.\<close>

definition cfg_index :: "string \<Rightarrow> string \<Rightarrow> Json \<Rightarrow> json_error + (Json \<times> Json)" where
  "cfg_index sec key jr =
     (case resolveReference sec jr of
        Inl e \<Rightarrow> Inl e
      | Inr (sub, jr1) \<Rightarrow>
          (case resolveReference key sub of
             Inl e \<Rightarrow> Inl e
           | Inr (v, sub1) \<Rightarrow> Inr (v, json_put sec sub1 jr1)))"

text \<open>Each reader indexes twice, once for the test and once for the conversion.\<close>

definition read_cfg ::
    "(Json \<Rightarrow> bool) \<Rightarrow> (Json \<Rightarrow> json_error + 'a) \<Rightarrow> string \<Rightarrow> string \<Rightarrow> 'a \<Rightarrow> cfg_state
     \<Rightarrow> json_error + ('a \<times> cfg_state)" where
  "read_cfg is conv sec key defaultvalue s =
     (case cfg_index sec key (cfg_root s) of
        Inl e \<Rightarrow> Inl e
      | Inr (v, jr1) \<Rightarrow>
          if is v then
            (case cfg_index sec key jr1 of
               Inl e \<Rightarrow> Inl e
             | Inr (w, jr2) \<Rightarrow>
                 (case conv w of
                    Inl e \<Rightarrow> Inl e
                  | Inr x \<Rightarrow> Inr (x, s\<lparr>cfg_root := jr2\<rparr>)))
          else Inr (defaultvalue, s\<lparr>cfg_root := jr1\<rparr>))"

definition ReadBoolCfg :: "string \<Rightarrow> string \<Rightarrow> bool \<Rightarrow> cfg_state \<Rightarrow> json_error + (bool \<times> cfg_state)" where
  "ReadBoolCfg = read_cfg isBool asBool"

definition ReadDoubleCfg ::
    "(int \<Rightarrow> rat) \<Rightarrow> string \<Rightarrow> string \<Rightarrow> rat \<Rightarrow> cfg_state \<Rightarrow> json_error + (rat \<times> cfg_state)" where
  "ReadDoubleCfg to_double = read_cfg isDouble (asDouble to_double)"

definition ReadIntCfg :: "string \<Rightarrow> string \<Rightarrow> cint \<Rightarrow> cfg_state \<Rightarrow> json_error + (cint \<times> cfg_state)" where
  "ReadIntCfg = read_cfg isInt asInt"

definition ReadStringCfg ::
    "(Json \<Rightarrow> string) \<Rightarrow> string \<Rightarrow> string \<Rightarrow> string \<Rightarrow> cfg_state \<Rightarrow> json_error + (string \<times> cfg_state)" where
  "ReadStringCfg show_num = read_cfg isString (asString show_num)"

section \<open>Reading as a pure function\<close>

text \<open>
  What a reader returns, as a function of the root alone. \<open>section_ok\<close> says that indexing the
  section does not throw: the section is missing, null or an object.
\<close>

fun members :: "Json \<Rightarrow> (string \<times> Json) list option" where
  "members JNull = Some []"
| "members (JObject ms) = Some ms"
| "members _ = None"

definition member :: "string \<Rightarrow> Json \<Rightarrow> Json" where
  "member key j =
     (case members j of
        None \<Rightarrow> JNull
      | Some ms \<Rightarrow> (case map_of ms key of None \<Rightarrow> JNull | Some v \<Rightarrow> v))"

definition cfg_get :: "Json \<Rightarrow> string \<Rightarrow> string \<Rightarrow> Json" where
  "cfg_get jr sec key = member key (member sec jr)"

definition section_ok :: "Json \<Rightarrow> string \<Rightarrow> bool" where
  "section_ok jr sec = (members jr \<noteq> None \<and> members (member sec jr) \<noteq> None)"

definition GT_READ_CFG_INT :: "Json \<Rightarrow> string \<Rightarrow> string \<Rightarrow> cint \<Rightarrow> cint" where
  "GT_READ_CFG_INT jr sec key d =
     (let v = cfg_get jr sec key
      in if isInt v then (case asInt v of Inl _ \<Rightarrow> d | Inr i \<Rightarrow> i) else d)"

definition GT_READ_CFG_BOOL :: "Json \<Rightarrow> string \<Rightarrow> string \<Rightarrow> bool \<Rightarrow> bool" where
  "GT_READ_CFG_BOOL jr sec key d =
     (case cfg_get jr sec key of JBool b \<Rightarrow> b | _ \<Rightarrow> d)"

definition GT_READ_CFG_STRING :: "Json \<Rightarrow> string \<Rightarrow> string \<Rightarrow> string \<Rightarrow> string" where
  "GT_READ_CFG_STRING jr sec key d =
     (case cfg_get jr sec key of JString s \<Rightarrow> s | _ \<Rightarrow> d)"

lemma resolveReference_ok:
  "members j \<noteq> None \<Longrightarrow>
   \<exists>j'. resolveReference key j = Inr (member key j, j') \<and> members j' \<noteq> None \<and>
        (\<forall>k. member k j' = member k j) \<and> (\<exists>ms. j' = JObject ms \<and> map_of ms key = Some (member key j))"
  by (cases j) (auto simp: member_def map_add_def split: option.splits)

lemma member_json_put:
  assumes "j = JObject ms" and "map_of ms key = Some w"
  shows "member k (json_put key v j) = (if k = key then v else member k j)"
proof -
  have "map_of (map (\<lambda>(k, w). if k = key then (k, v) else (k, w)) ms) k =
        (if k = key then map_option (\<lambda>_. v) (map_of ms k) else map_of ms k)" for k
    by (induction ms) auto
  then show ?thesis
    using assms by (auto simp: member_def split: option.splits)
qed

lemma members_json_put [simp]: "members (json_put key v j) = None \<longleftrightarrow> members j = None"
  by (cases j) auto

lemma cfg_index_pure:
  assumes "section_ok jr sec"
  shows "\<exists>jr'. cfg_index sec key jr = Inr (cfg_get jr sec key, jr') \<and>
     (\<forall>s k. cfg_get jr' s k = cfg_get jr s k) \<and>
     (\<forall>s. section_ok jr' s = section_ok jr s)"
proof -
  have r: "members jr \<noteq> None" and m: "members (member sec jr) \<noteq> None"
    using assms by (auto simp: section_ok_def)
  obtain jr1 ms where 1: "resolveReference sec jr = Inr (member sec jr, jr1)"
      "members jr1 \<noteq> None" "\<And>k. member k jr1 = member k jr"
      "jr1 = JObject ms" "map_of ms sec = Some (member sec jr)"
    using resolveReference_ok [OF r, of sec] by blast
  obtain sub1 where 2: "resolveReference key (member sec jr) = Inr (cfg_get jr sec key, sub1)"
      "members sub1 \<noteq> None" "\<And>k. member k sub1 = member k (member sec jr)"
    using resolveReference_ok [OF m, of key] by (auto simp: cfg_get_def)
  let ?jr = "json_put sec sub1 jr1"
  have "member s ?jr = (if s = sec then sub1 else member s jr)" for s
    using member_json_put [OF 1(4,5)] 1(3) by simp
  moreover have "members ?jr \<noteq> None" using 1(2) by simp
  ultimately show ?thesis
    using 1 2 r m by (auto simp: cfg_index_def cfg_get_def section_ok_def)
qed

lemma read_cfg_pure:
  assumes ok: "section_ok (cfg_root s) sec"
    and conv: "\<And>v. is v \<Longrightarrow> \<exists>x. conv v = Inr x"
  shows "\<exists>s' x. read_cfg is conv sec key d s = Inr (x, s') \<and>
     (if is (cfg_get (cfg_root s) sec key) then conv (cfg_get (cfg_root s) sec key) = Inr x else x = d) \<and>
     (\<forall>se k. cfg_get (cfg_root s') se k = cfg_get (cfg_root s) se k) \<and>
     (\<forall>se. section_ok (cfg_root s') se = section_ok (cfg_root s) se)"
proof -
  obtain jr1 where 1: "cfg_index sec key (cfg_root s) = Inr (cfg_get (cfg_root s) sec key, jr1)"
      "\<And>se k. cfg_get jr1 se k = cfg_get (cfg_root s) se k"
      "\<And>se. section_ok jr1 se = section_ok (cfg_root s) se"
    using cfg_index_pure [OF ok, of key] by blast
  have "section_ok jr1 sec" using 1(3) ok by simp
  then obtain jr2 where 2: "cfg_index sec key jr1 = Inr (cfg_get (cfg_root s) sec key, jr2)"
      "\<And>se k. cfg_get jr2 se k = cfg_get (cfg_root s) se k"
      "\<And>se. section_ok jr2 se = section_ok (cfg_root s) se"
    using cfg_index_pure [of jr1 sec key] 1(2,3) by auto
  show ?thesis
  proof (cases "is (cfg_get (cfg_root s) sec key)")
    case True
    then obtain x where "conv (cfg_get (cfg_root s) sec key) = Inr x" using conv by blast
    then show ?thesis using True 1 2 by (auto simp: read_cfg_def)
  next
    case False
    then show ?thesis using 1 by (auto simp: read_cfg_def)
  qed
qed

lemma isInt_asInt: "isInt v \<Longrightarrow> \<exists>i. asInt v = Inr i"
  by (cases v) auto

lemma isBool_asBool: "isBool v \<Longrightarrow> \<exists>b. asBool v = Inr b"
  by (cases v) auto

lemma isString_asString: "isString v \<Longrightarrow> \<exists>x. asString show_num v = Inr x"
  by (cases v) auto

lemma isDouble_asDouble: "isDouble v \<Longrightarrow> \<exists>x. asDouble f v = Inr x"
  by (cases v) auto

section \<open>Properties\<close>

definition cfg0 :: cfg_state where
  "cfg0 = \<lparr>cfg_content = [CHR ''x''],
     cfg_root = JObject [(''server_cfg'', JObject [(''server_port'', JInt 5555), (''enable_tcp_mode'', JInt 1)])],
     cfg_load = True\<rparr>"

lemma ReadInt_pure:
  assumes "section_ok (cfg_root s) sec"
  shows "\<exists>s'. ReadIntCfg sec key d s = Inr (GT_READ_CFG_INT (cfg_root s) sec key d, s') \<and>
     (\<forall>se k. cfg_get (cfg_root s') se k = cfg_get (cfg_root s) se k) \<and>
     (\<forall>se. section_ok (cfg_root s') se = section_ok (cfg_root s) se)"
proof -
  obtain s' x where r: "read_cfg isInt asInt sec key d s = Inr (x, s')"
     "if isInt (cfg_get (cfg_root s) sec key) then asInt (cfg_get (cfg_root s) sec key) = Inr x else x = d"
     "\<forall>se k. cfg_get (cfg_root s') se k = cfg_get (cfg_root s) se k"
     "\<forall>se. section_ok (cfg_root s') se = section_ok (cfg_root s) se"
    using read_cfg_pure [OF assms, of isInt asInt key d] isInt_asInt by blast
  then have "x = GT_READ_CFG_INT (cfg_root s) sec key d"
    by (auto simp: GT_READ_CFG_INT_def Let_def split: if_splits)
  then show ?thesis using r by (auto simp: ReadIntCfg_def)
qed

lemma ReadString_pure:
  assumes "section_ok (cfg_root s) sec"
  shows "\<exists>s'. ReadStringCfg show_num sec key d s = Inr (GT_READ_CFG_STRING (cfg_root s) sec key d, s') \<and>
     (\<forall>se k. cfg_get (cfg_root s') se k = cfg_get (cfg_root s) se k) \<and>
     (\<forall>se. section_ok (cfg_root s') se = section_ok (cfg_root s) se)"
proof -
  obtain s' x where r: "read_cfg isString (asString show_num) sec key d s = Inr (x, s')"
     "if isString (cfg_get (cfg_root s) sec key) then asString show_num (cfg_get (cfg_root s) sec key) = Inr x
      else x = d"
     "\<forall>se k. cfg_get (cfg_root s') se k = cfg_get (cfg_root s) se k"
     "\<forall>se. section_ok (cfg_root s') se = section_ok (cfg_root s) se"
    using read_cfg_pure [OF assms, of isString "asString show_num" key d] isString_asString by blast
  from r(2) have "x = GT_READ_CFG_STRING (cfg_root s) sec key d"
    by (cases "cfg_get (cfg_root s) sec key") (auto simp: GT_READ_CFG_STRING_def)
  then show ?thesis using r by (auto simp: ReadStringCfg_def)
qed

section \<open>The section of the log\<close>

text \<open>What a call of a server can end in besides its result.\<close>

datatype srv_error = Thrown json_error | Undefined ub

text \<open>Every program reads the level and the size of its log in this order.\<close>

definition read_log_cfg :: "(Json \<Rightarrow> string) \<Rightarrow> cfg_state \<Rightarrow> json_error + (string \<times> cint \<times> cfg_state)" where
  "read_log_cfg show_num c =
     (case ReadStringCfg show_num ''log_control'' ''log_level'' ''off'' c of
        Inl e \<Rightarrow> Inl e
      | Inr (level_str, c1) \<Rightarrow>
          (case ReadIntCfg ''log_control'' ''max_log_size'' 50 c1 of
             Inl e \<Rightarrow> Inl e
           | Inr (n, c2) \<Rightarrow> Inr (level_str, n, c2)))"

lemma read_log_cfg_pure:
  assumes "section_ok (cfg_root c) ''log_control''"
  shows "\<exists>c'. read_log_cfg show_num c =
       Inr (GT_READ_CFG_STRING (cfg_root c) ''log_control'' ''log_level'' ''off'',
            GT_READ_CFG_INT (cfg_root c) ''log_control'' ''max_log_size'' 50, c') \<and>
     (\<forall>se k. cfg_get (cfg_root c') se k = cfg_get (cfg_root c) se k) \<and>
     (\<forall>se. section_ok (cfg_root c') se = section_ok (cfg_root c) se)"
proof -
  obtain c1 where 1: "ReadStringCfg show_num ''log_control'' ''log_level'' ''off'' c =
      Inr (GT_READ_CFG_STRING (cfg_root c) ''log_control'' ''log_level'' ''off'', c1)"
      "\<forall>se k. cfg_get (cfg_root c1) se k = cfg_get (cfg_root c) se k"
      "\<forall>se. section_ok (cfg_root c1) se = section_ok (cfg_root c) se"
    using ReadString_pure [OF assms] by blast
  obtain c2 where 2: "ReadIntCfg ''log_control'' ''max_log_size'' 50 c1 =
      Inr (GT_READ_CFG_INT (cfg_root c1) ''log_control'' ''max_log_size'' 50, c2)"
      "\<forall>se k. cfg_get (cfg_root c2) se k = cfg_get (cfg_root c1) se k"
      "\<forall>se. section_ok (cfg_root c2) se = section_ok (cfg_root c1) se"
    using ReadInt_pure [of c1] 1(3) assms by blast
  have "GT_READ_CFG_INT (cfg_root c1) ''log_control'' ''max_log_size'' 50 =
      GT_READ_CFG_INT (cfg_root c) ''log_control'' ''max_log_size'' 50"
    using 1(2) by (simp add: GT_READ_CFG_INT_def)
  then show ?thesis using 1 2 by (simp add: read_log_cfg_def)
qed

text \<open>Reading an integer inserts null members for what it does not find, but no reader can tell: the
  read returns the value under the section and key, or the default when there is none that is an
  integer, and every later lookup finds what it would have found before.\<close>

theorem read_int_pure:
  assumes "section_ok (cfg_root s) sec"
  shows "\<exists>s'. ReadIntCfg sec key d s = Inr (GT_READ_CFG_INT (cfg_root s) sec key d, s') \<and>
     (\<forall>se k. cfg_get (cfg_root s') se k = cfg_get (cfg_root s) se k) \<and>
     (\<forall>se. section_ok (cfg_root s') se = section_ok (cfg_root s) se)"
  by (rule ReadInt_pure [OF assms])

theorem read_int_pure_witness:
  "\<exists>s'. ReadIntCfg ''server_cfg'' ''server_port'' 1 cfg0 = Inr (5555, s') \<and>
     cfg_get (cfg_root s') ''server_cfg'' ''server_port'' = JInt 5555"
proof -
  have "section_ok (cfg_root cfg0) ''server_cfg''" by (simp add: section_ok_def member_def cfg0_def)
  from read_int_pure [OF this, of "''server_port''" 1] show ?thesis
    by (auto simp: cfg0_def GT_READ_CFG_INT_def cfg_get_def member_def minInt_def maxInt_def)
qed

text \<open>A flag of the configuration file that is written as a number is never honoured: whatever integer
  stands there, reading the flag yields the default.\<close>

theorem read_bool_number:
  assumes "section_ok (cfg_root s) sec" and "cfg_get (cfg_root s) sec key = JInt i"
  shows "\<exists>s'. ReadBoolCfg sec key d s = Inr (d, s')"
  using read_cfg_pure [OF assms(1), of isBool asBool key d] isBool_asBool assms(2)
  by (auto simp: ReadBoolCfg_def)

theorem read_bool_number_witness:
  "\<exists>s'. ReadBoolCfg ''server_cfg'' ''enable_tcp_mode'' False cfg0 = Inr (False, s')"
  by (rule read_bool_number [where i = 1]) (simp_all add: section_ok_def member_def cfg0_def cfg_get_def)

text \<open>Loading happens once: after a successful load, loading again returns true and changes nothing,
  whatever file or path is given; a failed load can be repeated.\<close>

theorem load_once:
  "(case LoadCfg fs parse p s of (ok, s') \<Rightarrow>
      if ok then LoadCfg fs' parse' p' s' = (True, s') else \<not> cfg_load s')"
proof (cases "cfg_load s")
  case False
  obtain ret jr where "parse (ReadFileContent fs p) (cfg_root s) = (ret, jr)" by fastforce
  then show ?thesis using False by (cases ret) (auto simp: LoadCfg_def Let_def)
qed (simp add: LoadCfg_def)

end
