(* ===== verification/GT_Log.thy ===== *)
theory GT_Log
  imports GT_Definition
begin

text \<open>
  \<open>GT_Util_GlogWrapper\<close>: the process-wide log. The model keeps the wrapper's own state and the
  part of glog's state the wrapper sets (one destination per severity, the flags), and the log
  lines glog was given.
\<close>

datatype LogSeverity = GLOG_INFO | GLOG_WARNING | GLOG_ERROR

fun severity_code :: "LogSeverity \<Rightarrow> nat" where
  "severity_code GLOG_INFO = 0"
| "severity_code GLOG_WARNING = 1"
| "severity_code GLOG_ERROR = 2"

record glog =
  destination :: "nat \<Rightarrow> string option"   \<comment> \<open>\<open>SetLogDestination(severity, path)\<close>\<close>
  max_log_size :: cint
  google_inited :: bool
  lines :: "(LogSeverity \<times> string) list"

record log_state =
  per_log_size :: cint
  log_path :: string
  log_level :: GT_LOG_LEVEL
  is_log_initted :: bool
  glog :: glog

definition log_init :: log_state where
  "log_init = \<lparr>per_log_size = 50, log_path = ''./temp.log'', log_level = GT_LOG_LEVEL_OFF,
     is_log_initted = False,
     glog = \<lparr>destination = (\<lambda>_. None), max_log_size = 0, google_inited = False, lines = []\<rparr>\<rparr>"

definition IS_INVALID_LOGLEVEL :: "GT_LOG_LEVEL \<Rightarrow> bool" where
  "IS_INVALID_LOGLEVEL level = (level \<ge> GT_LOG_LEVEL_OFF \<or> level < GT_LOG_LEVEL_INFO)"

definition GT_Loglevel2GoogleLoglevel :: "GT_LOG_LEVEL \<Rightarrow> LogSeverity" where
  "GT_Loglevel2GoogleLoglevel level =
     (case level of
        GT_LOG_LEVEL_WARNING \<Rightarrow> GLOG_WARNING
      | GT_LOG_LEVEL_ERROR \<Rightarrow> GLOG_ERROR
      | GT_LOG_LEVEL_INFO \<Rightarrow> GLOG_INFO
      | _ \<Rightarrow> GLOG_INFO)"

definition SetLogDestination :: "nat \<Rightarrow> string \<Rightarrow> log_state \<Rightarrow> log_state" where
  "SetLogDestination sev path s =
     s\<lparr>glog := (glog s)\<lparr>destination := (destination (glog s))(sev := Some path)\<rparr>\<rparr>"

definition GT_SetLoglevelDestination :: "log_state \<Rightarrow> log_state" where
  "GT_SetLoglevelDestination s =
     (let s1 = SetLogDestination (severity_code (GT_Loglevel2GoogleLoglevel (log_level s))) (log_path s) s
      in fold (\<lambda>le t. if le \<noteq> log_level_code (log_level t) then SetLogDestination le '''' t else t)
           [0..<Suc (log_level_code GT_LOG_LEVEL_OFF)] s1)"

definition GT_SetGlogFlags :: "log_state \<Rightarrow> log_state" where
  "GT_SetGlogFlags s = s\<lparr>glog := (glog s)\<lparr>max_log_size := per_log_size s\<rparr>\<rparr>"

definition InitGoogleLogging :: "log_state \<Rightarrow> log_state" where
  "InitGoogleLogging s = s\<lparr>glog := (glog s)\<lparr>google_inited := True\<rparr>\<rparr>"

definition ShutdownGoogleLogging :: "log_state \<Rightarrow> log_state" where
  "ShutdownGoogleLogging s = s\<lparr>glog := (glog s)\<lparr>google_inited := False\<rparr>\<rparr>"

definition GT_DefaultLogInitialize :: "string \<Rightarrow> log_state \<Rightarrow> bool \<times> log_state" where
  "GT_DefaultLogInitialize folder s =
     (if is_log_initted s then (True, s)
      else
        (let s1 = s\<lparr>per_log_size := 50, log_level := GT_LOG_LEVEL_ALL,
                    log_path := folder @ ''gtserver.log''\<rparr>;
             s2 = GT_SetGlogFlags (GT_SetLoglevelDestination (InitGoogleLogging s1));
             s3 = s2\<lparr>is_log_initted := True\<rparr>
         in (is_log_initted s3, s3)))"

definition GT_LogInitialize ::
    "string \<Rightarrow> string \<Rightarrow> GT_LOG_LEVEL \<Rightarrow> cint \<Rightarrow> log_state \<Rightarrow> bool \<times> log_state" where
  "GT_LogInitialize folder logname level maxlogsize s =
     (if is_log_initted s then (True, s)
      else if IS_INVALID_LOGLEVEL level \<or> sint maxlogsize \<le> 0 then (is_log_initted s, s)
      else
        (let s1 = s\<lparr>per_log_size := maxlogsize, log_level := level, log_path := folder @ logname\<rparr>;
             s2 = GT_SetGlogFlags (GT_SetLoglevelDestination (InitGoogleLogging s1));
             s3 = s2\<lparr>is_log_initted := True\<rparr>
         in (is_log_initted s3, s3)))"

definition GT_LogUnintialize :: "log_state \<Rightarrow> bool \<times> log_state" where
  "GT_LogUnintialize s =
     (let s1 = (if is_log_initted s then ShutdownGoogleLogging s else s)
      in (True, s1\<lparr>is_log_initted := False\<rparr>))"

definition GT_SetLoglevel :: "GT_LOG_LEVEL \<Rightarrow> log_state \<Rightarrow> bool \<times> log_state" where
  "GT_SetLoglevel level s =
     (if IS_INVALID_LOGLEVEL level \<or> \<not> is_log_initted s then (is_log_initted s, s)
      else (True, GT_SetLoglevelDestination (s\<lparr>log_level := level\<rparr>)))"

text \<open>\<open>itoa(line, line_, 10)\<close> of a line number.\<close>

fun itoa10 :: "nat \<Rightarrow> string" where
  "itoa10 n = (if n < 10 then [char_of (48 + n)] else itoa10 (n div 10) @ [char_of (48 + n mod 10)])"

declare itoa10.simps [simp del]

definition GT_WriteLog :: "string \<Rightarrow> GT_LOG_LEVEL \<Rightarrow> string \<Rightarrow> nat \<Rightarrow> log_state \<Rightarrow> log_state" where
  "GT_WriteLog logevent level filename line s =
     (if \<not> is_log_initted s \<or> level < log_level s \<or> log_level s = GT_LOG_LEVEL_OFF then s
      else
        (let ev = logevent @ '' ['' @ filename @ '':'' @ itoa10 line @ '']'';
             emit = (\<lambda>sev. s\<lparr>glog := (glog s)\<lparr>lines := lines (glog s) @ [(sev, ev)]\<rparr>\<rparr>)
         in (case level of
               GT_LOG_LEVEL_INFO \<Rightarrow> emit GLOG_INFO
             | GT_LOG_LEVEL_WARNING \<Rightarrow> emit GLOG_WARNING
             | GT_LOG_LEVEL_ERROR \<Rightarrow> emit GLOG_ERROR
             | _ \<Rightarrow> s)))"

text \<open>\<open>GT_LOG_DEBUG\<close> writes at level warning, as its macro says.\<close>

definition GT_LOG_INFO :: "string \<Rightarrow> string \<Rightarrow> nat \<Rightarrow> log_state \<Rightarrow> log_state" where
  "GT_LOG_INFO ev = GT_WriteLog ev GT_LOG_LEVEL_ALL"

definition GT_LOG_WARN :: "string \<Rightarrow> string \<Rightarrow> nat \<Rightarrow> log_state \<Rightarrow> log_state" where
  "GT_LOG_WARN ev = GT_WriteLog ev GT_LOG_LEVEL_WARNING"

definition GT_LOG_ERROR :: "string \<Rightarrow> string \<Rightarrow> nat \<Rightarrow> log_state \<Rightarrow> log_state" where
  "GT_LOG_ERROR ev = GT_WriteLog ev GT_LOG_LEVEL_ERROR"

definition GT_LOG_DEBUG :: "string \<Rightarrow> string \<Rightarrow> nat \<Rightarrow> log_state \<Rightarrow> log_state" where
  "GT_LOG_DEBUG ev = GT_WriteLog ev GT_LOG_LEVEL_WARNING"

text \<open>\<open>GT_TRACE_FUNCTION\<close> logs when its scope is entered and when it is left.\<close>

definition GT_TRACE_FUNCTION ::
    "string \<Rightarrow> string \<Rightarrow> nat \<Rightarrow> nat \<Rightarrow> (log_state \<Rightarrow> log_state) \<Rightarrow> log_state \<Rightarrow> log_state" where
  "GT_TRACE_FUNCTION func filename l1 l2 body s =
     GT_LOG_INFO (''Leaving:<<< '' @ func) filename l2
       (body (GT_LOG_INFO (''Entering:>>> '' @ func) filename l1 s))"

section \<open>The states a run of the log reaches\<close>

datatype log_op =
    LDefaultInit string
  | LInit string string GT_LOG_LEVEL cint
  | LUninit
  | LSetLevel GT_LOG_LEVEL
  | LWrite string GT_LOG_LEVEL string nat

fun log_step :: "log_op \<Rightarrow> log_state \<Rightarrow> log_state" where
  "log_step (LDefaultInit folder) s = snd (GT_DefaultLogInitialize folder s)"
| "log_step (LInit folder n level sz) s = snd (GT_LogInitialize folder n level sz s)"
| "log_step LUninit s = snd (GT_LogUnintialize s)"
| "log_step (LSetLevel level) s = snd (GT_SetLoglevel level s)"
| "log_step (LWrite ev level f l) s = GT_WriteLog ev level f l s"

text \<open>
  The invariant: an initialised log has a valid level, and glog's destinations are the log file
  for that level's severity and the empty file for the other three.
\<close>

definition log_inv :: "log_state \<Rightarrow> bool" where
  "log_inv s =
     (is_log_initted s \<longrightarrow>
        \<not> IS_INVALID_LOGLEVEL (log_level s) \<and>
        (\<forall>sev \<le> 3. destination (glog s) sev =
           Some (if sev = log_level_code (log_level s) then log_path s else '''')))"

lemma invalid_level_iff: "IS_INVALID_LOGLEVEL l \<longleftrightarrow> l = GT_LOG_LEVEL_OFF"
  by (cases l) (auto simp: IS_INVALID_LOGLEVEL_def level_order)

lemma severity_of_level:
  "l \<noteq> GT_LOG_LEVEL_OFF \<Longrightarrow> severity_code (GT_Loglevel2GoogleLoglevel l) = log_level_code l"
  by (cases l) (auto simp: GT_Loglevel2GoogleLoglevel_def)

lemma SetLogDestination_frame [frame_simps]:
  "log_level (SetLogDestination v p s) = log_level s"
  "log_path (SetLogDestination v p s) = log_path s"
  "per_log_size (SetLogDestination v p s) = per_log_size s"
  "is_log_initted (SetLogDestination v p s) = is_log_initted s"
  by (simp_all add: SetLogDestination_def)

lemma GT_SetLoglevelDestination_frame [frame_simps]:
  "log_level (GT_SetLoglevelDestination s) = log_level s"
  "log_path (GT_SetLoglevelDestination s) = log_path s"
  "is_log_initted (GT_SetLoglevelDestination s) = is_log_initted s"
  by (simp_all add: GT_SetLoglevelDestination_def Let_def upt_rec numeral_eq_Suc frame_simps)

lemma GT_SetLoglevelDestination_dest:
  assumes "log_level s \<noteq> GT_LOG_LEVEL_OFF" and "sev \<le> 3"
  shows "destination (glog (GT_SetLoglevelDestination s)) sev =
     Some (if sev = log_level_code (log_level s) then log_path s else '''')"
proof -
  have "sev \<in> {0, 1, 2, 3}" using assms(2) by auto
  then show ?thesis
    using assms(1) severity_of_level [OF assms(1)]
    by (cases "log_level s")
      (auto simp: GT_SetLoglevelDestination_def Let_def upt_rec numeral_eq_Suc SetLogDestination_def)
qed

lemma log_setup_inv:
  assumes "level \<noteq> GT_LOG_LEVEL_OFF"
  shows "log_inv ((GT_SetGlogFlags (GT_SetLoglevelDestination (InitGoogleLogging
     (s\<lparr>per_log_size := z, log_level := level, log_path := p\<rparr>))))\<lparr>is_log_initted := True\<rparr>)"
proof -
  let ?t = "InitGoogleLogging (s\<lparr>per_log_size := z, log_level := level, log_path := p\<rparr>)"
  have "log_level ?t = level" "log_path ?t = p"
    by (simp_all add: InitGoogleLogging_def)
  then show ?thesis
    using assms GT_SetLoglevelDestination_dest [of ?t]
    by (auto simp: log_inv_def invalid_level_iff GT_SetGlogFlags_def frame_simps)
qed

lemma GT_WriteLog_frame:
  "log_inv (GT_WriteLog ev level f l s) = log_inv s"
  "is_log_initted (GT_WriteLog ev level f l s) = is_log_initted s"
  "log_level (GT_WriteLog ev level f l s) = log_level s"
  by (auto simp: GT_WriteLog_def log_inv_def Let_def split: GT_LOG_LEVEL.splits)

lemma log_step_inv:
  assumes "log_inv s"
  shows "log_inv (log_step x s)"
proof (cases x)
  case (LDefaultInit folder)
  then show ?thesis
    using assms log_setup_inv [where level = GT_LOG_LEVEL_ALL and s = s and z = 50
        and p = "folder @ ''gtserver.log''"]
    by (auto simp: GT_DefaultLogInitialize_def Let_def)
next
  case (LInit folder n level z)
  then show ?thesis
    using assms log_setup_inv [where level = level and s = s and z = z and p = "folder @ n"]
    by (auto simp: GT_LogInitialize_def Let_def invalid_level_iff)
next
  case LUninit
  then show ?thesis by (simp add: GT_LogUnintialize_def log_inv_def Let_def)
next
  case (LSetLevel level)
  then show ?thesis
    using assms GT_SetLoglevelDestination_dest [of "s\<lparr>log_level := level\<rparr>"]
    by (auto simp: GT_SetLoglevel_def invalid_level_iff log_inv_def frame_simps)
next
  case (LWrite ev level f l)
  then show ?thesis using assms by (simp add: GT_WriteLog_frame)
qed

lemma log_run_inv: "log_inv s \<Longrightarrow> log_inv (fold log_step ops s)"
  by (induction ops arbitrary: s) (auto intro: log_step_inv)

lemma log_inv_init: "log_inv log_init"
  by (simp add: log_inv_def log_init_def)

section \<open>Properties\<close>

text \<open>After any sequence of calls on the log, an initialised log has a level other than \<open>OFF\<close>, and glog
  writes the severity of that level to the log file and every other severity to an empty path.\<close>

theorem log_destinations:
  "(let s = fold log_step ops log_init
    in is_log_initted s \<longrightarrow>
         log_level s \<noteq> GT_LOG_LEVEL_OFF \<and>
         (\<forall>sev \<le> 3. destination (glog s) sev =
            Some (if sev = log_level_code (log_level s) then log_path s else '''')))"
  using log_run_inv [OF log_inv_init, of ops] by (simp add: log_inv_def invalid_level_iff Let_def)

theorem log_destinations_witness:
  "destination (glog (fold log_step [LDefaultInit ''d/''] log_init)) 0 = Some ''d/gtserver.log''"
proof -
  let ?s = "fold log_step [LDefaultInit ''d/''] log_init"
  have "is_log_initted ?s" "log_level ?s = GT_LOG_LEVEL_INFO" "log_path ?s = ''d/gtserver.log''"
    by (simp_all add: GT_DefaultLogInitialize_def log_init_def Let_def GT_SetGlogFlags_def frame_simps
        InitGoogleLogging_def)
  then show ?thesis using log_destinations [of "[LDefaultInit ''d/'']"] by (simp add: Let_def)
qed

text \<open>An event is written exactly when the log is initialised and the event's level is at least the
  configured one, and then as one line with its position; nothing else of the state changes.\<close>

theorem write_log_exact:
  assumes "log_inv s" and "level \<noteq> GT_LOG_LEVEL_OFF"
  shows "GT_WriteLog ev level f l s =
     (if is_log_initted s \<and> log_level s \<le> level
      then s\<lparr>glog := (glog s)\<lparr>lines := lines (glog s) @
              [(GT_Loglevel2GoogleLoglevel level, ev @ '' ['' @ f @ '':'' @ itoa10 l @ '']'')]\<rparr>\<rparr>
      else s)"
proof -
  have "is_log_initted s \<Longrightarrow> log_level s \<noteq> GT_LOG_LEVEL_OFF"
    using assms(1) by (simp add: log_inv_def invalid_level_iff)
  then show ?thesis
    using assms(2) by (cases level) (auto simp: GT_WriteLog_def GT_Loglevel2GoogleLoglevel_def not_less)
qed

theorem write_log_exact_witness:
  "lines (glog (GT_WriteLog ''e'' GT_LOG_LEVEL_ERROR ''f'' 7 log_init)) = []"
  using write_log_exact [OF log_inv_init, of GT_LOG_LEVEL_ERROR "''e''" "''f''" 7]
  by (simp add: log_init_def)

end
