(* ===== verification/GT_CmdParser.thy ===== *)
theory GT_CmdParser
  imports GT_Prelude
begin

text \<open>
  \<open>GT_Util_CmdParser\<close>: the command line without its first word, every word stripped of up to
  two leading dashes; a command's value is the word after it. And the path computation of
  \<open>GT_Util_OSInfo::GetCurrentFolder\<close>.
\<close>

type_synonym cmd_parser = "string list"   \<comment> \<open>\<open>cmd_vector_\<close>\<close>

text \<open>\<open>std::string::operator[]\<close> reads a null character at the position \<open>size()\<close>.\<close>

definition char_at :: "string \<Rightarrow> nat \<Rightarrow> char" where
  "char_at s i = (if i < length s then s ! i else CHR 0x00)"

definition CmdPreProcess :: "string \<Rightarrow> string" where
  "CmdPreProcess cmd =
     (if char_at cmd 0 = CHR ''-'' \<and> char_at cmd 1 = CHR ''-'' then drop 2 cmd
      else if char_at cmd 0 = CHR ''-'' then drop 1 cmd
      else cmd)"

definition ParserCmd :: "int \<Rightarrow> string list \<Rightarrow> cmd_parser \<Rightarrow> cmd_parser" where
  "ParserCmd argc argv cmds =
     (if argc \<le> 0 then cmds
      else cmds @ map (\<lambda>i. CmdPreProcess (argv ! i)) [1..<nat argc])"

definition IsCmdExists :: "cmd_parser \<Rightarrow> string \<Rightarrow> bool" where
  "IsCmdExists cmds cmd = foldl (\<lambda>is_exist it. if it = cmd then True else is_exist) False cmds"

text \<open>
  The loop compares the iterator before its increment with \<open>end()\<close>, which holds inside the
  loop: at a match it always moves on and reads what is there.
\<close>

fun GetCmdValue_loop :: "string \<Rightarrow> string list \<Rightarrow> string result" where
  "GetCmdValue_loop cmd [] = Inr ''''"
| "GetCmdValue_loop cmd (x # rest) =
     (if x = cmd then (case rest of [] \<Rightarrow> Inl EndDeref | v # _ \<Rightarrow> Inr v)
      else GetCmdValue_loop cmd rest)"

definition GetCmdValue :: "cmd_parser \<Rightarrow> string \<Rightarrow> string result" where
  "GetCmdValue cmds cmd =
     (if IsCmdExists cmds cmd then GetCmdValue_loop cmd cmds else Inr '''')"

lemma IsCmdExists_iff: "IsCmdExists cmds cmd \<longleftrightarrow> cmd \<in> set cmds"
proof -
  have "foldl (\<lambda>is_exist it. if it = cmd then True else is_exist) b cmds \<longleftrightarrow> b \<or> cmd \<in> set cmds" for b
    by (induction cmds arbitrary: b) auto
  then show ?thesis by (simp add: IsCmdExists_def)
qed

lemma GetCmdValue_loop_first:
  "cmd \<notin> set pre \<Longrightarrow>
   GetCmdValue_loop cmd (pre @ cmd # post) = (case post of [] \<Rightarrow> Inl EndDeref | v # _ \<Rightarrow> Inr v)"
  by (induction pre) auto

lemma CmdPreProcess_long: "CmdPreProcess (''--'' @ w) = w"
  by (simp add: CmdPreProcess_def char_at_def)

lemma CmdPreProcess_short: "w = [] \<or> hd w \<noteq> CHR ''-'' \<Longrightarrow> CmdPreProcess (CHR ''-'' # w) = w"
  by (cases w) (simp_all add: CmdPreProcess_def char_at_def)

lemma CmdPreProcess_plain: "w = [] \<or> hd w \<noteq> CHR ''-'' \<Longrightarrow> CmdPreProcess w = w"
  by (cases w) (simp_all add: CmdPreProcess_def char_at_def)

lemma ParserCmd_words: "ParserCmd (int (length argv)) argv [] = map CmdPreProcess (tl argv)"
proof (cases argv)
  case (Cons p ws)
  have "map (\<lambda>i. CmdPreProcess (argv ! i)) [1..<Suc (length ws)] = map CmdPreProcess ws"
    by (rule nth_equalityI) (auto simp: Cons simp del: upt_Suc)
  moreover have "nat (1 + int (length ws)) = Suc (length ws)" by simp
  ultimately show ?thesis by (simp add: ParserCmd_def Cons del: upt_Suc)
qed (simp add: ParserCmd_def)

section \<open>The folder of the running module\<close>

text \<open>
  \<open>path_.substr(0, path_.rfind("\\")) + "\\"\<close> of what \<open>GetModuleFileNameA\<close> reports. Without
  a backslash \<open>rfind\<close> is \<open>npos\<close> and the substring is the whole path.
\<close>

definition rfind :: "char \<Rightarrow> string \<Rightarrow> nat option" where
  "rfind c s =
     (if c \<in> set s then Some (length s - Suc (length (takeWhile (\<lambda>x. x \<noteq> c) (rev s)))) else None)"

definition GetCurrentFolder :: "string \<Rightarrow> string" where
  "GetCurrentFolder path =
     (case rfind (CHR 0x5C) path of None \<Rightarrow> path | Some i \<Rightarrow> take i path) @ [CHR 0x5C]"

lemma rfind_last: "c \<notin> set post \<Longrightarrow> rfind c (pre @ c # post) = Some (length pre)"
  by (auto simp: rfind_def takeWhile_append)

lemma GetCurrentFolder_module:
  "CHR 0x5C \<notin> set name \<Longrightarrow> GetCurrentFolder (dir @ CHR 0x5C # name) = dir @ [CHR 0x5C]"
  by (simp add: GetCurrentFolder_def rfind_last)

section \<open>Properties\<close>

text \<open>The value of a command is the word after its first occurrence, and the empty string when the
  command was not given; where the command is the last word, the lookup goes past the end.\<close>

theorem command_value:
  "GetCmdValue cmds cmd =
     (if cmd \<notin> set cmds then Inr ''''
      else case dropWhile (\<lambda>w. w \<noteq> cmd) cmds of _ # v # _ \<Rightarrow> Inr v | _ \<Rightarrow> Inl EndDeref)"
proof (cases "cmd \<in> set cmds")
  case True
  then obtain pre post where c: "cmds = pre @ cmd # post" "cmd \<notin> set pre"
    by (meson split_list_first)
  have d: "dropWhile (\<lambda>w. w \<noteq> cmd) cmds = cmd # post" using c by (auto simp: dropWhile_append)
  have "GetCmdValue cmds cmd = (case post of [] \<Rightarrow> Inl EndDeref | v # _ \<Rightarrow> Inr v)"
    using GetCmdValue_loop_first [OF c(2), of post] c(1) by (simp add: GetCmdValue_def IsCmdExists_iff)
  then show ?thesis using True d by (cases post) auto
qed (simp add: GetCmdValue_def IsCmdExists_iff)

text \<open>C40: Parsing and looking up are inverse: of a command line that gives a command with two dashes and
  its value as a plain word, before which the command does not occur, the lookup returns the
  value.\<close>

theorem parse_lookup_roundtrip:
  assumes "cmd \<notin> set (map CmdPreProcess pre)" and "v = [] \<or> hd v \<noteq> CHR ''-''"
    and "argv = p # pre @ [''--'' @ cmd, v] @ post"
  shows "GetCmdValue (ParserCmd (int (length argv)) argv []) cmd = Inr v"
proof -
  have "ParserCmd (int (length argv)) argv [] =
      map CmdPreProcess pre @ cmd # v # map CmdPreProcess post"
    using CmdPreProcess_long [of cmd] CmdPreProcess_plain [OF assms(2)] assms(3)
    by (simp only: ParserCmd_words) simp
  then show ?thesis
    using GetCmdValue_loop_first [OF assms(1), of "v # map CmdPreProcess post"]
    by (simp add: GetCmdValue_def IsCmdExists_iff)
qed

theorem parse_lookup_roundtrip_witness:
  "GetCmdValue (ParserCmd 3 [''server'', ''--cfgfile'', ''a.cfg''] []) ''cfgfile'' = Inr ''a.cfg''"
  using parse_lookup_roundtrip [of "''cfgfile''" "[]" "''a.cfg''"
      "[''server'', ''--cfgfile'', ''a.cfg'']" "''server''" "[]"] by simp

end
