(* ===== verification/GT_ThreadPool.thy ===== *)
theory GT_ThreadPool
  imports GT_Prelude
begin

text \<open>
  The two thread pools: \<open>GT_Util_ThreadPool\<close> (the IOCP workers) and
  \<open>GTEpoll_thread_pool\<close>. A pool owns one entry per thread, with the flag its worker tests
  between two calls of the thread function. The scheduler is not modelled: a worker is given by
  the list of values its loop test reads from the flag.
\<close>

section \<open>The worker loop\<close>

text \<open>
  \<open>LongTimeWorker_\<close> and \<open>start_internal_\<close>: \<open>while (!end_thread) f();\<close>. \<open>flags\<close> are the
  values the test reads, one per turn; the result is the state after the calls of \<open>f\<close> and
  whether the loop was left (with the list used up it has not been).
\<close>

fun LongTimeWorker :: "('s \<Rightarrow> 's) \<Rightarrow> bool list \<Rightarrow> 's \<Rightarrow> bool \<times> 's" where
  "LongTimeWorker f [] s = (False, s)"
| "LongTimeWorker f (end_thread # flags) s =
     (if end_thread then (True, s) else LongTimeWorker f flags (f s))"

fun start_internal :: "('s \<Rightarrow> 's) \<Rightarrow> bool list \<Rightarrow> 's \<Rightarrow> bool \<times> 's" where
  "start_internal thread_func [] s = (False, s)"
| "start_internal thread_func (stop_thread # flags) s =
     (if \<not> stop_thread then start_internal thread_func flags (thread_func s) else (True, s))"

lemma LongTimeWorker_stops:
  "LongTimeWorker f (replicate n False @ True # flags) s = (True, (f ^^ n) s)"
  by (induction n arbitrary: s) (auto simp: funpow_swap1)

lemma start_internal_same: "start_internal f flags s = LongTimeWorker f flags s"
  by (induction f flags s rule: LongTimeWorker.induct) auto

section \<open>\<open>GT_Util_ThreadPool\<close>\<close>

text \<open>
  \<open>workpool_\<close> holds pointers to \<open>Thread_Tuple\<close>s; \<open>tuples\<close> is their heap, where a deleted
  one is \<open>None\<close>. A joined thread is no longer joinable.
\<close>

record Thread_Tuple =
  end_thread :: bool
  joinable :: bool

record thread_pool =
  poolsize :: nat
  workpool_started :: bool
  workpool :: "addr list"
  tuples :: "addr \<Rightarrow> Thread_Tuple option"
  next_tuple :: addr

definition pool_init :: thread_pool where
  "pool_init = \<lparr>poolsize = 0, workpool_started = False, workpool = [], tuples = (\<lambda>_. None),
     next_tuple = 1\<rparr>"

definition start_thread :: "thread_pool \<Rightarrow> thread_pool" where
  "start_thread p =
     p\<lparr>tuples := (tuples p)(next_tuple p \<mapsto> \<lparr>end_thread = False, joinable = True\<rparr>),
       workpool := workpool p @ [next_tuple p],
       next_tuple := Suc (next_tuple p)\<rparr>"

definition Start :: "nat \<Rightarrow> thread_pool \<Rightarrow> thread_pool" where
  "Start n p =
     (if n \<le> 0 then p
      else ((start_thread ^^ n) (p\<lparr>poolsize := n\<rparr>))\<lparr>workpool_started := True\<rparr>)"

text \<open>
  \<open>Stop\<close> sets each worker's flag, joins it and deletes its entry; the vector keeps the pointers.
  \<open>ends\<close> says which threads end once their flag is set: joining one that does not never returns.
  The result besides the pool lists the workers that were joined, in order.
\<close>

fun stop_loop :: "(addr \<Rightarrow> bool) \<Rightarrow> addr list \<Rightarrow> thread_pool \<Rightarrow> (addr list \<times> thread_pool) result" where
  "stop_loop ends [] p = Inr ([], p)"
| "stop_loop ends (a # as) p =
     (case tuples p a of
        None \<Rightarrow> Inl UseAfterFree
      | Some t \<Rightarrow>
          (let joined = (if joinable t then [a] else [])
           in if joinable t \<and> \<not> ends a then Inl NeverReturns
              else bindR (stop_loop ends as (p\<lparr>tuples := (tuples p)(a := None)\<rparr>))
                (\<lambda>(js, p'). Inr (joined @ js, p'))))"

definition Stop :: "(addr \<Rightarrow> bool) \<Rightarrow> thread_pool \<Rightarrow> (addr list \<times> thread_pool) result" where
  "Stop ends p = stop_loop ends (workpool p) p"

definition GetPoolSize :: "thread_pool \<Rightarrow> nat" where
  "GetPoolSize p = (if workpool_started p then poolsize p else 0)"

text \<open>The invariant of a pool that has not been stopped.\<close>

definition pool_inv :: "thread_pool \<Rightarrow> bool" where
  "pool_inv p =
     (distinct (workpool p) \<and> (\<forall>a \<in> set (workpool p). a < next_tuple p) \<and>
      (\<forall>a \<in> set (workpool p). \<exists>t. tuples p a = Some t \<and> joinable t \<and> \<not> end_thread t))"

lemma pool_inv_init: "pool_inv pool_init"
  by (simp add: pool_inv_def pool_init_def)

lemma start_thread_inv: "pool_inv p \<Longrightarrow> pool_inv (start_thread p)"
  by (fastforce simp: pool_inv_def start_thread_def)

lemma start_threads_inv: "pool_inv p \<Longrightarrow> pool_inv ((start_thread ^^ n) p)"
  by (induction n) (auto intro: start_thread_inv)

lemma start_threads_length: "length (workpool ((start_thread ^^ n) p)) = length (workpool p) + n"
  by (induction n) (auto simp: start_thread_def)

lemma start_threads_size: "poolsize ((start_thread ^^ n) p) = poolsize p"
  by (induction n) (auto simp: start_thread_def)

lemma Start_inv:
  assumes "pool_inv p"
  shows "pool_inv (Start n p)"
proof -
  have "pool_inv (p\<lparr>poolsize := n\<rparr>)" using assms by (simp add: pool_inv_def)
  then have "pool_inv ((start_thread ^^ n) (p\<lparr>poolsize := n\<rparr>))" by (rule start_threads_inv)
  then show ?thesis using assms by (simp add: Start_def pool_inv_def)
qed

lemma Start_length: "length (workpool (Start n p)) = length (workpool p) + n"
  by (simp add: Start_def start_threads_length)

lemma GetPoolSize_Start: "0 < n \<Longrightarrow> GetPoolSize (Start n p) = n"
  by (simp add: GetPoolSize_def Start_def start_threads_size)

text \<open>A pool in order is stopped when all its threads end; otherwise \<open>Stop\<close> does not return.\<close>

lemma stop_loop_result:
  "distinct as \<Longrightarrow> (\<forall>a \<in> set as. \<exists>t. tuples p a = Some t \<and> joinable t) \<Longrightarrow>
   stop_loop ends as p =
     (if \<forall>a \<in> set as. ends a then Inr (as, p\<lparr>tuples := (\<lambda>a. if a \<in> set as then None else tuples p a)\<rparr>)
      else Inl NeverReturns)"
proof (induction as arbitrary: p)
  case (Cons a as)
  let ?p = "p\<lparr>tuples := (tuples p)(a := None)\<rparr>"
  have "\<forall>b \<in> set as. \<exists>t. tuples ?p b = Some t \<and> joinable t"
    using Cons.prems by auto
  then have "stop_loop ends as ?p =
      (if \<forall>b \<in> set as. ends b then Inr (as, ?p\<lparr>tuples := (\<lambda>b. if b \<in> set as then None else tuples ?p b)\<rparr>)
       else Inl NeverReturns)"
    using Cons.IH [of ?p] Cons.prems(1) by simp
  moreover obtain t where "tuples p a = Some t" "joinable t" using Cons.prems(2) by auto
  ultimately show ?case using Cons.prems(1) by (auto simp: Let_def fun_eq_iff)
qed simp

lemma Stop_result:
  "pool_inv p \<Longrightarrow>
   Stop ends p =
     (if \<forall>a \<in> set (workpool p). ends a
      then Inr (workpool p, p\<lparr>tuples := (\<lambda>a. if a \<in> set (workpool p) then None else tuples p a)\<rparr>)
      else Inl NeverReturns)"
  unfolding Stop_def by (rule stop_loop_result) (auto simp: pool_inv_def)

lemma Stop_twice:
  assumes "pool_inv p" and "workpool p \<noteq> []" and "Stop ends p = Inr (js, p')"
  shows "Stop ends' p' = Inl UseAfterFree"
proof -
  have "workpool p' = workpool p" "tuples p' (hd (workpool p)) = None"
    using assms by (auto simp: Stop_result split: if_splits)
  then show ?thesis using assms(2) by (cases "workpool p") (auto simp: Stop_def)
qed

section \<open>\<open>GTEpoll_thread_pool\<close>\<close>

text \<open>
  The entries are shared pointers kept in \<open>thread_vec_\<close>; \<open>stop\<close> first sets every flag and
  then joins every thread. Joining a thread twice throws, which the model shows as \<open>None\<close>.
\<close>

record epoll_pool =
  default_thread_num :: int
  thread_vec :: "Thread_Tuple list"

definition GTEpoll_thread_pool :: "int \<Rightarrow> epoll_pool" where
  "GTEpoll_thread_pool thread_num = \<lparr>default_thread_num = thread_num, thread_vec = []\<rparr>"

definition epoll_pool_start :: "epoll_pool \<Rightarrow> epoll_pool" where
  "epoll_pool_start p =
     p\<lparr>thread_vec := thread_vec p @
         replicate (nat (default_thread_num p)) \<lparr>end_thread = False, joinable = True\<rparr>\<rparr>"

fun join_all :: "Thread_Tuple list \<Rightarrow> Thread_Tuple list option" where
  "join_all [] = Some []"
| "join_all (t # ts) =
     (if joinable t then map_option ((#) (t\<lparr>joinable := False\<rparr>)) (join_all ts) else None)"

definition epoll_pool_stop :: "epoll_pool \<Rightarrow> epoll_pool option" where
  "epoll_pool_stop p =
     (case join_all (map (\<lambda>t. t\<lparr>end_thread := True\<rparr>) (thread_vec p)) of
        None \<Rightarrow> None
      | Some ts \<Rightarrow> Some (p\<lparr>thread_vec := ts\<rparr>))"

lemma join_all_ok:
  "list_all joinable ts \<Longrightarrow> join_all ts = Some (map (\<lambda>t. t\<lparr>joinable := False\<rparr>) ts)"
  by (induction ts) auto

lemma epoll_pool_stop_ok:
  assumes "list_all joinable (thread_vec p)"
  shows "epoll_pool_stop p =
     Some (p\<lparr>thread_vec := map (\<lambda>t. t\<lparr>end_thread := True, joinable := False\<rparr>) (thread_vec p)\<rparr>)"
proof -
  have "list_all joinable (map (\<lambda>t. t\<lparr>end_thread := True\<rparr>) (thread_vec p))"
    using assms by (auto simp: list_all_iff)
  then show ?thesis by (simp add: epoll_pool_stop_def join_all_ok)
qed

section \<open>Properties\<close>

text \<open>Starting \<open>n\<close> threads on a pool in order makes \<open>n\<close> more workers; stopping then returns exactly when
  all of them end, having joined every worker of the pool once, in the order they were started, and deleted all
  their entries.\<close>

theorem start_stop:
  assumes "pool_inv p"
  shows "Stop ends (Start n p) =
      (if \<forall>a \<in> set (workpool (Start n p)). ends a
       then Inr (workpool (Start n p), (Start n p)
          \<lparr>tuples := (\<lambda>a. if a \<in> set (workpool (Start n p)) then None else tuples (Start n p) a)\<rparr>)
       else Inl NeverReturns) \<and>
     length (workpool (Start n p)) = length (workpool p) + n \<and> distinct (workpool (Start n p))"
  using Stop_result [OF Start_inv [OF assms]] Start_inv [OF assms, of n]
  by (simp add: Start_length pool_inv_def)

theorem start_stop_witness: "\<exists>p'. Stop (\<lambda>_. True) (Start 2 pool_init) = Inr ([1, 2], p')"
proof -
  have "workpool (Start 2 pool_init) = [1, 2]"
    by (simp add: Start_def start_thread_def pool_init_def numeral_2_eq_2)
  then show ?thesis using start_stop [OF pool_inv_init, of "\<lambda>_. True" 2] by auto
qed

text \<open>A worker calls the thread function once for every time it reads its flag unset and leaves when
  it first reads it set; both pools run the same loop.\<close>

theorem worker_loop:
  "LongTimeWorker f (replicate n False @ True # flags) s = (True, (f ^^ n) s) \<and>
   start_internal f flags s = LongTimeWorker f flags s"
  by (simp add: LongTimeWorker_stops start_internal_same)

end
