(* ===== verification/IOCP_Buffers.thy ===== *)
theory IOCP_Buffers
  imports GT_Interfaces GT_Definition GT_Config
begin

text \<open>
  \<open>GT_IOContextBuffer\<close> and \<open>GT_IOContextBuffer_Manager\<close>: the I/O buffers handed to the kernel
  with every overlapped call, and the manager that caches them. The manager is one state record
  that also holds the heap of buffer objects (\<open>bufs\<close>) and of their character blocks
  (\<open>blocks\<close>); an operation takes the answers of the outside world from an environment: which
  element \<open>begin()\<close> of the hash set denotes and what \<open>GetRandomInt\<close> returns, indexed by the
  number of questions asked so far.
\<close>

section \<open>The buffer object\<close>

record WSABUF =
  ws_len :: dword
  ws_buf :: "addr option"

record io_context_buffer =
  io_socket_ptr :: "addr option"     \<comment> \<open>the \<open>shared_ptr<SOCKET>\<close>, by the address of its object\<close>
  io_wsa_buf :: WSABUF
  io_buffer :: "addr option"         \<comment> \<open>the block, \<open>None\<close> while the member is not initialised\<close>
  io_buffer_size :: size_t
  io_event_type :: IO_EVENT_TYPE

record buf_env =
  buf_begin :: "nat \<Rightarrow> nat"
  buf_random :: "nat \<Rightarrow> nat"        \<comment> \<open>\<open>GetRandomInt\<close>: uniform on 1 to 10\<close>

record buf_mgr =
  io_buffer_manager_inited :: bool
  buffer_size :: size_t
  pre_allocate_size :: size_t
  re_allocate_size :: size_t
  size_need_reallocate :: size_t
  io_buffer_cache :: "addr list"
  io_buffer_in_use :: "(addr, addr) umap"
  bufs :: "addr \<Rightarrow> io_context_buffer option"
  next_buf :: addr
  blocks :: "addr \<Rightarrow> byte list option"
  next_block :: addr
  buf_calls :: nat

definition DEFAULT_BUFFER_LEN :: size_t where
  "DEFAULT_BUFFER_LEN = 4 * 1024"

definition buf_mgr_init :: buf_mgr where
  "buf_mgr_init = \<lparr>io_buffer_manager_inited = False, buffer_size = 4 * 1024,
     pre_allocate_size = 2000, re_allocate_size = 1000, size_need_reallocate = 50,
     io_buffer_cache = [], io_buffer_in_use = [], bufs = (\<lambda>_. None), next_buf = 1,
     blocks = (\<lambda>_. None), next_block = 1, buf_calls = 0\<rparr>"

text \<open>The constructor. \<open>io_wsa_buf_.buf\<close> copies the block pointer before it is initialised.\<close>

definition GT_IOContextBuffer :: "size_t \<Rightarrow> io_context_buffer" where
  "GT_IOContextBuffer len =
     \<lparr>io_socket_ptr = None, io_wsa_buf = \<lparr>ws_len = ucast len, ws_buf = None\<rparr>,
      io_buffer = None, io_buffer_size = len, io_event_type = IO_EVENT_NULL\<rparr>"

definition new_buffer :: "size_t \<Rightarrow> buf_mgr \<Rightarrow> addr \<times> buf_mgr" where
  "new_buffer len m =
     (next_buf m, m\<lparr>bufs := (bufs m)(next_buf m \<mapsto> GT_IOContextBuffer len),
                    next_buf := Suc (next_buf m)\<rparr>)"

definition upd_buf :: "addr \<Rightarrow> (io_context_buffer \<Rightarrow> io_context_buffer) \<Rightarrow> buf_mgr \<Rightarrow> buf_mgr" where
  "upd_buf b f m = m\<lparr>bufs := (bufs m)(b := map_option f (bufs m b))\<rparr>"

text \<open>
  \<open>AllocateIOBuffer\<close> and \<open>AllocateIOBufferBySize\<close>: \<open>new char[n]\<close> followed by \<open>memset\<close>.
  Neither frees the block the buffer had.
\<close>

definition AllocateIOBuffer :: "addr \<Rightarrow> buf_mgr \<Rightarrow> bool \<times> buf_mgr" where
  "AllocateIOBuffer b m =
     (case bufs m b of
        None \<Rightarrow> (False, m)
      | Some o1 \<Rightarrow>
          (let blk = next_block m;
               m1 = m\<lparr>blocks := (blocks m)(blk \<mapsto> replicate (unat (io_buffer_size o1)) 0),
                       next_block := Suc blk\<rparr>
           in (True, upd_buf b (\<lambda>x. x\<lparr>io_buffer := Some blk,
                  io_wsa_buf := \<lparr>ws_len = ucast (io_buffer_size x), ws_buf = Some blk\<rparr>\<rparr>) m1)))"

definition AllocateIOBufferBySize :: "addr \<Rightarrow> size_t \<Rightarrow> buf_mgr \<Rightarrow> bool \<times> buf_mgr" where
  "AllocateIOBufferBySize b len m =
     (case bufs m b of
        None \<Rightarrow> (False, m)
      | Some o1 \<Rightarrow>
          (let blk = next_block m;
               m1 = m\<lparr>blocks := (blocks m)(blk \<mapsto> replicate (unat len) 0),
                       next_block := Suc blk\<rparr>
           in (True, upd_buf b (\<lambda>x. x\<lparr>io_buffer_size := len, io_buffer := Some blk,
                  io_wsa_buf := \<lparr>ws_len = ucast len, ws_buf = Some blk\<rparr>\<rparr>) m1)))"

definition SetIOBufferSocket :: "addr \<Rightarrow> addr option \<Rightarrow> buf_mgr \<Rightarrow> buf_mgr" where
  "SetIOBufferSocket b s_ptr = upd_buf b (\<lambda>x. x\<lparr>io_socket_ptr := s_ptr\<rparr>)"

definition SetIOBufferEventType :: "addr \<Rightarrow> IO_EVENT_TYPE \<Rightarrow> buf_mgr \<Rightarrow> buf_mgr" where
  "SetIOBufferEventType b type = upd_buf b (\<lambda>x. x\<lparr>io_event_type := type\<rparr>)"

definition ResetBuffer :: "addr \<Rightarrow> buf_mgr \<Rightarrow> buf_mgr" where
  "ResetBuffer b m =
     (case bufs m b of
        None \<Rightarrow> m
      | Some o1 \<Rightarrow>
          (case io_buffer o1 of
             None \<Rightarrow> m
           | Some blk \<Rightarrow>
               m\<lparr>blocks := (blocks m)(blk \<mapsto> replicate (unat (io_buffer_size o1)) 0)\<rparr>))"

definition GetBufferAddr :: "addr \<Rightarrow> buf_mgr \<Rightarrow> addr option" where
  "GetBufferAddr b m = Option.bind (bufs m b) io_buffer"

definition GetBufferSize :: "addr \<Rightarrow> buf_mgr \<Rightarrow> size_t" where
  "GetBufferSize b m = (case bufs m b of None \<Rightarrow> 0 | Some o1 \<Rightarrow> io_buffer_size o1)"

definition GetClientSocketPtr :: "addr \<Rightarrow> buf_mgr \<Rightarrow> addr option" where
  "GetClientSocketPtr b m = Option.bind (bufs m b) io_socket_ptr"

definition GetWsaBuf :: "addr \<Rightarrow> buf_mgr \<Rightarrow> WSABUF option" where
  "GetWsaBuf b m = map_option io_wsa_buf (bufs m b)"

definition GetIOEventType :: "addr \<Rightarrow> buf_mgr \<Rightarrow> IO_EVENT_TYPE" where
  "GetIOEventType b m = (case bufs m b of None \<Rightarrow> IO_EVENT_NULL | Some o1 \<Rightarrow> io_event_type o1)"

section \<open>The manager\<close>

text \<open>One turn of the two allocation loops.\<close>

definition alloc_cached :: "buf_mgr \<Rightarrow> buf_mgr" where
  "alloc_cached m =
     (let (b, m1) = new_buffer (buffer_size m) m;
          (ok, m2) = AllocateIOBuffer b m1
      in if ok then m2\<lparr>io_buffer_cache := us_insert b (io_buffer_cache m2)\<rparr> else m2)"

definition PreAllocateSomeIOBuffer :: "buf_mgr \<Rightarrow> bool \<times> buf_mgr" where
  "PreAllocateSomeIOBuffer m =
     (let m1 = (alloc_cached ^^ unat (pre_allocate_size m)) m in (io_buffer_cache m1 \<noteq> [], m1))"

definition ReAllocateSomeIOBuffer :: "buf_mgr \<Rightarrow> bool \<times> buf_mgr" where
  "ReAllocateSomeIOBuffer m =
     (let m1 = (alloc_cached ^^ unat (re_allocate_size m)) m in (io_buffer_cache m1 = [], m1))"

definition CleanIOBufferCache :: "buf_mgr \<Rightarrow> buf_mgr" where
  "CleanIOBufferCache m = m\<lparr>io_buffer_cache := [], io_buffer_in_use := []\<rparr>"

definition buf_Initialize :: "Json \<Rightarrow> buf_mgr \<Rightarrow> bool \<times> buf_mgr" where
  "buf_Initialize cfg m =
     (if io_buffer_manager_inited m then (True, m)
      else
        (let m1 = m\<lparr>pre_allocate_size :=
                       int_to_size (GT_READ_CFG_INT cfg ''io_buffer_cfg'' ''pre_allocate_size'' 2000),
                    buffer_size :=
                       int_to_size (GT_READ_CFG_INT cfg ''io_buffer_cfg'' ''buffer_size'' (4 * 1024)),
                    re_allocate_size :=
                       int_to_size (GT_READ_CFG_INT cfg ''io_buffer_cfg'' ''reallocate_size'' 1000)\<rparr>;
             (ret, m2) = PreAllocateSomeIOBuffer m1
         in if \<not> ret then (ret, m2) else (ret, m2\<lparr>io_buffer_manager_inited := True\<rparr>)))"

definition GetNextIOBufferPtr :: "buf_env \<Rightarrow> buf_mgr \<Rightarrow> addr option \<times> buf_mgr" where
  "GetNextIOBufferPtr env m =
     (let m1 = (if io_buffer_cache m = [] \<or>
                   length (io_buffer_cache m) < unat (size_need_reallocate m)
                then snd (ReAllocateSomeIOBuffer m) else m)
      in if 0 < length (io_buffer_cache m1) then
           (let it = us_begin (buf_begin env (buf_calls m1)) (io_buffer_cache m1);
                iu = um_insert it it (io_buffer_in_use m1);
                temp_ptr = um_find it iu
            in (temp_ptr, m1\<lparr>io_buffer_in_use := iu,
                              io_buffer_cache := us_erase it (io_buffer_cache m1),
                              buf_calls := Suc (buf_calls m1)\<rparr>))
         else
           (let (b, m2) = new_buffer DEFAULT_BUFFER_LEN m1;
                (_, m3) = AllocateIOBuffer b m2
            in (Some b, m3\<lparr>io_buffer_in_use := um_insert b b (io_buffer_in_use m3)\<rparr>)))"

definition ReleaseIOBuffer :: "buf_env \<Rightarrow> addr option \<Rightarrow> buf_mgr \<Rightarrow> buf_mgr" where
  "ReleaseIOBuffer env buffer_ptr m =
     (case buffer_ptr of
        None \<Rightarrow> m
      | Some b \<Rightarrow>
          (let r = buf_random env (buf_calls m);
               m0 = m\<lparr>buf_calls := Suc (buf_calls m)\<rparr>
           in if 9 < r then
                (let m1 = ResetBuffer b m0
                 in m1\<lparr>io_buffer_cache := us_insert b (io_buffer_cache m1)\<rparr>)
              else m0\<lparr>io_buffer_in_use := um_erase b (io_buffer_in_use m0)\<rparr>))"

definition buf_Finalize :: "buf_mgr \<Rightarrow> buf_mgr" where
  "buf_Finalize m = (CleanIOBufferCache m)\<lparr>io_buffer_manager_inited := False\<rparr>"

section \<open>Invariant\<close>

text \<open>
  A buffer object is well formed when its WSABUF describes its own block and the block has the
  recorded size; no two objects share a block. \<open>buf_inv\<close> says so of every object, and that the
  cache and the in-use map hold existing objects, each once, the map keyed by address.
  \<open>cache_zero\<close> says that what waits in the cache has been cleared.
\<close>

definition wf_buffer :: "buf_mgr \<Rightarrow> io_context_buffer \<Rightarrow> bool" where
  "wf_buffer m x =
     (\<exists>blk bs. io_buffer x = Some blk \<and> ws_buf (io_wsa_buf x) = Some blk \<and>
        ws_len (io_wsa_buf x) = ucast (io_buffer_size x) \<and>
        blocks m blk = Some bs \<and> length bs = unat (io_buffer_size x))"

definition content :: "buf_mgr \<Rightarrow> addr \<Rightarrow> byte list option" where
  "content m b = Option.bind (bufs m b) (\<lambda>x. Option.bind (io_buffer x) (blocks m))"

definition is_zero :: "buf_mgr \<Rightarrow> addr \<Rightarrow> bool" where
  "is_zero m b = (content m b = Some (replicate (unat (GetBufferSize b m)) 0))"

definition buf_inv :: "buf_mgr \<Rightarrow> bool" where
  "buf_inv m =
     (distinct (io_buffer_cache m) \<and> um_ok (io_buffer_in_use m) \<and> um_self (io_buffer_in_use m) \<and>
      (\<forall>b. bufs m b \<noteq> None \<longrightarrow> b < next_buf m) \<and>
      (\<forall>blk. blocks m blk \<noteq> None \<longrightarrow> blk < next_block m) \<and>
      (\<forall>b x. bufs m b = Some x \<longrightarrow> wf_buffer m x) \<and>
      (\<forall>b c x y. bufs m b = Some x \<longrightarrow> bufs m c = Some y \<longrightarrow> io_buffer x = io_buffer y \<longrightarrow> b = c) \<and>
      (\<forall>b \<in> set (io_buffer_cache m) \<union> um_keys (io_buffer_in_use m). bufs m b \<noteq> None))"

definition cache_zero :: "buf_mgr \<Rightarrow> bool" where
  "cache_zero m = (\<forall>b \<in> set (io_buffer_cache m). is_zero m b)"

lemma buf_inv_init: "buf_inv buf_mgr_init" and cache_zero_init: "cache_zero buf_mgr_init"
  by (simp_all add: buf_inv_def buf_mgr_init_def cache_zero_def)

lemma buf_invD:
  assumes "buf_inv m"
  shows "distinct (io_buffer_cache m)" "um_ok (io_buffer_in_use m)" "um_self (io_buffer_in_use m)"
    "\<And>b x. bufs m b = Some x \<Longrightarrow> wf_buffer m x"
    "\<And>b. b \<in> set (io_buffer_cache m) \<Longrightarrow> bufs m b \<noteq> None"
    "\<And>b. b \<in> um_keys (io_buffer_in_use m) \<Longrightarrow> bufs m b \<noteq> None"
    "bufs m (next_buf m) = None" "blocks m (next_block m) = None"
  using assms unfolding buf_inv_def by (blast | fastforce)+

text \<open>Allocating a fresh object together with its block.\<close>

definition fresh_buffer :: "size_t \<Rightarrow> buf_mgr \<Rightarrow> buf_mgr" where
  "fresh_buffer len m =
     m\<lparr>bufs := (bufs m)(next_buf m \<mapsto>
          \<lparr>io_socket_ptr = None, io_wsa_buf = \<lparr>ws_len = ucast len, ws_buf = Some (next_block m)\<rparr>,
           io_buffer = Some (next_block m), io_buffer_size = len, io_event_type = IO_EVENT_NULL\<rparr>),
        next_buf := Suc (next_buf m),
        blocks := (blocks m)(next_block m \<mapsto> replicate (unat len) 0),
        next_block := Suc (next_block m)\<rparr>"

lemma allocate_new:
  "AllocateIOBuffer (fst (new_buffer len m)) (snd (new_buffer len m)) = (True, fresh_buffer len m)"
  by (simp add: AllocateIOBuffer_def new_buffer_def fresh_buffer_def GT_IOContextBuffer_def
      upd_buf_def Let_def)

lemma alloc_cached_eq:
  "alloc_cached m =
     (fresh_buffer (buffer_size m) m)\<lparr>io_buffer_cache := us_insert (next_buf m) (io_buffer_cache m)\<rparr>"
  using allocate_new [of "buffer_size m" m]
  by (simp add: alloc_cached_def new_buffer_def Let_def fresh_buffer_def)

lemma fresh_buffer_frame [frame_simps]:
  "io_buffer_cache (fresh_buffer len m) = io_buffer_cache m"
  "io_buffer_in_use (fresh_buffer len m) = io_buffer_in_use m"
  "buffer_size (fresh_buffer len m) = buffer_size m"
  "buf_calls (fresh_buffer len m) = buf_calls m"
  "size_need_reallocate (fresh_buffer len m) = size_need_reallocate m"
  "re_allocate_size (fresh_buffer len m) = re_allocate_size m"
  by (simp_all add: fresh_buffer_def)

lemma wf_buffer_mono:
  "wf_buffer m x \<Longrightarrow> (\<And>blk bs. blocks m blk = Some bs \<Longrightarrow> \<exists>bs'. blocks m' blk = Some bs' \<and> length bs' = length bs)
   \<Longrightarrow> wf_buffer m' x"
  unfolding wf_buffer_def by metis

lemma fresh_buffer_inv:
  assumes "buf_inv m"
  shows "buf_inv (fresh_buffer len m)"
proof -
  have nb: "blocks m (next_block m) = None" and bb: "bufs m (next_buf m) = None"
    using buf_invD [OF assms] by auto
  have wf: "wf_buffer (fresh_buffer len m) x" if "bufs m b = Some x" for b x
    by (rule wf_buffer_mono [of m]) (use buf_invD(4) [OF assms that] nb in \<open>auto simp: fresh_buffer_def\<close>)
  have sep: "io_buffer x \<noteq> Some (next_block m)" if "bufs m b = Some x" for b x
    using buf_invD(4) [OF assms that] nb by (auto simp: wf_buffer_def)
  have new: "wf_buffer (fresh_buffer len m) x" if "bufs (fresh_buffer len m) (next_buf m) = Some x" for x
    using that by (auto simp: wf_buffer_def fresh_buffer_def)
  show ?thesis
    unfolding buf_inv_def
  proof (intro conjI allI impI ballI)
    fix b x assume "bufs (fresh_buffer len m) b = Some x"
    then show "wf_buffer (fresh_buffer len m) x"
      using wf new by (cases "b = next_buf m") (auto simp: fresh_buffer_def)
  next
    fix b c x y
    assume "bufs (fresh_buffer len m) b = Some x" "bufs (fresh_buffer len m) c = Some y"
      "io_buffer x = io_buffer y"
    then show "b = c"
      using sep assms by (fastforce simp: fresh_buffer_def buf_inv_def split: if_splits)
  qed (use assms in \<open>auto simp: buf_inv_def fresh_buffer_def less_Suc_eq\<close>)
qed

lemma content_fresh:
  assumes "buf_inv m" and "bufs m b \<noteq> None"
  shows "content (fresh_buffer len m) b = content m b"
    and "GetBufferSize b (fresh_buffer len m) = GetBufferSize b m"
proof -
  obtain x where x: "bufs m b = Some x" using assms(2) by auto
  then have "wf_buffer m x" "b \<noteq> next_buf m" using buf_invD [OF assms(1)] by auto
  then show "content (fresh_buffer len m) b = content m b"
    and "GetBufferSize b (fresh_buffer len m) = GetBufferSize b m"
    using x buf_invD(8) [OF assms(1)]
    by (auto simp: content_def fresh_buffer_def wf_buffer_def GetBufferSize_def)
qed

lemma is_zero_fresh_new: "is_zero (fresh_buffer len m) (next_buf m)"
  by (simp add: is_zero_def content_def fresh_buffer_def GetBufferSize_def)

lemma cache_zero_fresh:
  assumes "buf_inv m" and "cache_zero m"
  shows "cache_zero (fresh_buffer len m)"
  using assms content_fresh buf_invD(5) [OF assms(1)]
  by (simp add: cache_zero_def is_zero_def frame_simps)

lemma alloc_cached_inv: "buf_inv m \<Longrightarrow> buf_inv (alloc_cached m)"
proof -
  assume inv: "buf_inv m"
  let ?f = "fresh_buffer (buffer_size m) m"
  have "buf_inv ?f" by (rule fresh_buffer_inv [OF inv])
  moreover have "bufs ?f (next_buf m) \<noteq> None" by (simp add: fresh_buffer_def)
  ultimately show ?thesis
    by (simp add: alloc_cached_eq buf_inv_def frame_simps wf_buffer_def)
qed

lemma alloc_cached_zero: "buf_inv m \<Longrightarrow> cache_zero m \<Longrightarrow> cache_zero (alloc_cached m)"
  using cache_zero_fresh [of m "buffer_size m"] is_zero_fresh_new [of "buffer_size m" m]
  by (simp add: alloc_cached_eq cache_zero_def frame_simps is_zero_def content_def GetBufferSize_def)

lemma alloc_cached_length:
  assumes "buf_inv m"
  shows "length (io_buffer_cache (alloc_cached m)) = Suc (length (io_buffer_cache m))"
proof -
  have "next_buf m \<notin> set (io_buffer_cache m)"
    using buf_invD(5,7) [OF assms] by blast
  then show ?thesis by (simp add: alloc_cached_eq frame_simps length_us_insert)
qed

lemma alloc_cached_n:
  assumes "buf_inv m"
  shows "buf_inv ((alloc_cached ^^ n) m)"
    and "cache_zero m \<Longrightarrow> cache_zero ((alloc_cached ^^ n) m)"
    and "io_buffer_in_use ((alloc_cached ^^ n) m) = io_buffer_in_use m"
    and "length (io_buffer_cache ((alloc_cached ^^ n) m)) = length (io_buffer_cache m) + n"
proof -
  have *: "buf_inv ((alloc_cached ^^ n) m)" for n
    using assms by (induction n) (auto intro: alloc_cached_inv)
  show "buf_inv ((alloc_cached ^^ n) m)" by (rule *)
  show "cache_zero m \<Longrightarrow> cache_zero ((alloc_cached ^^ n) m)"
    using * by (induction n) (auto intro: alloc_cached_zero)
  show "io_buffer_in_use ((alloc_cached ^^ n) m) = io_buffer_in_use m"
    by (induction n) (auto simp: alloc_cached_eq frame_simps)
  show "length (io_buffer_cache ((alloc_cached ^^ n) m)) = length (io_buffer_cache m) + n"
    by (induction n) (auto simp: alloc_cached_length [OF *])
qed

text \<open>Handing out: the refill, the cached case and the case of an empty cache.\<close>

definition refill :: "buf_mgr \<Rightarrow> buf_mgr" where
  "refill m =
     (if io_buffer_cache m = [] \<or> length (io_buffer_cache m) < unat (size_need_reallocate m)
      then snd (ReAllocateSomeIOBuffer m) else m)"

lemma refill_props:
  assumes "buf_inv m"
  shows "buf_inv (refill m)" and "cache_zero m \<Longrightarrow> cache_zero (refill m)"
    and "io_buffer_in_use (refill m) = io_buffer_in_use m"
  using alloc_cached_n [OF assms] assms
  by (auto simp: refill_def ReAllocateSomeIOBuffer_def Let_def)

lemma take_cached:
  assumes "buf_inv m" and "io_buffer_cache m \<noteq> []"
    and "it = us_begin i (io_buffer_cache m)"
    and m'_def: "m' = m\<lparr>io_buffer_in_use := um_insert it it (io_buffer_in_use m),
                   io_buffer_cache := us_erase it (io_buffer_cache m), buf_calls := c\<rparr>"
  shows "buf_inv m'" and "um_find it (io_buffer_in_use m') = Some it"
    and "it \<in> set (io_buffer_cache m)" and "cache_zero m \<Longrightarrow> cache_zero m'"
proof -
  show it: "it \<in> set (io_buffer_cache m)" using assms(2,3) by simp
  then show "buf_inv m'"
    using assms(1) by (auto simp: buf_inv_def m'_def wf_buffer_def)
  show "um_find it (io_buffer_in_use m') = Some it"
    using buf_invD(3) [OF assms(1)] by (auto simp: m'_def dest: um_self_find split: option.splits)
  show "cache_zero m \<Longrightarrow> cache_zero m'"
    by (auto simp: cache_zero_def m'_def is_zero_def content_def GetBufferSize_def)
qed

lemma GetNext_cached:
  assumes "buf_inv m" and "io_buffer_cache (refill m) \<noteq> []"
  shows "GetNextIOBufferPtr env m =
     (let m1 = refill m; it = us_begin (buf_begin env (buf_calls m1)) (io_buffer_cache m1)
      in (Some it, m1\<lparr>io_buffer_in_use := um_insert it it (io_buffer_in_use m1),
                       io_buffer_cache := us_erase it (io_buffer_cache m1),
                       buf_calls := Suc (buf_calls m1)\<rparr>))"
  using take_cached(2) [OF refill_props(1) [OF assms(1)] assms(2) refl refl]
    assms(2) unfolding GetNextIOBufferPtr_def refill_def [symmetric] Let_def by simp

lemma GetNext_empty:
  assumes "io_buffer_cache (refill m) = []"
  shows "GetNextIOBufferPtr env m =
     (let m1 = refill m; b = next_buf m1; m3 = fresh_buffer DEFAULT_BUFFER_LEN m1
      in (Some b, m3\<lparr>io_buffer_in_use := um_insert b b (io_buffer_in_use m3)\<rparr>))"
  using assms allocate_new [of DEFAULT_BUFFER_LEN "refill m"]
  unfolding GetNextIOBufferPtr_def refill_def [symmetric] Let_def by (simp add: new_buffer_def)

lemma GetNext_props:
  assumes inv: "buf_inv m" and get: "GetNextIOBufferPtr env m = (p, m')"
  shows "\<exists>b. p = Some b \<and> b \<notin> set (io_buffer_cache m') \<and> bufs m' b \<noteq> None"
    and "buf_inv m'"
    and "um_keys (io_buffer_in_use m') = insert (the p) (um_keys (io_buffer_in_use m))"
    and "cache_zero m \<Longrightarrow> cache_zero m' \<and> is_zero m' (the p)"
proof -
  let ?m1 = "refill m"
  have inv1: "buf_inv ?m1" and iu1: "io_buffer_in_use ?m1 = io_buffer_in_use m"
    and z1: "cache_zero m \<Longrightarrow> cache_zero ?m1"
    using refill_props [OF inv] by auto
  consider (cached) "io_buffer_cache ?m1 \<noteq> []" | (empty) "io_buffer_cache ?m1 = []" by blast
  then have "(\<exists>b. p = Some b \<and> b \<notin> set (io_buffer_cache m') \<and> bufs m' b \<noteq> None) \<and> buf_inv m' \<and>
     um_keys (io_buffer_in_use m') = insert (the p) (um_keys (io_buffer_in_use m)) \<and>
     (cache_zero m \<longrightarrow> cache_zero m' \<and> is_zero m' (the p))"
  proof cases
    case cached
    let ?it = "us_begin (buf_begin env (buf_calls ?m1)) (io_buffer_cache ?m1)"
    let ?m2 = "?m1\<lparr>io_buffer_in_use := um_insert ?it ?it (io_buffer_in_use ?m1),
      io_buffer_cache := us_erase ?it (io_buffer_cache ?m1), buf_calls := Suc (buf_calls ?m1)\<rparr>"
    note t = take_cached [OF inv1 cached refl [of ?it] refl [of ?m2]]
    have p: "p = Some ?it" and m': "m' = ?m2"
      using get iu1 unfolding GetNext_cached [OF inv cached] Let_def by auto
    have "bufs ?m1 ?it \<noteq> None" using t(3) buf_invD(5) [OF inv1] by blast
    moreover have "is_zero ?m2 b = is_zero ?m1 b" for b
      by (simp add: is_zero_def content_def GetBufferSize_def)
    moreover have "cache_zero m \<Longrightarrow> is_zero ?m1 ?it" using z1 t(3) by (auto simp: cache_zero_def)
    ultimately show ?thesis using t z1 iu1 by (simp add: p m')
  next
    case empty
    let ?m3 = "fresh_buffer DEFAULT_BUFFER_LEN ?m1"
    have p: "p = Some (next_buf ?m1)"
      and m': "m' = ?m3\<lparr>io_buffer_in_use := um_insert (next_buf ?m1) (next_buf ?m1) (io_buffer_in_use ?m3)\<rparr>"
      using get unfolding GetNext_empty [OF empty] Let_def by auto
    have "buf_inv ?m3" by (rule fresh_buffer_inv [OF inv1])
    moreover have "bufs ?m3 (next_buf ?m1) \<noteq> None" by (simp add: fresh_buffer_def)
    ultimately show ?thesis
      using empty iu1 is_zero_fresh_new [of DEFAULT_BUFFER_LEN ?m1]
      by (auto simp: p m' buf_inv_def wf_buffer_def frame_simps cache_zero_def is_zero_def
          content_def GetBufferSize_def)
  qed
  then show "\<exists>b. p = Some b \<and> b \<notin> set (io_buffer_cache m') \<and> bufs m' b \<noteq> None"
    and "buf_inv m'"
    and "um_keys (io_buffer_in_use m') = insert (the p) (um_keys (io_buffer_in_use m))"
    and "cache_zero m \<Longrightarrow> cache_zero m' \<and> is_zero m' (the p)"
    by auto
qed

lemma ResetBuffer_props:
  assumes inv: "buf_inv m" and b: "bufs m b \<noteq> None"
  shows "buf_inv (ResetBuffer b m)" and "is_zero (ResetBuffer b m) b"
    and "bufs (ResetBuffer b m) = bufs m"
    and "io_buffer_cache (ResetBuffer b m) = io_buffer_cache m"
    and "io_buffer_in_use (ResetBuffer b m) = io_buffer_in_use m"
    and "cache_zero m \<Longrightarrow> cache_zero (ResetBuffer b m)"
proof -
  obtain x blk bs where x: "bufs m b = Some x" "io_buffer x = Some blk" "blocks m blk = Some bs"
      "length bs = unat (io_buffer_size x)"
    using b buf_invD(4) [OF inv] by (fastforce simp: wf_buffer_def)
  have r: "ResetBuffer b m = m\<lparr>blocks := (blocks m)(blk \<mapsto> replicate (unat (io_buffer_size x)) 0)\<rparr>"
    by (simp add: ResetBuffer_def x)
  have "wf_buffer (ResetBuffer b m) y" if "wf_buffer m y" for y
    using that by (rule wf_buffer_mono) (use x in \<open>auto simp: r\<close>)
  moreover have "blk < next_block m" using inv x(3) by (auto simp: buf_inv_def)
  ultimately show "buf_inv (ResetBuffer b m)"
    using inv by (auto simp: buf_inv_def r)
  show "is_zero (ResetBuffer b m) b"
    using x by (simp add: is_zero_def content_def GetBufferSize_def r)
  show "bufs (ResetBuffer b m) = bufs m"
    and "io_buffer_cache (ResetBuffer b m) = io_buffer_cache m"
    and "io_buffer_in_use (ResetBuffer b m) = io_buffer_in_use m"
    by (simp_all add: r)
  show "cache_zero (ResetBuffer b m)" if z: "cache_zero m"
    unfolding cache_zero_def
  proof
    fix c assume "c \<in> set (io_buffer_cache (ResetBuffer b m))"
    then have c: "is_zero m c" using z by (simp add: r cache_zero_def)
    show "is_zero (ResetBuffer b m) c"
    proof (cases "c = b")
      case False
      have "\<And>y. bufs m c = Some y \<Longrightarrow> io_buffer y \<noteq> Some blk"
        using inv x(1,2) False unfolding buf_inv_def by metis
      then show ?thesis
        using c by (auto simp: is_zero_def content_def GetBufferSize_def r bind_eq_Some_conv)
    qed (use \<open>is_zero (ResetBuffer b m) b\<close> in simp)
  qed
qed

lemma calls_irrelevant [simp]:
  "buf_inv (m\<lparr>buf_calls := c\<rparr>) = buf_inv m" "cache_zero (m\<lparr>buf_calls := c\<rparr>) = cache_zero m"
  "is_zero (m\<lparr>buf_calls := c\<rparr>) b = is_zero m b"
  by (simp_all add: buf_inv_def cache_zero_def is_zero_def content_def wf_buffer_def GetBufferSize_def)

lemma Release_recycle:
  "9 < buf_random env (buf_calls m) \<Longrightarrow>
   ReleaseIOBuffer env (Some b) m =
     (let m1 = ResetBuffer b (m\<lparr>buf_calls := Suc (buf_calls m)\<rparr>)
      in m1\<lparr>io_buffer_cache := us_insert b (io_buffer_cache m1)\<rparr>)"
  by (simp add: ReleaseIOBuffer_def Let_def)

lemma Release_drop:
  "\<not> 9 < buf_random env (buf_calls m) \<Longrightarrow>
   ReleaseIOBuffer env (Some b) m =
     m\<lparr>buf_calls := Suc (buf_calls m), io_buffer_in_use := um_erase b (io_buffer_in_use m)\<rparr>"
  by (simp add: ReleaseIOBuffer_def Let_def)

lemma Release_props:
  assumes inv: "buf_inv m" and p: "\<And>b. p = Some b \<Longrightarrow> bufs m b \<noteq> None"
  shows "buf_inv (ReleaseIOBuffer env p m)"
    and "cache_zero m \<Longrightarrow> cache_zero (ReleaseIOBuffer env p m)"
    and "bufs (ReleaseIOBuffer env p m) = bufs m"
proof -
  have "buf_inv (ReleaseIOBuffer env p m) \<and> (cache_zero m \<longrightarrow> cache_zero (ReleaseIOBuffer env p m)) \<and>
     bufs (ReleaseIOBuffer env p m) = bufs m"
  proof (cases p)
    case None
    then show ?thesis using inv by (simp add: ReleaseIOBuffer_def)
  next
    case (Some b)
    let ?m0 = "m\<lparr>buf_calls := Suc (buf_calls m)\<rparr>"
    show ?thesis
    proof (cases "9 < buf_random env (buf_calls m)")
      case True
      have "buf_inv ?m0" "bufs ?m0 b \<noteq> None" using inv p Some by auto
      note r = ResetBuffer_props [OF this]
      have "bufs m b \<noteq> None" using p Some by blast
      then show ?thesis
        using r unfolding Some Release_recycle [where env = env, OF True] Let_def
        by (auto simp: buf_inv_def wf_buffer_def cache_zero_def is_zero_def content_def GetBufferSize_def)
    next
      case False
      then show ?thesis
        using inv by (auto simp: Some Release_drop buf_inv_def wf_buffer_def cache_zero_def is_zero_def
            content_def GetBufferSize_def)
    qed
  qed
  then show "buf_inv (ReleaseIOBuffer env p m)"
    and "cache_zero m \<Longrightarrow> cache_zero (ReleaseIOBuffer env p m)"
    and "bufs (ReleaseIOBuffer env p m) = bufs m" by auto
qed

lemma buf_Initialize_props:
  assumes "buf_inv m"
  shows "buf_inv (snd (buf_Initialize cfg m))"
    and "cache_zero m \<Longrightarrow> cache_zero (snd (buf_Initialize cfg m))"
proof -
  have "buf_inv (m\<lparr>pre_allocate_size := a, buffer_size := b, re_allocate_size := c\<rparr>)" for a b c
    using assms by (simp add: buf_inv_def wf_buffer_def)
  note n = alloc_cached_n [OF this]
  have z: "cache_zero (m\<lparr>pre_allocate_size := a, buffer_size := b, re_allocate_size := c\<rparr>) = cache_zero m"
    for a b c by (simp add: cache_zero_def is_zero_def content_def GetBufferSize_def)
  have i: "buf_inv (x\<lparr>io_buffer_manager_inited := True\<rparr>) = buf_inv x"
    "cache_zero (x\<lparr>io_buffer_manager_inited := True\<rparr>) = cache_zero x" for x
    by (simp_all add: buf_inv_def wf_buffer_def cache_zero_def is_zero_def content_def GetBufferSize_def)
  show "buf_inv (snd (buf_Initialize cfg m))"
    using assms n(1) i by (simp add: buf_Initialize_def PreAllocateSomeIOBuffer_def Let_def)
  show "cache_zero m \<Longrightarrow> cache_zero (snd (buf_Initialize cfg m))"
    using n(2) z i by (simp add: buf_Initialize_def PreAllocateSomeIOBuffer_def Let_def)
qed

lemma buf_Finalize_props:
  assumes "buf_inv m"
  shows "buf_inv (buf_Finalize m)" and "cache_zero (buf_Finalize m)"
  using assms
  by (auto simp: buf_Finalize_def CleanIOBufferCache_def buf_inv_def wf_buffer_def cache_zero_def)

text \<open>
  The manager as a pool: it tracks what it hands out. It is not an \<open>exclusive_pool\<close>: a recycled
  buffer stays in the in-use map, so the next holder gets a buffer that is recorded as in use.
\<close>

interpretation bp: tracked_pool "GetNextIOBufferPtr env"
    "\<lambda>m. Some ` set (io_buffer_cache m)" "\<lambda>m. Some ` um_keys (io_buffer_in_use m)" buf_inv
  for env
proof unfold_locales
  fix m r m'
  assume a: "buf_inv m" "GetNextIOBufferPtr env m = (r, m')"
  then show "buf_inv m'" by (rule GetNext_props)
  from GetNext_props(1,3) [OF a]
  show "Some ` um_keys (io_buffer_in_use m') = insert r (Some ` um_keys (io_buffer_in_use m))"
    and "r \<notin> Some ` set (io_buffer_cache m')" by auto
qed

section \<open>Writing to a buffer that was handed out\<close>

lemma upd_buf_inv:
  assumes "buf_inv m"
    and f: "\<And>x. io_buffer (f x) = io_buffer x \<and> io_buffer_size (f x) = io_buffer_size x \<and>
              io_wsa_buf (f x) = io_wsa_buf x"
  shows "buf_inv (upd_buf b f m)" and "cache_zero m \<Longrightarrow> cache_zero (upd_buf b f m)"
proof -
  have "wf_buffer (upd_buf b f m) y = wf_buffer m y" for y
    by (simp add: wf_buffer_def upd_buf_def)
  moreover have "wf_buffer m (f y) = wf_buffer m y" for y
    by (simp add: wf_buffer_def f)
  moreover have "\<exists>y. bufs m c = Some y \<and> io_buffer x = io_buffer y \<and> (x = y \<or> x = f y)"
    if "bufs (upd_buf b f m) c = Some x" for c x
    using that f by (auto simp: upd_buf_def split: if_splits)
  moreover have "bufs (upd_buf b f m) c = None \<longleftrightarrow> bufs m c = None" for c
    by (simp add: upd_buf_def)
  moreover have "io_buffer_cache (upd_buf b f m) = io_buffer_cache m"
    "io_buffer_in_use (upd_buf b f m) = io_buffer_in_use m" "next_buf (upd_buf b f m) = next_buf m"
    "blocks (upd_buf b f m) = blocks m" "next_block (upd_buf b f m) = next_block m"
    by (simp_all add: upd_buf_def)
  ultimately show "buf_inv (upd_buf b f m)"
    using assms(1) unfolding buf_inv_def by (smt (verit))
  have "content (upd_buf b f m) c = content m c" "GetBufferSize c (upd_buf b f m) = GetBufferSize c m" for c
    using f by (cases "bufs m c"; auto simp: content_def GetBufferSize_def upd_buf_def)+
  then show "cache_zero (upd_buf b f m)" if "cache_zero m"
    using that by (simp add: cache_zero_def is_zero_def upd_buf_def)
qed

text \<open>
  A new block for a buffer: the old one stays allocated and no buffer refers to it any more.
\<close>

lemma AllocateBySize_eq:
  assumes "bufs m b = Some x"
  shows "AllocateIOBufferBySize b len m =
     (True, m\<lparr>blocks := (blocks m)(next_block m \<mapsto> replicate (unat len) 0),
              next_block := Suc (next_block m),
              bufs := (bufs m)(b \<mapsto> x\<lparr>io_buffer_size := len, io_buffer := Some (next_block m),
                 io_wsa_buf := \<lparr>ws_len = ucast len, ws_buf = Some (next_block m)\<rparr>\<rparr>)\<rparr>)"
  using assms by (simp add: AllocateIOBufferBySize_def upd_buf_def Let_def)

text \<open>\<open>AllocateIOBufferBySize\<close> and the copy into the new block, as the sender does them.\<close>

lemma write_new_block_inv:
  assumes inv: "buf_inv m" and b: "bufs m b = Some x" and nc: "b \<notin> set (io_buffer_cache m)"
    and len: "length d = unat len"
    and m': "m' = m\<lparr>next_block := Suc (next_block m),
              bufs := (bufs m)(b \<mapsto> x\<lparr>io_buffer_size := len, io_buffer := Some (next_block m),
                 io_wsa_buf := \<lparr>ws_len = ucast len, ws_buf = Some (next_block m)\<rparr>\<rparr>),
              blocks := (blocks m)(next_block m \<mapsto> d)\<rparr>"
  shows "buf_inv m'" and "cache_zero m \<Longrightarrow> cache_zero m'"
proof -
  have nb: "blocks m (next_block m) = None" using buf_invD [OF inv] by auto
  have sep: "io_buffer y \<noteq> Some (next_block m)" if "bufs m c = Some y" for c y
    using buf_invD(4) [OF inv that] nb by (auto simp: wf_buffer_def)
  have keep: "wf_buffer m' y" if "wf_buffer m y" for y
    using that by (rule wf_buffer_mono) (use nb in \<open>auto simp: m'\<close>)
  show "buf_inv m'"
    unfolding buf_inv_def
  proof (intro conjI allI impI ballI)
    fix c y assume c: "bufs m' c = Some y"
    show "wf_buffer m' y"
    proof (cases "c = b")
      case True
      then show ?thesis using c len by (auto simp: m' wf_buffer_def)
    next
      case False
      then show ?thesis using c keep buf_invD(4) [OF inv] by (auto simp: m')
    qed
  next
    fix c e y z assume a: "bufs m' c = Some y" "bufs m' e = Some z" "io_buffer y = io_buffer z"
    show "c = e"
    proof (cases "c = b \<or> e = b")
      case True
      then show ?thesis using a sep [of c y] sep [of e z] by (auto simp: m' split: if_splits)
    next
      case False
      then have "bufs m c = Some y" "bufs m e = Some z" using a by (auto simp: m')
      then show ?thesis using inv a(3) by (simp add: buf_inv_def)
    qed
  qed (use inv b in \<open>auto simp: m' buf_inv_def less_Suc_eq split: if_splits\<close>)
  have "content m' c = content m c \<and> GetBufferSize c m' = GetBufferSize c m" if "c \<noteq> b" for c
  proof (cases "bufs m c")
    case (Some y)
    then show ?thesis
      using that sep [OF Some] by (cases "io_buffer y") (auto simp: content_def GetBufferSize_def m')
  qed (use that in \<open>simp add: content_def GetBufferSize_def m'\<close>)
  moreover have "io_buffer_cache m' = io_buffer_cache m" by (simp add: m')
  ultimately show "cache_zero m'" if "cache_zero m"
    using that nc unfolding cache_zero_def is_zero_def by metis
qed

text \<open>What handing out does to the objects: it only adds objects with no event type.\<close>

lemma alloc_cached_n_old:
  "bufs ((alloc_cached ^^ n) m) b = Some x \<Longrightarrow> bufs m b = Some x \<or> io_event_type x = IO_EVENT_NULL"
  by (induction n arbitrary: x) (auto simp: alloc_cached_eq fresh_buffer_def split: if_splits)

lemma GetNext_old:
  assumes "buf_inv m" and "GetNextIOBufferPtr env m = (p, m')" and "bufs m' b = Some x"
  shows "bufs m b = Some x \<or> io_event_type x = IO_EVENT_NULL"
proof -
  have r: "bufs m b = Some y \<or> io_event_type y = IO_EVENT_NULL" if "bufs (refill m) b = Some y" for y
    using that alloc_cached_n_old
    by (fastforce simp: refill_def ReAllocateSomeIOBuffer_def Let_def split: if_splits)
  show ?thesis
  proof (cases "io_buffer_cache (refill m) = []")
    case True
    then show ?thesis
      using r assms(2,3) by (auto simp: GetNext_empty Let_def fresh_buffer_def split: if_splits)
  next
    case False
    then show ?thesis using r assms(2,3) by (auto simp: GetNext_cached [OF assms(1)] Let_def)
  qed
qed

text \<open>\<dots> and it leaves the existing objects as they are.\<close>

lemma alloc_cached_other: "b \<noteq> next_buf m \<Longrightarrow> bufs (alloc_cached m) b = bufs m b"
  by (simp add: alloc_cached_eq fresh_buffer_def)

lemma alloc_cached_n_same:
  assumes "buf_inv m"
  shows "bufs m b = Some x \<Longrightarrow> bufs ((alloc_cached ^^ n) m) b = Some x"
proof (induction n)
  case (Suc n)
  have "bufs ((alloc_cached ^^ n) m) (next_buf ((alloc_cached ^^ n) m)) = None"
    using buf_invD(7) [OF alloc_cached_n(1) [OF assms]] .
  then have "b \<noteq> next_buf ((alloc_cached ^^ n) m)" using Suc by auto
  then show ?case using Suc by (simp add: alloc_cached_other)
qed simp

lemma GetNext_same:
  assumes "buf_inv m" and "GetNextIOBufferPtr env m = (p, m')" and "bufs m b = Some x"
  shows "bufs m' b = Some x"
proof -
  have r: "bufs (refill m) b = Some x"
    using alloc_cached_n_same [OF assms(1,3)] assms(3)
    by (simp add: refill_def ReAllocateSomeIOBuffer_def Let_def)
  have n: "bufs (refill m) (next_buf (refill m)) = None"
    using buf_invD(7) [OF refill_props(1) [OF assms(1)]] .
  show ?thesis
  proof (cases "io_buffer_cache (refill m) = []")
    case True
    then show ?thesis using r n assms(2) by (auto simp: GetNext_empty Let_def fresh_buffer_def)
  next
    case False
    then show ?thesis using r assms(2) by (auto simp: GetNext_cached [OF assms(1)] Let_def)
  qed
qed

text \<open>What is handed out was idle, or did not exist before.\<close>

lemma alloc_cached_cache:
  "set (io_buffer_cache (alloc_cached m)) \<subseteq> insert (next_buf m) (set (io_buffer_cache m))"
  by (auto simp: alloc_cached_eq us_insert_def frame_simps split: if_splits)

lemma alloc_cached_n_source:
  assumes "buf_inv m"
  shows "b \<in> set (io_buffer_cache ((alloc_cached ^^ n) m)) \<Longrightarrow> b \<in> set (io_buffer_cache m) \<or> bufs m b = None"
proof (induction n)
  case (Suc n)
  let ?m = "(alloc_cached ^^ n) m"
  have "bufs ?m (next_buf ?m) = None" using buf_invD(7) [OF alloc_cached_n(1) [OF assms]] .
  then have "bufs m (next_buf ?m) = None"
    using alloc_cached_n_same [OF assms, of "next_buf ?m" _ n] by (cases "bufs m (next_buf ?m)") auto
  moreover have "b = next_buf ?m \<or> b \<in> set (io_buffer_cache ?m)"
    using Suc.prems alloc_cached_cache [of ?m] by auto
  ultimately show ?case using Suc.IH by auto
qed simp

lemma GetNext_source:
  assumes "buf_inv m" and "GetNextIOBufferPtr env m = (Some b, m')"
  shows "b \<in> set (io_buffer_cache m) \<or> bufs m b = None"
proof -
  have n: "bufs (refill m) (next_buf (refill m)) = None"
    using buf_invD(7) [OF refill_props(1) [OF assms(1)]] .
  then have n': "bufs m (next_buf (refill m)) = None"
    using alloc_cached_n_same [OF assms(1), of "next_buf (refill m)"]
    by (cases "bufs m (next_buf (refill m))") (auto simp: refill_def ReAllocateSomeIOBuffer_def Let_def split: if_splits)
  have src: "c \<in> set (io_buffer_cache m) \<or> bufs m c = None" if "c \<in> set (io_buffer_cache (refill m))" for c
    using that alloc_cached_n_source [OF assms(1)]
    by (auto simp: refill_def ReAllocateSomeIOBuffer_def Let_def split: if_splits)
  show ?thesis
  proof (cases "io_buffer_cache (refill m) = []")
    case True
    then show ?thesis using n' assms(2) by (auto simp: GetNext_empty Let_def)
  next
    case False
    then have "b \<in> set (io_buffer_cache (refill m))"
      using assms(2) take_cached(1) [OF refill_props(1) [OF assms(1)] False refl refl]
      by (auto simp: GetNext_cached [OF assms(1)] Let_def)
    then show ?thesis by (rule src)
  qed
qed

text \<open>Data written over the block of a buffer that is not idle, as a completed read or the sender does.\<close>

lemma write_block_inv:
  assumes inv: "buf_inv m" and b: "bufs m b = Some x" and nc: "b \<notin> set (io_buffer_cache m)"
    and blk: "io_buffer x = Some blk" and len: "length d = unat (io_buffer_size x)"
  shows "buf_inv (m\<lparr>blocks := (blocks m)(blk \<mapsto> d)\<rparr>)"
    and "cache_zero m \<Longrightarrow> cache_zero (m\<lparr>blocks := (blocks m)(blk \<mapsto> d)\<rparr>)"
proof -
  let ?m = "m\<lparr>blocks := (blocks m)(blk \<mapsto> d)\<rparr>"
  obtain bs where bs: "blocks m blk = Some bs" "length bs = length d"
    using buf_invD(4) [OF inv b] blk len by (auto simp: wf_buffer_def)
  have "wf_buffer ?m y" if "wf_buffer m y" for y
    using that bs by (auto simp: wf_buffer_def)
  then show "buf_inv ?m" using inv bs by (auto simp: buf_inv_def)
  have "content ?m c = content m c" if "c \<in> set (io_buffer_cache m)" for c
  proof (cases "bufs m c")
    case (Some y)
    have "io_buffer y \<noteq> Some blk" using inv b Some nc that blk unfolding buf_inv_def by metis
    then show ?thesis using Some by (cases "io_buffer y") (auto simp: content_def)
  qed (simp add: content_def)
  then show "cache_zero m \<Longrightarrow> cache_zero ?m"
    by (simp add: cache_zero_def is_zero_def GetBufferSize_def)
qed

section \<open>The manager's runs\<close>

text \<open>
  Beside the manager's own operations, buffers that are not idle are used: the system or the user
  writes any data into the block of one, and the sender gives one a new block with its message.
\<close>

inductive buf_step :: "buf_env \<Rightarrow> buf_mgr \<Rightarrow> buf_mgr \<Rightarrow> bool" for env where
  init: "buf_step env m (snd (buf_Initialize cfg m))"
| get: "buf_step env m (snd (GetNextIOBufferPtr env m))"
| release: "bufs m b \<noteq> None \<Longrightarrow> buf_step env m (ReleaseIOBuffer env (Some b) m)"
| final: "buf_step env m (buf_Finalize m)"
| written: "bufs m b = Some x \<Longrightarrow> b \<notin> set (io_buffer_cache m) \<Longrightarrow> io_buffer x = Some blk \<Longrightarrow>
    length d = unat (io_buffer_size x) \<Longrightarrow> buf_step env m (m\<lparr>blocks := (blocks m)(blk \<mapsto> d)\<rparr>)"
| resized: "bufs m b \<noteq> None \<Longrightarrow> b \<notin> set (io_buffer_cache m) \<Longrightarrow>
    buf_step env m (snd (AllocateIOBufferBySize b len m))"

inductive buf_reachable :: "buf_env \<Rightarrow> buf_mgr \<Rightarrow> bool" for env where
  start: "buf_reachable env buf_mgr_init"
| step: "buf_reachable env m \<Longrightarrow> buf_step env m m' \<Longrightarrow> buf_reachable env m'"

lemma buf_step_inv:
  "buf_step env m m' \<Longrightarrow> buf_inv m \<and> cache_zero m \<Longrightarrow> buf_inv m' \<and> cache_zero m'"
proof (induction rule: buf_step.induct)
  case (get m)
  then show ?case using GetNext_props [of m env] by (metis prod.collapse)
next
  case (written m b x blk d)
  then show ?case using write_block_inv by blast
next
  case (resized m b len)
  then obtain x where x: "bufs m b = Some x" by blast
  have d: "length (replicate (unat len) (0 :: byte)) = unat len" by simp
  have "buf_inv m" using resized.prems by simp
  note w = write_new_block_inv [OF this x resized.hyps(2) d refl]
  have "snd (AllocateIOBufferBySize b len m) = m\<lparr>next_block := Suc (next_block m),
      bufs := (bufs m)(b \<mapsto> x\<lparr>io_buffer_size := len, io_buffer := Some (next_block m),
        io_wsa_buf := \<lparr>ws_len = ucast len, ws_buf = Some (next_block m)\<rparr>\<rparr>),
      blocks := (blocks m)(next_block m \<mapsto> replicate (unat len) 0)\<rparr>"
    by (simp add: AllocateBySize_eq [OF x])
  then show ?case using w resized.prems by simp
qed (auto intro: buf_Initialize_props Release_props buf_Finalize_props)

lemma buf_reachable_inv: "buf_reachable env m \<Longrightarrow> buf_inv m \<and> cache_zero m"
proof (induction rule: buf_reachable.induct)
  case start
  show ?case by (simp add: buf_inv_init cache_zero_init)
qed (blast dest: buf_step_inv)

section \<open>Properties\<close>

definition buf_env0 :: buf_env where
  "buf_env0 = \<lparr>buf_begin = (\<lambda>_. 0), buf_random = (\<lambda>_. 10)\<rparr>"

text \<open>C27: In every state a run of the buffer manager reaches, with whatever data written meanwhile to the buffers
  that were not idle, asking for a buffer returns one: it is not null, it is no longer idle, it is recorded as
  handed out, and its block has the recorded size and holds zeros only, so that no data of an earlier use are left
  in it.\<close>

theorem handed_out_buffer:
  assumes "buf_reachable env m" and "GetNextIOBufferPtr env m = (p, m')"
  shows "\<exists>b. p = Some b \<and> b \<notin> set (io_buffer_cache m') \<and> b \<in> um_keys (io_buffer_in_use m') \<and>
     is_zero m' b \<and> buf_inv m'"
proof -
  have i: "buf_inv m" "cache_zero m" using buf_reachable_inv [OF assms(1)] by auto
  note p = GetNext_props [OF i(1) assms(2)]
  obtain b where "p = Some b" "b \<notin> set (io_buffer_cache m')" using p(1) by blast
  then show ?thesis using p(2-4) i(2) by auto
qed

text \<open>A buffer that was handed out and filled with a 7.\<close>

lemma buf_demo: "\<exists>m b. buf_reachable buf_env0 m \<and> content m b = Some [7]"
proof -
  obtain p m where g: "GetNextIOBufferPtr buf_env0 buf_mgr_init = (p, m)" by fastforce
  note P = GetNext_props [OF buf_inv_init g]
  obtain b where b: "p = Some b" "b \<notin> set (io_buffer_cache m)" "bufs m b \<noteq> None"
    using P(1) by blast
  then obtain x where x: "bufs m b = Some x" by blast
  let ?m2 = "snd (AllocateIOBufferBySize b 1 m)"
  let ?x = "x\<lparr>io_buffer_size := 1, io_buffer := Some (next_block m),
      io_wsa_buf := \<lparr>ws_len = 1, ws_buf = Some (next_block m)\<rparr>\<rparr>"
  have x2: "bufs ?m2 b = Some ?x" "io_buffer_cache ?m2 = io_buffer_cache m" by (simp_all add: AllocateBySize_eq [OF x])
  have "buf_reachable buf_env0 m"
    using buf_reachable.step [OF buf_reachable.start buf_step.get [of buf_env0 buf_mgr_init]] g by simp
  then have "buf_reachable buf_env0 ?m2" by (rule buf_reachable.step [OF _ buf_step.resized [OF b(3,2)]])
  then have "buf_reachable buf_env0 (?m2\<lparr>blocks := (blocks ?m2)(next_block m \<mapsto> [7])\<rparr>)"
    by (rule buf_reachable.step [OF _ buf_step.written [OF x2(1)]]) (use b(2) x2(2) in simp_all)
  moreover have "content (?m2\<lparr>blocks := (blocks ?m2)(next_block m \<mapsto> [7])\<rparr>) b = Some [7]"
    using x2(1) by (simp add: content_def)
  ultimately show ?thesis by blast
qed

theorem handed_out_buffer_witness:
  "\<exists>m b b'. buf_reachable buf_env0 m \<and> content m b = Some [7] \<and>
     fst (GetNextIOBufferPtr buf_env0 (ReleaseIOBuffer buf_env0 (Some b) m)) = Some b' \<and>
     is_zero (snd (GetNextIOBufferPtr buf_env0 (ReleaseIOBuffer buf_env0 (Some b) m))) b'"
proof -
  obtain m b where m: "buf_reachable buf_env0 m" "content m b = Some [7]" using buf_demo by blast
  then have "bufs m b \<noteq> None" by (cases "bufs m b") (simp_all add: content_def)
  then have "buf_reachable buf_env0 (ReleaseIOBuffer buf_env0 (Some b) m)"
    by (intro buf_reachable.step [OF m(1)] buf_step.release)
  from handed_out_buffer [OF this] show ?thesis using m by (metis prod.collapse)
qed

text \<open>Releasing a buffer does one of two things, as the random draw says. With 10 the buffer is
  cleared and becomes idle, and stays recorded as handed out, so it is both. Otherwise it is
  forgotten, with its content and the idle buffers left alone.\<close>

theorem released_buffer:
  assumes "buf_inv m" and "bufs m b \<noteq> None"
  shows "(let m' = ReleaseIOBuffer env (Some b) m
     in if 9 < buf_random env (buf_calls m)
        then is_zero m' b \<and> set (io_buffer_cache m') = insert b (set (io_buffer_cache m)) \<and>
             io_buffer_in_use m' = io_buffer_in_use m
        else io_buffer_cache m' = io_buffer_cache m \<and> blocks m' = blocks m \<and>
             um_keys (io_buffer_in_use m') = um_keys (io_buffer_in_use m) - {b})"
proof (cases "9 < buf_random env (buf_calls m)")
  case True
  let ?m0 = "m\<lparr>buf_calls := Suc (buf_calls m)\<rparr>"
  have "buf_inv ?m0" "bufs ?m0 b \<noteq> None" using assms by auto
  note r = ResetBuffer_props [OF this]
  have z: "is_zero (x\<lparr>io_buffer_cache := c\<rparr>) b = is_zero x b" for x c
    by (simp add: is_zero_def content_def GetBufferSize_def)
  show ?thesis
    using True r(2,4,5) unfolding Release_recycle [where env = env, OF True] Let_def by (simp add: z)
next
  case False
  then show ?thesis by (simp add: Release_drop)
qed

theorem released_buffer_witness:
  "set (io_buffer_cache (ReleaseIOBuffer buf_env0 (Some 1) (alloc_cached (buf_mgr_init\<lparr>buffer_size := 2\<rparr>)))) = {1}"
proof -
  let ?m = "alloc_cached (buf_mgr_init\<lparr>buffer_size := 2\<rparr>)"
  have i: "buf_inv (buf_mgr_init\<lparr>buffer_size := 2\<rparr>)" by (simp add: buf_inv_def buf_mgr_init_def)
  have "bufs ?m 1 \<noteq> None" "io_buffer_cache ?m = [1]"
    by (simp_all add: alloc_cached_eq fresh_buffer_def buf_mgr_init_def us_insert_def)
  then show ?thesis
    using released_buffer [OF alloc_cached_inv [OF i], of 1 buf_env0] by (simp add: buf_env0_def Let_def)
qed

end
