(* ===== verification/IOCP_Sockets.thy ===== *)
theory IOCP_Sockets
  imports GT_Interfaces GT_Config
begin

text \<open>
  \<open>GT_SocketPool_Manager\<close>: sockets created ahead of time (\<open>AcceptEx\<close> wants one per accept) and
  the map of those handed out. A \<open>SOCKET\<close> lives in a heap object of its own, shared by
  \<open>shared_ptr\<close>; \<open>sock_heap\<close> maps the object's address to the handle and \<open>closed_socks\<close> lists the
  arguments of \<open>closesocket\<close> in order. \<open>WSASocket\<close> and the element \<open>begin()\<close> denotes are the
  environment's. The pool is an \<open>exclusive_pool\<close>.
\<close>

record sock_env =
  sock_begin :: "nat \<Rightarrow> nat"
  env_WSASocket :: "nat \<Rightarrow> SOCKET"

record socket_pool =
  sp_poolsize :: size_t
  shared_socket_pool :: "addr list"
  tobereuse_socket_pool :: "(addr, addr) umap"
  socket_inuse_pool :: "(addr, addr) umap"
  sock_heap :: "addr \<Rightarrow> SOCKET option"
  next_sock :: addr
  closed_socks :: "SOCKET list"
  sock_calls :: nat
  begin_calls :: nat

definition socket_pool_init :: socket_pool where
  "socket_pool_init = \<lparr>sp_poolsize = 0, shared_socket_pool = [], tobereuse_socket_pool = [],
     socket_inuse_pool = [], sock_heap = (\<lambda>_. None), next_sock = 1, closed_socks = [],
     sock_calls = 0, begin_calls = 0\<rparr>"

definition new_socket :: "sock_env \<Rightarrow> socket_pool \<Rightarrow> addr \<times> socket_pool" where
  "new_socket env p =
     (next_sock p, p\<lparr>sock_heap := (sock_heap p)(next_sock p \<mapsto> env_WSASocket env (sock_calls p)),
                     next_sock := Suc (next_sock p), sock_calls := Suc (sock_calls p)\<rparr>)"

text \<open>One turn of the two allocation loops, and the loops \<open>while (poolsize_ < bnd)\<close>.\<close>

definition alloc_socket :: "sock_env \<Rightarrow> socket_pool \<Rightarrow> socket_pool" where
  "alloc_socket env p =
     (let (a, p1) = new_socket env p
      in p1\<lparr>shared_socket_pool := us_insert a (shared_socket_pool p1),
            sp_poolsize := sp_poolsize p1 + 1\<rparr>)"

lemma sp_poolsize_alloc [simp]: "sp_poolsize (alloc_socket env p) = sp_poolsize p + 1"
  by (simp add: alloc_socket_def new_socket_def)

lemma unat_Suc_less:
  fixes w v :: "'a::len word"
  assumes "w < v"
  shows "unat (w + 1) = Suc (unat w)"
proof -
  have "unat v < 2 ^ LENGTH('a)" by (rule unsigned_less)
  moreover have "unat w < unat v" using assms by (simp add: word_less_nat_alt)
  ultimately have "unat w + 1 < 2 ^ LENGTH('a)" by linarith
  then have "(unat w + 1) mod 2 ^ LENGTH('a) = unat w + 1" by (rule mod_less)
  then show ?thesis by (simp add: unat_word_ariths(1) mod_simps)
qed

function alloc_sockets :: "sock_env \<Rightarrow> size_t \<Rightarrow> socket_pool \<Rightarrow> socket_pool" where
  "alloc_sockets env bnd p =
     (if sp_poolsize p < bnd then alloc_sockets env bnd (alloc_socket env p) else p)"
  by pat_completeness auto
termination
  by (relation "measure (\<lambda>(env, bnd, p). unat bnd - unat (sp_poolsize p))")
    (auto simp: unat_Suc_less word_less_nat_alt)

declare alloc_sockets.simps [simp del]

definition PreAllocateSocket :: "sock_env \<Rightarrow> Json \<Rightarrow> socket_pool \<Rightarrow> bool \<times> socket_pool" where
  "PreAllocateSocket env cfg p =
     (let pre_allocate_num = GT_READ_CFG_INT cfg ''socket_pool_cfg'' ''pre_allocate_socket_num'' 3000
      in if sint pre_allocate_num \<le> 0 then (False, p)
         else (True, alloc_sockets env (int_to_size pre_allocate_num) p))"

definition sock_Initilize :: "sock_env \<Rightarrow> Json \<Rightarrow> socket_pool \<Rightarrow> bool \<times> socket_pool" where
  "sock_Initilize env cfg p = (let (ret, p1) = PreAllocateSocket env cfg p in (True, p1))"

definition ReAllocateSocket4Pool :: "sock_env \<Rightarrow> Json \<Rightarrow> socket_pool \<Rightarrow> socket_pool" where
  "ReAllocateSocket4Pool env cfg p =
     (let newsize = sp_poolsize p +
            int_to_size (GT_READ_CFG_INT cfg ''socket_pool_cfg'' ''reallocate_socket_num_pertime'' 300)
      in alloc_sockets env newsize p)"

definition UpdateSocketPool :: "sock_env \<Rightarrow> Json \<Rightarrow> socket_pool \<Rightarrow> socket_pool" where
  "UpdateSocketPool env cfg p =
     (if length (tobereuse_socket_pool p) <
         unat (int_to_size (GT_READ_CFG_INT cfg ''socket_pool_cfg'' ''size_to_rellocate'' 30))
      then ReAllocateSocket4Pool env cfg p else p)"

definition GetNextUnuseSocket :: "sock_env \<Rightarrow> Json \<Rightarrow> socket_pool \<Rightarrow> addr option \<times> socket_pool" where
  "GetNextUnuseSocket env cfg p =
     (let p1 = (if length (shared_socket_pool p) <
                   unat (int_to_size (GT_READ_CFG_INT cfg ''socket_pool_cfg'' ''size_to_rellocate'' 30))
                then UpdateSocketPool env cfg p else p)
      in if 0 < length (shared_socket_pool p1) then
           (let it = us_begin (sock_begin env (begin_calls p1)) (shared_socket_pool p1);
                iu = um_insert it it (socket_inuse_pool p1);
                temp_ptr = um_find it iu
            in (temp_ptr, p1\<lparr>socket_inuse_pool := iu,
                              shared_socket_pool := us_erase it (shared_socket_pool p1),
                              begin_calls := Suc (begin_calls p1)\<rparr>))
         else
           (let (a, p2) = new_socket env p1
            in (Some a, p2\<lparr>socket_inuse_pool := um_insert a a (socket_inuse_pool p2)\<rparr>)))"

definition closesocket :: "addr \<Rightarrow> socket_pool \<Rightarrow> socket_pool" where
  "closesocket a p =
     (case sock_heap p a of
        None \<Rightarrow> p
      | Some h \<Rightarrow> p\<lparr>closed_socks := closed_socks p @ [h]\<rparr>)"

definition CloseSockAndPush2ReusedPool :: "addr option \<Rightarrow> socket_pool \<Rightarrow> socket_pool" where
  "CloseSockAndPush2ReusedPool sock_ptr p =
     (case sock_ptr of
        None \<Rightarrow> p
      | Some a \<Rightarrow>
          (let p1 = closesocket a p
           in case um_find a (socket_inuse_pool p1) of
                Some _ \<Rightarrow> p1\<lparr>socket_inuse_pool := um_erase a (socket_inuse_pool p1)\<rparr>
              | None \<Rightarrow> p1))"

definition DestroyPool :: "socket_pool \<Rightarrow> socket_pool" where
  "DestroyPool p =
     (fold closesocket (map snd (socket_inuse_pool p)) p)
       \<lparr>shared_socket_pool := [], socket_inuse_pool := []\<rparr>"

definition CollectUnuseSocket :: "socket_pool \<Rightarrow> socket_pool" where
  "CollectUnuseSocket p =
     p\<lparr>socket_inuse_pool :=
         filter (\<lambda>e. sock_heap p (snd e) \<noteq> Some INVALID_SOCKET) (socket_inuse_pool p)\<rparr>"

text \<open>
  The cleaning loop that \<open>CollectUnuseSocket\<close> replaces, over the values its loop test reads.
\<close>

fun LongTimeWork4CleanClosedSocket ::
    "(addr \<Rightarrow> SOCKET option) \<Rightarrow> bool list \<Rightarrow> addr list \<Rightarrow> addr list" where
  "LongTimeWork4CleanClosedSocket heap [] inuse = inuse"
| "LongTimeWork4CleanClosedSocket heap (end_thread # flags) inuse =
     (if end_thread then inuse
      else LongTimeWork4CleanClosedSocket heap flags
             (filter (\<lambda>a. heap a \<noteq> Some INVALID_SOCKET) inuse))"

section \<open>Invariant\<close>

text \<open>
  Idle and handed-out sockets are disjoint, each is recorded once and exists; the pool of closed
  sockets to be reused is never filled.
\<close>

definition sock_inv :: "socket_pool \<Rightarrow> bool" where
  "sock_inv p =
     (distinct (shared_socket_pool p) \<and> um_ok (socket_inuse_pool p) \<and> um_self (socket_inuse_pool p) \<and>
      tobereuse_socket_pool p = [] \<and>
      set (shared_socket_pool p) \<inter> um_keys (socket_inuse_pool p) = {} \<and>
      (\<forall>a. sock_heap p a \<noteq> None \<longrightarrow> a < next_sock p) \<and>
      (\<forall>a \<in> set (shared_socket_pool p) \<union> um_keys (socket_inuse_pool p). sock_heap p a \<noteq> None))"

lemma sock_inv_init: "sock_inv socket_pool_init"
  by (simp add: sock_inv_def socket_pool_init_def)

lemma sock_inv_fresh:
  assumes "sock_inv p"
  shows "next_sock p \<notin> set (shared_socket_pool p)" "next_sock p \<notin> um_keys (socket_inuse_pool p)"
    "sock_heap p (next_sock p) = None"
  using assms unfolding sock_inv_def by (blast | fastforce)+

lemma alloc_socket_frame [frame_simps]:
  "socket_inuse_pool (alloc_socket env p) = socket_inuse_pool p"
  "closed_socks (alloc_socket env p) = closed_socks p"
  "tobereuse_socket_pool (alloc_socket env p) = tobereuse_socket_pool p"
  "begin_calls (alloc_socket env p) = begin_calls p"
  by (simp_all add: alloc_socket_def new_socket_def)

lemma alloc_socket_inv:
  assumes "sock_inv p"
  shows "sock_inv (alloc_socket env p)"
    and "length (shared_socket_pool (alloc_socket env p)) = Suc (length (shared_socket_pool p))"
  using assms sock_inv_fresh [OF assms]
  by (auto simp: sock_inv_def alloc_socket_def new_socket_def length_us_insert less_Suc_eq)

lemma alloc_sockets_induct:
  "(\<And>q. P q \<Longrightarrow> P (alloc_socket env q)) \<Longrightarrow> P p \<Longrightarrow> P (alloc_sockets env bnd p)"
proof (induction env bnd p rule: alloc_sockets.induct)
  case (1 env bnd p)
  show ?case
  proof (cases "sp_poolsize p < bnd")
    case True
    then have "P (alloc_sockets env bnd (alloc_socket env p))"
      using "1.IH" "1.prems" by blast
    then show ?thesis using True by (subst alloc_sockets.simps) simp
  next
    case False
    then show ?thesis using "1.prems"(2) by (subst alloc_sockets.simps) simp
  qed
qed

text \<open>What the loop computes: one socket for each step from the pool size to the bound.\<close>

lemma alloc_sockets_funpow:
  "alloc_sockets env bnd p = (alloc_socket env ^^ (unat bnd - unat (sp_poolsize p))) p"
proof (induction env bnd p rule: alloc_sockets.induct)
  case (1 env bnd p)
  show ?case
  proof (cases "sp_poolsize p < bnd")
    case True
    then have "unat bnd - unat (sp_poolsize p) =
        Suc (unat bnd - unat (sp_poolsize (alloc_socket env p)))"
      by (simp add: unat_Suc_less word_less_nat_alt)
    then show ?thesis
      using 1 True by (subst alloc_sockets.simps) (simp add: funpow_swap1)
  next
    case False
    then show ?thesis by (subst alloc_sockets.simps) (simp add: word_less_nat_alt)
  qed
qed

lemma alloc_sockets_inv:
  assumes "sock_inv p"
  shows "sock_inv (alloc_sockets env bnd p)"
    and "socket_inuse_pool (alloc_sockets env bnd p) = socket_inuse_pool p"
    and "length (shared_socket_pool (alloc_sockets env bnd p)) =
       length (shared_socket_pool p) + (unat bnd - unat (sp_poolsize p))"
proof -
  have n: "sock_inv ((alloc_socket env ^^ n) p) \<and>
     socket_inuse_pool ((alloc_socket env ^^ n) p) = socket_inuse_pool p \<and>
     length (shared_socket_pool ((alloc_socket env ^^ n) p)) = length (shared_socket_pool p) + n" for n
    using assms by (induction n) (auto simp: frame_simps alloc_socket_inv)
  show "sock_inv (alloc_sockets env bnd p)"
    and "socket_inuse_pool (alloc_sockets env bnd p) = socket_inuse_pool p"
    and "length (shared_socket_pool (alloc_sockets env bnd p)) =
       length (shared_socket_pool p) + (unat bnd - unat (sp_poolsize p))"
    using n by (simp_all add: alloc_sockets_funpow)
qed

lemma UpdateSocketPool_inv:
  assumes "sock_inv p"
  shows "sock_inv (UpdateSocketPool env cfg p)"
    and "socket_inuse_pool (UpdateSocketPool env cfg p) = socket_inuse_pool p"
  using alloc_sockets_inv [OF assms] assms
  by (auto simp: UpdateSocketPool_def ReAllocateSocket4Pool_def Let_def)

lemma sock_Initilize_inv:
  assumes "sock_inv p"
  shows "sock_inv (snd (sock_Initilize env cfg p))"
  using alloc_sockets_inv [OF assms] assms
  by (auto simp: sock_Initilize_def PreAllocateSocket_def Let_def)

definition sock_refill :: "sock_env \<Rightarrow> Json \<Rightarrow> socket_pool \<Rightarrow> socket_pool" where
  "sock_refill env cfg p =
     (if length (shared_socket_pool p) <
         unat (int_to_size (GT_READ_CFG_INT cfg ''socket_pool_cfg'' ''size_to_rellocate'' 30))
      then UpdateSocketPool env cfg p else p)"

lemma sock_refill_inv:
  assumes "sock_inv p"
  shows "sock_inv (sock_refill env cfg p)"
    and "socket_inuse_pool (sock_refill env cfg p) = socket_inuse_pool p"
  using UpdateSocketPool_inv [OF assms] assms by (auto simp: sock_refill_def)

lemma GetNextUnuseSocket_props:
  assumes inv: "sock_inv p" and get: "GetNextUnuseSocket env cfg p = (r, p')"
  shows "\<exists>a. r = Some a \<and> a \<notin> um_keys (socket_inuse_pool p) \<and> a \<notin> set (shared_socket_pool p') \<and>
       um_keys (socket_inuse_pool p') = insert a (um_keys (socket_inuse_pool p)) \<and>
       (\<exists>h. sock_heap p' a = Some h)"
    and "sock_inv p'"
proof -
  let ?p1 = "sock_refill env cfg p"
  have inv1: "sock_inv ?p1" and iu: "socket_inuse_pool ?p1 = socket_inuse_pool p"
    using sock_refill_inv [OF inv] by auto
  have "(\<exists>a. r = Some a \<and> a \<notin> um_keys (socket_inuse_pool p) \<and> a \<notin> set (shared_socket_pool p') \<and>
       um_keys (socket_inuse_pool p') = insert a (um_keys (socket_inuse_pool p)) \<and>
       (\<exists>h. sock_heap p' a = Some h)) \<and> sock_inv p'"
  proof (cases "shared_socket_pool ?p1 = []")
    case False
    let ?it = "us_begin (sock_begin env (begin_calls ?p1)) (shared_socket_pool ?p1)"
    have it: "?it \<in> set (shared_socket_pool ?p1)" using False by simp
    then have new: "?it \<notin> um_keys (socket_inuse_pool p)" using inv1 iu by (auto simp: sock_inv_def)
    have "r = Some ?it \<and> p' = ?p1\<lparr>socket_inuse_pool := um_insert ?it ?it (socket_inuse_pool ?p1),
        shared_socket_pool := us_erase ?it (shared_socket_pool ?p1),
        begin_calls := Suc (begin_calls ?p1)\<rparr>"
      using get False new iu um_find_None_iff [of ?it "socket_inuse_pool p"]
      unfolding GetNextUnuseSocket_def sock_refill_def [symmetric] Let_def by auto
    then show ?thesis using inv1 it new iu by (auto simp: sock_inv_def)
  next
    case True
    note f = sock_inv_fresh [OF inv1]
    have "r = Some (next_sock ?p1) \<and> p' = (snd (new_socket env ?p1))
        \<lparr>socket_inuse_pool := um_insert (next_sock ?p1) (next_sock ?p1) (socket_inuse_pool ?p1)\<rparr>"
      using get True
      unfolding GetNextUnuseSocket_def sock_refill_def [symmetric] Let_def
      by (auto simp: new_socket_def)
    then show ?thesis using inv1 f iu True by (auto simp: sock_inv_def new_socket_def)
  qed
  then show "\<exists>a. r = Some a \<and> a \<notin> um_keys (socket_inuse_pool p) \<and> a \<notin> set (shared_socket_pool p') \<and>
       um_keys (socket_inuse_pool p') = insert a (um_keys (socket_inuse_pool p)) \<and>
       (\<exists>h. sock_heap p' a = Some h)"
    and "sock_inv p'" by blast+
qed

lemma closesocket_frame [frame_simps]:
  "socket_inuse_pool (closesocket a p) = socket_inuse_pool p"
  "shared_socket_pool (closesocket a p) = shared_socket_pool p"
  "sock_heap (closesocket a p) = sock_heap p"
  "next_sock (closesocket a p) = next_sock p"
  "tobereuse_socket_pool (closesocket a p) = tobereuse_socket_pool p"
  "sp_poolsize (closesocket a p) = sp_poolsize p"
  by (simp_all add: closesocket_def split: option.splits)

lemma closesocket_inv [simp]: "sock_inv (closesocket a p) = sock_inv p"
  by (simp add: sock_inv_def frame_simps)

lemma CloseSock_keys:
  "um_keys (socket_inuse_pool (CloseSockAndPush2ReusedPool r p)) =
   um_keys (socket_inuse_pool p) - (case r of None \<Rightarrow> {} | Some a \<Rightarrow> {a})"
  by (auto simp: CloseSockAndPush2ReusedPool_def Let_def frame_simps um_find_None_iff
      split: option.splits)

lemma CloseSock_inv: "sock_inv p \<Longrightarrow> sock_inv (CloseSockAndPush2ReusedPool r p)"
  by (auto simp: CloseSockAndPush2ReusedPool_def Let_def frame_simps sock_inv_def split: option.splits)

lemma CloseSock_closed:
  "sock_heap p a = Some h \<Longrightarrow>
   closed_socks (CloseSockAndPush2ReusedPool (Some a) p) = closed_socks p @ [h]"
  by (auto simp: CloseSockAndPush2ReusedPool_def Let_def closesocket_def split: option.splits)

interpretation sp: exclusive_pool "GetNextUnuseSocket env cfg"
    "\<lambda>p. Some ` set (shared_socket_pool p)" "\<lambda>p. Some ` um_keys (socket_inuse_pool p)" sock_inv
    CloseSockAndPush2ReusedPool
  for env cfg
proof unfold_locales
  fix p r p'
  assume a: "sock_inv p" "GetNextUnuseSocket env cfg p = (r, p')"
  then show "sock_inv p'" by (rule GetNextUnuseSocket_props)
  from GetNextUnuseSocket_props(1) [OF a]
  show "Some ` um_keys (socket_inuse_pool p') = insert r (Some ` um_keys (socket_inuse_pool p))"
    and "r \<notin> Some ` set (shared_socket_pool p')"
    and "r \<notin> Some ` um_keys (socket_inuse_pool p)" by auto
next
  fix p r
  show "sock_inv p \<Longrightarrow> sock_inv (CloseSockAndPush2ReusedPool r p)" by (rule CloseSock_inv)
  show "Some ` um_keys (socket_inuse_pool (CloseSockAndPush2ReusedPool r p)) =
     Some ` um_keys (socket_inuse_pool p) - {r}"
    by (auto simp: CloseSock_keys split: option.splits)
qed

lemma fold_closesocket_frame [frame_simps]:
  "socket_inuse_pool (fold closesocket as p) = socket_inuse_pool p"
  "sock_heap (fold closesocket as p) = sock_heap p"
  "next_sock (fold closesocket as p) = next_sock p"
  "tobereuse_socket_pool (fold closesocket as p) = tobereuse_socket_pool p"
  "sp_poolsize (fold closesocket as p) = sp_poolsize p"
  by (induction as arbitrary: p) (simp_all add: frame_simps)

lemma fold_closesocket_closed:
  "\<forall>a \<in> set as. sock_heap p a = Some (f a) \<Longrightarrow>
   closed_socks (fold closesocket as p) = closed_socks p @ map f as"
  by (induction as arbitrary: p) (auto simp: frame_simps closesocket_def)

lemma DestroyPool_inv: "sock_inv p \<Longrightarrow> sock_inv (DestroyPool p)"
  by (auto simp: DestroyPool_def sock_inv_def frame_simps)

lemma CollectUnuseSocket_inv: "sock_inv p \<Longrightarrow> sock_inv (CollectUnuseSocket p)"
proof -
  assume a: "sock_inv p"
  have "um_keys (filter P (socket_inuse_pool p)) \<subseteq> um_keys (socket_inuse_pool p)" for P
    by (auto simp: um_keys_def)
  moreover have "um_ok (filter P (socket_inuse_pool p))" for P
    using a by (simp add: sock_inv_def um_ok_def distinct_map_filter)
  moreover have "um_self (filter P (socket_inuse_pool p))" for P
    using a by (simp add: sock_inv_def um_self_def)
  ultimately show ?thesis using a by (fastforce simp: sock_inv_def CollectUnuseSocket_def)
qed

section \<open>Socket objects are never destroyed by the pool\<close>

definition heap_le :: "socket_pool \<Rightarrow> socket_pool \<Rightarrow> bool" where
  "heap_le p q = (\<forall>a h. sock_heap p a = Some h \<longrightarrow> sock_heap q a = Some h)"

lemma heap_le_refl [simp]: "heap_le p p"
  by (simp add: heap_le_def)

lemma heap_le_trans: "heap_le p q \<Longrightarrow> heap_le q r \<Longrightarrow> heap_le p r"
  by (simp add: heap_le_def)

lemma heap_le_new_socket:
  "sock_inv p \<Longrightarrow> heap_le p (snd (new_socket env p))"
  using sock_inv_fresh(3) [of p] by (auto simp: heap_le_def new_socket_def)

lemma heap_le_alloc_sockets:
  assumes "sock_inv p"
  shows "heap_le p (alloc_sockets env bnd p)"
proof -
  have "sock_inv (alloc_sockets env bnd p) \<and> heap_le p (alloc_sockets env bnd p)"
  proof (rule alloc_sockets_induct)
    fix q assume q: "sock_inv q \<and> heap_le p q"
    then have "heap_le q (alloc_socket env q)"
      using sock_inv_fresh(3) [of q] by (auto simp: heap_le_def alloc_socket_def new_socket_def)
    then show "sock_inv (alloc_socket env q) \<and> heap_le p (alloc_socket env q)"
      using q alloc_socket_inv(1) heap_le_trans by blast
  qed (simp add: assms)
  then show ?thesis ..
qed

lemma heap_le_Update: "sock_inv p \<Longrightarrow> heap_le p (UpdateSocketPool env cfg p)"
  by (simp add: UpdateSocketPool_def ReAllocateSocket4Pool_def Let_def heap_le_alloc_sockets)

lemma heap_le_sock_Initilize: "sock_inv p \<Longrightarrow> heap_le p (snd (sock_Initilize env cfg p))"
  by (simp add: sock_Initilize_def PreAllocateSocket_def Let_def heap_le_alloc_sockets)

lemma heap_le_GetNext:
  assumes "sock_inv p" and "GetNextUnuseSocket env cfg p = (r, p')"
  shows "heap_le p p'"
proof -
  have r: "heap_le p (sock_refill env cfg p)"
    using heap_le_Update [OF assms(1)] by (simp add: sock_refill_def)
  have "heap_le (sock_refill env cfg p) p'"
    using assms(2) heap_le_new_socket [OF sock_refill_inv(1) [OF assms(1)], of env cfg]
    unfolding GetNextUnuseSocket_def sock_refill_def [symmetric] Let_def
    by (auto simp: heap_le_def split: if_splits prod.splits) (metis snd_conv)
  with r show ?thesis by (rule heap_le_trans)
qed

lemma heap_le_CloseSock: "heap_le p (CloseSockAndPush2ReusedPool r p)"
  by (auto simp: heap_le_def CloseSockAndPush2ReusedPool_def Let_def frame_simps split: option.splits)

lemma heap_le_DestroyPool: "heap_le p (DestroyPool p)"
  by (simp add: heap_le_def DestroyPool_def frame_simps)

section \<open>Runs of the pool and properties\<close>

inductive sock_step :: "sock_env \<Rightarrow> Json \<Rightarrow> socket_pool \<Rightarrow> socket_pool \<Rightarrow> bool" for env cfg where
  init: "sock_step env cfg p (snd (sock_Initilize env cfg p))"
| get: "sock_step env cfg p (snd (GetNextUnuseSocket env cfg p))"
| close: "sock_step env cfg p (CloseSockAndPush2ReusedPool r p)"
| collect: "sock_step env cfg p (CollectUnuseSocket p)"
| destroy: "sock_step env cfg p (DestroyPool p)"

inductive sock_reachable :: "sock_env \<Rightarrow> Json \<Rightarrow> socket_pool \<Rightarrow> bool" for env cfg where
  start: "sock_reachable env cfg socket_pool_init"
| step: "sock_reachable env cfg p \<Longrightarrow> sock_step env cfg p q \<Longrightarrow> sock_reachable env cfg q"

lemma sock_step_inv: "sock_step env cfg p q \<Longrightarrow> sock_inv p \<Longrightarrow> sock_inv q"
proof (induction rule: sock_step.induct)
  case (get p)
  then show ?case using GetNextUnuseSocket_props(2) [of p env cfg] by (metis prod.collapse)
qed (auto intro: sock_Initilize_inv CloseSock_inv CollectUnuseSocket_inv DestroyPool_inv)

lemma sock_reachable_inv: "sock_reachable env cfg p \<Longrightarrow> sock_inv p"
  by (induction rule: sock_reachable.induct) (auto intro: sock_inv_init sock_step_inv)

definition sock_env0 :: sock_env where
  "sock_env0 = \<lparr>sock_begin = (\<lambda>_. 0), env_WSASocket = (\<lambda>n. of_nat (100 + n))\<rparr>"

text \<open>C26: In every state a run of the socket pool reaches, asking \<open>n\<close> times in a row yields \<open>n\<close>
  different sockets that were not handed out before, the pool records exactly these in addition,
  and giving all of them back leaves the record as it was.\<close>

theorem acquired_sockets:
  assumes "sock_reachable env cfg p" and "acquire_many (GetNextUnuseSocket env cfg) n p = (rs, q)"
  shows "distinct rs \<and> length rs = n \<and> None \<notin> set rs \<and>
     set rs \<inter> Some ` um_keys (socket_inuse_pool p) = {} \<and>
     Some ` um_keys (socket_inuse_pool q) = set rs \<union> Some ` um_keys (socket_inuse_pool p) \<and>
     um_keys (socket_inuse_pool (fold CloseSockAndPush2ReusedPool rs q)) = um_keys (socket_inuse_pool p)"
proof -
  have i: "sock_inv p" by (rule sock_reachable_inv [OF assms(1)])
  have u: "Some ` um_keys (socket_inuse_pool q) = set rs \<union> Some ` um_keys (socket_inuse_pool p)"
    by (rule sp.acquire_many_used [OF i assms(2)])
  then have "None \<notin> set rs" by (metis UnI1 image_iff option.distinct(1))
  moreover have "Some ` um_keys (socket_inuse_pool (fold CloseSockAndPush2ReusedPool rs q)) =
      Some ` um_keys (socket_inuse_pool p)"
    by (rule sp.acquire_release_all [OF i assms(2)])
  then have "um_keys (socket_inuse_pool (fold CloseSockAndPush2ReusedPool rs q)) =
      um_keys (socket_inuse_pool p)" by (simp add: inj_image_eq_iff)
  ultimately show ?thesis
    using u sp.acquire_many_fresh [OF i assms(2)] length_acquire_many [of "GetNextUnuseSocket env cfg" n p]
      assms(2) by simp
qed

theorem acquired_sockets_witness:
  "length (fst (acquire_many (GetNextUnuseSocket sock_env0 JNull) 3 socket_pool_init)) = 3 \<and>
   distinct (fst (acquire_many (GetNextUnuseSocket sock_env0 JNull) 3 socket_pool_init))"
  using acquired_sockets [OF sock_reachable.start, of sock_env0 JNull 3] by (metis prod.collapse)

text \<open>A fresh pool that is initialised with a positive \<open>pre_allocate_socket_num\<close> holds exactly that
  many idle sockets and none in use; with any other value it holds none. It reports success in
  both cases, although the preallocation it calls reports failure in the second.\<close>

theorem initialised_pool:
  "fst (sock_Initilize env cfg socket_pool_init) \<and>
   socket_inuse_pool (snd (sock_Initilize env cfg socket_pool_init)) = [] \<and>
   length (shared_socket_pool (snd (sock_Initilize env cfg socket_pool_init))) =
     nat (sint (GT_READ_CFG_INT cfg ''socket_pool_cfg'' ''pre_allocate_socket_num'' 3000)) \<and>
   fst (PreAllocateSocket env cfg socket_pool_init) =
     (0 < sint (GT_READ_CFG_INT cfg ''socket_pool_cfg'' ''pre_allocate_socket_num'' 3000))"
proof -
  let ?n = "GT_READ_CFG_INT cfg ''socket_pool_cfg'' ''pre_allocate_socket_num'' 3000"
  note a = alloc_sockets_inv [OF sock_inv_init]
  have "sp_poolsize socket_pool_init = 0" "shared_socket_pool socket_pool_init = []"
    "socket_inuse_pool socket_pool_init = []" by (simp_all add: socket_pool_init_def)
  then show ?thesis
    using a(2,3) int_to_size_nonneg [of ?n]
    by (cases "sint ?n \<le> 0") (simp_all add: sock_Initilize_def PreAllocateSocket_def Let_def)
qed

text \<open>Destroying the pool closes exactly the sockets that are handed out, in the order of the map;
  the idle sockets are dropped without being closed.\<close>

theorem destroyed_pool:
  assumes "sock_reachable env cfg p"
  shows "closed_socks (DestroyPool p) =
      closed_socks p @ map (\<lambda>a. the (sock_heap p a)) (map snd (socket_inuse_pool p)) \<and>
    shared_socket_pool (DestroyPool p) = [] \<and> socket_inuse_pool (DestroyPool p) = []"
proof -
  have i: "sock_inv p" by (rule sock_reachable_inv [OF assms])
  have "snd ` set (socket_inuse_pool p) = um_keys (socket_inuse_pool p)"
    using i by (intro um_self_values) (simp add: sock_inv_def)
  then have "\<forall>a \<in> set (map snd (socket_inuse_pool p)). sock_heap p a = Some (the (sock_heap p a))"
    using i by (auto simp: sock_inv_def)
  from fold_closesocket_closed [OF this] show ?thesis by (simp add: DestroyPool_def)
qed

theorem destroyed_pool_witness: "closed_socks (DestroyPool socket_pool_init) = []"
  using destroyed_pool [OF sock_reachable.start] by (simp add: socket_pool_init_def)

text \<open>The size counter survives the destruction of the pool: a pool that is initialised, destroyed
  and initialised again with the same configuration has no idle socket.\<close>

theorem reinitialised_pool:
  "shared_socket_pool (snd (sock_Initilize env cfg
     (DestroyPool (snd (sock_Initilize env cfg socket_pool_init))))) = []"
proof -
  let ?n = "int_to_size (GT_READ_CFG_INT cfg ''socket_pool_cfg'' ''pre_allocate_socket_num'' 3000)"
  let ?p = "alloc_sockets env ?n socket_pool_init"
  have "sp_poolsize ((alloc_socket env ^^ k) q) = sp_poolsize q + of_nat k" for k q
    by (induction k) (simp_all add: algebra_simps)
  then have "sp_poolsize ?p = ?n"
    by (simp add: alloc_sockets_funpow socket_pool_init_def)
  then have "alloc_sockets env ?n (DestroyPool ?p) = DestroyPool ?p"
    by (simp add: alloc_sockets.simps DestroyPool_def frame_simps)
  moreover have "shared_socket_pool (DestroyPool q) = []" for q by (simp add: DestroyPool_def)
  ultimately show ?thesis by (simp add: sock_Initilize_def PreAllocateSocket_def Let_def)
qed

end
