(* ===== verification/IOCP_Context.thy ===== *)
theory IOCP_Context
  imports IOCP_Buffers IOCP_Sockets
begin

text \<open>
  \<open>GT_SocketConetxt\<close>, the completion key of a connection, and \<open>GT_Resource_Manager\<close>, which
  owns the contexts of all connections and drives the buffer manager and the socket pool. A
  context keeps the buffers of its pending operations; the manager keeps the contexts twice, in
  a map by address and in a set of the addresses it sweeps for connections that fell silent.
  The clock is the environment's, in ticks of 100 ns, one answer per question. So are the addresses of
  new contexts: any address but that of a context that exists, which may be one that a context
  had before it was destroyed.
\<close>

section \<open>The socket context\<close>

record SOCKADDR_IN =
  sin_port :: "16 word"
  sin_addr :: "32 word"

record sock_context =
  sock_type :: SOCKET_TYPE
  socket_shared_ptr :: "addr option"
  socket_addr :: "SOCKADDR_IN option"     \<comment> \<open>\<open>None\<close> while it is not initialised\<close>
  socket_io_buffer_cache :: "(addr, addr) umap"
  time_control :: int
  check_time :: cint

record res_env =
  re_buf :: buf_env
  re_sock :: sock_env
  re_now :: "nat \<Rightarrow> int"
  re_ctx_addr :: "nat \<Rightarrow> addr"          \<comment> \<open>where \<open>new\<close> puts a context\<close>

record res_mgr =
  rm_bufs :: buf_mgr
  rm_socks :: socket_pool
  ctxs :: "addr \<Rightarrow> sock_context option"
  next_ctx :: addr
  rm_enabled :: bool
  out_date_time_control :: cint
  connect_check_interval :: cint
  connect_check_joinable :: bool
  end_connect_check :: bool
  key_hash_set :: "addr list"           \<comment> \<open>\<open>completion_key_address_hash_set_\<close>\<close>
  key_ptr_cache :: "(addr, addr) umap"  \<comment> \<open>\<open>completion_key_ptr_cache_\<close>\<close>
  clock_calls :: nat

definition res_init :: res_mgr where
  "res_init = \<lparr>rm_bufs = buf_mgr_init, rm_socks = socket_pool_init, ctxs = (\<lambda>_. None),
     next_ctx = 1, rm_enabled = False, out_date_time_control = 100 * 1000,
     connect_check_interval = 20000, connect_check_joinable = False, end_connect_check = False,
     key_hash_set = [], key_ptr_cache = [], clock_calls = 0\<rparr>"

definition GT_SocketConetxt :: "int \<Rightarrow> sock_context" where
  "GT_SocketConetxt now =
     \<lparr>sock_type = NULL_SOCKET, socket_shared_ptr = None, socket_addr = None,
      socket_io_buffer_cache = [], time_control = now, check_time = 1\<rparr>"

definition upd_ctx :: "addr \<Rightarrow> (sock_context \<Rightarrow> sock_context) \<Rightarrow> res_mgr \<Rightarrow> res_mgr" where
  "upd_ctx c f r = r\<lparr>ctxs := (ctxs r)(c := map_option f (ctxs r c))\<rparr>"

definition ResetTimer :: "res_env \<Rightarrow> addr \<Rightarrow> res_mgr \<Rightarrow> res_mgr" where
  "ResetTimer env c r =
     (upd_ctx c (\<lambda>x. x\<lparr>time_control := re_now env (clock_calls r)\<rparr>) r)
       \<lparr>clock_calls := Suc (clock_calls r)\<rparr>"

definition IncremCheckTime :: "addr \<Rightarrow> res_mgr \<Rightarrow> res_mgr" where
  "IncremCheckTime c = upd_ctx c (\<lambda>x. x\<lparr>check_time := check_time x + 1\<rparr>)"

definition ResetCheckTime :: "addr \<Rightarrow> res_mgr \<Rightarrow> res_mgr" where
  "ResetCheckTime c = upd_ctx c (\<lambda>x. x\<lparr>check_time := 1\<rparr>)"

definition SetContextSocketAddr :: "addr \<Rightarrow> SOCKADDR_IN option \<Rightarrow> res_mgr \<Rightarrow> res_mgr" where
  "SetContextSocketAddr c a = upd_ctx c (\<lambda>x. x\<lparr>socket_addr := a\<rparr>)"

definition AddIOContext2Cache :: "addr \<Rightarrow> addr \<Rightarrow> res_mgr \<Rightarrow> res_mgr" where
  "AddIOContext2Cache c b =
     upd_ctx c (\<lambda>x. x\<lparr>socket_io_buffer_cache := um_insert b b (socket_io_buffer_cache x)\<rparr>)"

definition GetIOBufferCache :: "addr \<Rightarrow> res_mgr \<Rightarrow> (addr, addr) umap" where
  "GetIOBufferCache c r = (case ctxs r c of None \<Rightarrow> [] | Some x \<Rightarrow> socket_io_buffer_cache x)"

definition GetIOBufferPtr :: "addr \<Rightarrow> addr \<Rightarrow> res_mgr \<Rightarrow> addr option" where
  "GetIOBufferPtr c b r = um_find b (GetIOBufferCache c r)"

definition res_ReleaseIOBuffer :: "res_env \<Rightarrow> addr option \<Rightarrow> res_mgr \<Rightarrow> res_mgr" where
  "res_ReleaseIOBuffer env p r = r\<lparr>rm_bufs := ReleaseIOBuffer (re_buf env) p (rm_bufs r)\<rparr>"

definition ReleaseUsedIOContext :: "res_env \<Rightarrow> addr \<Rightarrow> addr \<Rightarrow> res_mgr \<Rightarrow> res_mgr" where
  "ReleaseUsedIOContext env c b r =
     (let iter = um_find b (GetIOBufferCache c r);
          r1 = res_ReleaseIOBuffer env (Some b) r
      in case iter of
           None \<Rightarrow> r1
         | Some _ \<Rightarrow>
             upd_ctx c (\<lambda>x. x\<lparr>socket_io_buffer_cache := um_erase b (socket_io_buffer_cache x)\<rparr>) r1)"

section \<open>The resource manager\<close>

text \<open>The product with 1000 is computed in \<open>int\<close>.\<close>

definition int_mult :: "cint \<Rightarrow> int \<Rightarrow> cint result" where
  "int_mult i k =
     (if - (2 ^ 31) \<le> sint i * k \<and> sint i * k < 2 ^ 31 then Inr (word_of_int (sint i * k))
      else Inl SignedOverflow)"

definition res_Initialize :: "res_env \<Rightarrow> Json \<Rightarrow> res_mgr \<Rightarrow> (bool \<times> res_mgr) result" where
  "res_Initialize env cfg r =
     (if rm_enabled r then Inr (rm_enabled r, r)
      else
        (let (ok, sp) = sock_Initilize (re_sock env) cfg (rm_socks r);
             r1 = r\<lparr>rm_socks := sp, rm_enabled := ok\<rparr>
         in if \<not> ok then Inr (rm_enabled r1, r1)
            else
              (let (ok2, bm) = buf_Initialize cfg (rm_bufs r1);
                   r2 = r1\<lparr>rm_bufs := bm, rm_enabled := ok2\<rparr>
               in if \<not> ok2 then Inr (rm_enabled r2, r2)
                  else
                    bindR (int_mult (GT_READ_CFG_INT cfg ''server_cfg'' ''out_date_control'' 120) 1000)
                      (\<lambda>od. bindR (int_mult
                           (GT_READ_CFG_INT cfg ''server_cfg'' ''connect_check_interval'' 30000) 1000)
                      (\<lambda>ci. Inr (rm_enabled r2, r2\<lparr>out_date_time_control := od,
                               connect_check_interval := ci, connect_check_joinable := True\<rparr>))))))"

definition GetCompletionKeyPtr :: "addr \<Rightarrow> res_mgr \<Rightarrow> addr option" where
  "GetCompletionKeyPtr k r = um_find k (key_ptr_cache r)"

text \<open>
  \<open>new\<close> returns an address that no context has, the one the environment names where it is free;
  \<open>next_ctx\<close> is above every address used so far.
\<close>

definition fresh_ctx :: "res_env \<Rightarrow> res_mgr \<Rightarrow> addr" where
  "fresh_ctx env r =
     (let a = re_ctx_addr env (clock_calls r) in if a \<noteq> 0 \<and> ctxs r a = None then a else next_ctx r)"

definition new_ctx :: "res_env \<Rightarrow> res_mgr \<Rightarrow> addr \<times> res_mgr" where
  "new_ctx env r =
     (let c = fresh_ctx env r
      in (c, r\<lparr>ctxs := (ctxs r)(c \<mapsto> GT_SocketConetxt (re_now env (clock_calls r))),
               next_ctx := max (next_ctx r) (Suc c), clock_calls := Suc (clock_calls r)\<rparr>))"

definition GetListenSocketCompletionKey ::
    "res_env \<Rightarrow> addr option \<Rightarrow> res_mgr \<Rightarrow> addr \<times> res_mgr" where
  "GetListenSocketCompletionKey env sock_ptr r =
     (let (c, r1) = new_ctx env r
      in (c, upd_ctx c (\<lambda>x. x\<lparr>sock_type := LISTEN_SOCKET, socket_shared_ptr := sock_ptr\<rparr>) r1))"

definition GetCachedSocket :: "res_env \<Rightarrow> Json \<Rightarrow> res_mgr \<Rightarrow> addr option \<times> res_mgr" where
  "GetCachedSocket env cfg r =
     (let (s, sp) = GetNextUnuseSocket (re_sock env) cfg (rm_socks r) in (s, r\<lparr>rm_socks := sp\<rparr>))"

definition GetIOContextBuffer :: "res_env \<Rightarrow> res_mgr \<Rightarrow> addr option \<times> res_mgr" where
  "GetIOContextBuffer env r =
     (let (b, bm) = GetNextIOBufferPtr (re_buf env) (rm_bufs r) in (b, r\<lparr>rm_bufs := bm\<rparr>))"

definition CreateNewSocketContext ::
    "res_env \<Rightarrow> addr option \<Rightarrow> SOCKET_TYPE \<Rightarrow> res_mgr \<Rightarrow> addr \<times> res_mgr" where
  "CreateNewSocketContext env sock_ptr type r =
     (let (c, r1) = new_ctx env r;
          r2 = upd_ctx c (\<lambda>x. x\<lparr>socket_shared_ptr := sock_ptr, sock_type := type\<rparr>) r1
      in (c, r2\<lparr>key_ptr_cache := um_insert c c (key_ptr_cache r2),
                key_hash_set := us_insert c (key_hash_set r2)\<rparr>))"

text \<open>
  \<open>ReleaseContext_\<close>; the buffers are released in the order of the context's map. The map of the
  manager holds the owning pointer, so that the context is destroyed when it is erased there and the
  caller, which does not use it any more, returns.
\<close>

definition ReleaseContext :: "res_env \<Rightarrow> addr \<Rightarrow> res_mgr \<Rightarrow> res_mgr" where
  "ReleaseContext env c r =
     (case ctxs r c of
        None \<Rightarrow> r
      | Some x \<Rightarrow>
          (let r1 = fold (\<lambda>p. res_ReleaseIOBuffer env (Some p))
                      (map snd (socket_io_buffer_cache x)) r;
               r2 = r1\<lparr>rm_socks := CloseSockAndPush2ReusedPool (socket_shared_ptr x) (rm_socks r1)\<rparr>
           in case um_find c (key_ptr_cache r2) of
                None \<Rightarrow> r2
              | Some _ \<Rightarrow>
                  r2\<lparr>key_ptr_cache := um_erase c (key_ptr_cache r2),
                     key_hash_set := us_erase c (key_hash_set r2),
                     ctxs := (ctxs r2)(c := None)\<rparr>))"

definition ReleaseCompletionKey :: "res_env \<Rightarrow> addr \<Rightarrow> res_mgr \<Rightarrow> res_mgr" where
  "ReleaseCompletionKey = ReleaseContext"

definition PushIOEvent2CompletionKey :: "addr \<Rightarrow> addr \<Rightarrow> res_mgr \<Rightarrow> res_mgr" where
  "PushIOEvent2CompletionKey c b r = AddIOContext2Cache c b r"

definition SetSocketContexAddr :: "addr \<Rightarrow> SOCKADDR_IN option \<Rightarrow> res_mgr \<Rightarrow> res_mgr" where
  "SetSocketContexAddr c a r = SetContextSocketAddr c a r"

text \<open>\<open>duration_cast<milliseconds>\<close> truncates towards zero.\<close>

definition millis_between :: "int \<Rightarrow> int \<Rightarrow> int" where
  "millis_between t now =
     (if t \<le> now then (now - t) div 10000 else - ((t - now) div 10000))"

text \<open>
  The sweep. \<open>ks\<close> is what is left of the iteration over the address set; after
  \<open>pri_ReleaseCompletionKey_\<close> the loop goes on with the two iterators it had, which is
  undefined where that call erased their elements.
\<close>

fun collector_loop :: "res_env \<Rightarrow> addr list \<Rightarrow> res_mgr \<Rightarrow> res_mgr result" where
  "collector_loop env [] r = Inr r"
| "collector_loop env (k # ks) r =
     (case um_find k (key_ptr_cache r) of
        None \<Rightarrow> collector_loop env ks r
      | Some c \<Rightarrow>
          (case ctxs r c of
             None \<Rightarrow> Inl UseAfterFree
           | Some x \<Rightarrow>
               (let d = millis_between (time_control x) (re_now env (clock_calls r));
                    r0 = r\<lparr>clock_calls := Suc (clock_calls r)\<rparr>
                in if d > sint (out_date_time_control r0) \<and> sock_type x = ACCEPTED_SOCKET then
                     if check_time x = 1 then collector_loop env ks (IncremCheckTime c r0)
                     else if check_time x = 2 then
                       (let r1 = ReleaseContext env c (ResetCheckTime c r0)
                        in if um_find k (key_ptr_cache r1) = None \<or> k \<notin> set (key_hash_set r1)
                           then Inl InvalidIterator
                           else collector_loop env ks
                                  (r1\<lparr>key_ptr_cache := um_erase k (key_ptr_cache r1),
                                      key_hash_set := us_erase k (key_hash_set r1)\<rparr>))
                     else collector_loop env ks r0
                   else collector_loop env ks r0)))"

definition ResourceCollector :: "res_env \<Rightarrow> res_mgr \<Rightarrow> res_mgr result" where
  "ResourceCollector env r = collector_loop env (key_hash_set r) r"

definition Resource_Collect_Func :: "res_mgr \<Rightarrow> res_mgr" where
  "Resource_Collect_Func r = r\<lparr>rm_socks := CollectUnuseSocket (rm_socks r)\<rparr>"

text \<open>
  The two worker loops, over what happens at each turn: the value of the end flag the loop test
  reads, and whether the wait ended by timeout. The \<open>bool\<close> of the result says whether the loop
  was left.
\<close>

fun Collect_Worker ::
    "('s \<Rightarrow> 's result) \<Rightarrow> (bool \<times> bool) list \<Rightarrow> 's \<Rightarrow> (bool \<times> 's) result" where
  "Collect_Worker func [] r = Inr (False, r)"
| "Collect_Worker func ((end_thread, timeout) # wakes) r =
     (if end_thread then Inr (True, r)
      else if timeout then bindR (func r) (Collect_Worker func wakes)
      else Collect_Worker func wakes r)"

fun Resource_Collect_Worker :: "('s \<Rightarrow> 's) \<Rightarrow> (bool \<times> bool) list \<Rightarrow> 's \<Rightarrow> bool \<times> 's" where
  "Resource_Collect_Worker func [] r = (False, r)"
| "Resource_Collect_Worker func ((end_thread, timeout) # wakes) r =
     (if \<not> end_thread then
        (if timeout then Resource_Collect_Worker func wakes (func r)
         else Resource_Collect_Worker func wakes r)
      else (True, r))"

definition CleanCache :: "res_mgr \<Rightarrow> res_mgr" where
  "CleanCache r =
     r\<lparr>key_ptr_cache := [], key_hash_set := [],
       ctxs := (\<lambda>c. if um_find c (key_ptr_cache r) = None then ctxs r c else None)\<rparr>"

definition ClearResource :: "res_mgr \<Rightarrow> res_mgr" where
  "ClearResource r =
     (let r1 = CleanCache r;
          r2 = r1\<lparr>rm_socks := DestroyPool (rm_socks r1)\<rparr>
      in r2\<lparr>rm_bufs := buf_Finalize (rm_bufs r2)\<rparr>)"

definition res_Finalize :: "res_mgr \<Rightarrow> res_mgr" where
  "res_Finalize r =
     (let r1 = r\<lparr>end_connect_check := True\<rparr>;
          r2 = (if connect_check_joinable r1 then r1\<lparr>connect_check_joinable := False\<rparr> else r1)
      in ClearResource r2)"

section \<open>Invariant\<close>

text \<open>
  Beside the invariants of the two pools: the map and the set hold the same addresses, each of an
  existing context, the map keyed by address; and a context's map holds existing buffers keyed by
  address. The check counter is 1 or 2.
\<close>

definition ctx_ok :: "buf_mgr \<Rightarrow> sock_context \<Rightarrow> bool" where
  "ctx_ok bm x =
     (um_ok (socket_io_buffer_cache x) \<and> um_self (socket_io_buffer_cache x) \<and>
      (\<forall>b \<in> um_keys (socket_io_buffer_cache x). bufs bm b \<noteq> None) \<and>
      (check_time x = 1 \<or> check_time x = 2))"

definition keys_ok :: "res_mgr \<Rightarrow> bool" where
  "keys_ok r =
     (um_ok (key_ptr_cache r) \<and> um_self (key_ptr_cache r) \<and> distinct (key_hash_set r) \<and>
      set (key_hash_set r) = um_keys (key_ptr_cache r) \<and>
      (\<forall>c. ctxs r c \<noteq> None \<longrightarrow> c < next_ctx r) \<and>
      (\<forall>c \<in> um_keys (key_ptr_cache r). ctxs r c \<noteq> None))"

definition rm_inv :: "res_mgr \<Rightarrow> bool" where
  "rm_inv r =
     (buf_inv (rm_bufs r) \<and> cache_zero (rm_bufs r) \<and> sock_inv (rm_socks r) \<and> keys_ok r \<and>
      (\<forall>c x. ctxs r c = Some x \<longrightarrow> ctx_ok (rm_bufs r) x))"

lemma rm_inv_init: "rm_inv res_init"
  by (simp add: rm_inv_def res_init_def buf_inv_init cache_zero_init sock_inv_init keys_ok_def)

lemma ctx_ok_mono:
  "ctx_ok bm x \<Longrightarrow> (\<And>b. bufs bm b \<noteq> None \<Longrightarrow> bufs bm' b \<noteq> None) \<Longrightarrow> ctx_ok bm' x"
  by (auto simp: ctx_ok_def)

lemma rm_inv_bufs:
  assumes "rm_inv r" and "buf_inv bm" and "cache_zero bm"
    and "\<And>b. bufs (rm_bufs r) b \<noteq> None \<Longrightarrow> bufs bm b \<noteq> None"
  shows "rm_inv (r\<lparr>rm_bufs := bm\<rparr>)"
proof -
  have "ctx_ok bm x" if "ctxs r c = Some x" for c x
    by (rule ctx_ok_mono [of "rm_bufs r"]) (use assms(1,4) that in \<open>auto simp: rm_inv_def\<close>)
  then show ?thesis using assms(1-3) by (simp add: rm_inv_def keys_ok_def)
qed

lemma rm_inv_socks: "rm_inv r \<Longrightarrow> sock_inv sp \<Longrightarrow> rm_inv (r\<lparr>rm_socks := sp\<rparr>)"
  by (simp add: rm_inv_def keys_ok_def)

lemma rm_inv_clock [simp]: "rm_inv (r\<lparr>clock_calls := n\<rparr>) = rm_inv r"
  by (simp add: rm_inv_def keys_ok_def)

lemma upd_ctx_inv:
  assumes "rm_inv r" and "\<And>x. ctxs r c = Some x \<Longrightarrow> ctx_ok (rm_bufs r) x \<Longrightarrow> ctx_ok (rm_bufs r) (f x)"
  shows "rm_inv (upd_ctx c f r)"
  using assms by (auto simp: rm_inv_def keys_ok_def upd_ctx_def)

lemma upd_ctx_frame [frame_simps]:
  "rm_bufs (upd_ctx c f r) = rm_bufs r" "rm_socks (upd_ctx c f r) = rm_socks r"
  "key_ptr_cache (upd_ctx c f r) = key_ptr_cache r" "key_hash_set (upd_ctx c f r) = key_hash_set r"
  "next_ctx (upd_ctx c f r) = next_ctx r" "clock_calls (upd_ctx c f r) = clock_calls r"
  "out_date_time_control (upd_ctx c f r) = out_date_time_control r"
  by (simp_all add: upd_ctx_def)

lemma ctxs_upd_ctx: "ctxs (upd_ctx c f r) k = (if k = c then map_option f (ctxs r c) else ctxs r k)"
  by (simp add: upd_ctx_def)

lemma ctx_setters_inv:
  assumes "rm_inv r"
  shows "rm_inv (ResetTimer env c r)" "rm_inv (SetContextSocketAddr c a r)"
    "rm_inv (ResetCheckTime c r)"
    "bufs (rm_bufs r) b \<noteq> None \<Longrightarrow> rm_inv (AddIOContext2Cache c b r)"
    "(\<And>x. ctxs r c = Some x \<Longrightarrow> check_time x = 1) \<Longrightarrow> rm_inv (IncremCheckTime c r)"
  unfolding ResetTimer_def SetContextSocketAddr_def ResetCheckTime_def AddIOContext2Cache_def
    IncremCheckTime_def rm_inv_clock
  by (auto intro!: upd_ctx_inv assms simp: ctx_ok_def)

lemma alloc_cached_n_bufs:
  "bufs m b \<noteq> None \<Longrightarrow> bufs ((alloc_cached ^^ n) m) b \<noteq> None"
  by (induction n) (auto simp: alloc_cached_eq fresh_buffer_def)

lemma GetNext_bufs:
  assumes "buf_inv m" and "GetNextIOBufferPtr env m = (p, m')" and "bufs m b \<noteq> None"
  shows "bufs m' b \<noteq> None"
proof -
  have r: "bufs (refill m) b \<noteq> None"
    using assms(3) alloc_cached_n_bufs by (auto simp: refill_def ReAllocateSomeIOBuffer_def Let_def)
  show ?thesis
  proof (cases "io_buffer_cache (refill m) = []")
    case True
    then show ?thesis using r assms(2) by (auto simp: GetNext_empty Let_def fresh_buffer_def)
  next
    case False
    then show ?thesis using r assms(2) by (auto simp: GetNext_cached [OF assms(1)] Let_def)
  qed
qed

lemma GetIOContextBuffer_props:
  assumes "rm_inv r" and "GetIOContextBuffer env r = (p, r')"
  shows "rm_inv r'" and "\<exists>b. p = Some b \<and> bufs (rm_bufs r') b \<noteq> None \<and>
       b \<notin> set (io_buffer_cache (rm_bufs r')) \<and> b \<in> um_keys (io_buffer_in_use (rm_bufs r'))"
    and "ctxs r' = ctxs r" "key_ptr_cache r' = key_ptr_cache r" "key_hash_set r' = key_hash_set r"
    "rm_socks r' = rm_socks r" "next_ctx r' = next_ctx r"
proof -
  obtain bm where g: "GetNextIOBufferPtr (re_buf env) (rm_bufs r) = (p, bm)" and r': "r' = r\<lparr>rm_bufs := bm\<rparr>"
    using assms(2) by (auto simp: GetIOContextBuffer_def split: prod.splits)
  have b: "buf_inv (rm_bufs r)" "cache_zero (rm_bufs r)" using assms(1) by (auto simp: rm_inv_def)
  note p = GetNext_props [OF b(1) g]
  show "rm_inv r'"
    unfolding r' using p b by (intro rm_inv_bufs assms(1) GetNext_bufs [OF b(1) g]) auto
  show "\<exists>b. p = Some b \<and> bufs (rm_bufs r') b \<noteq> None \<and>
       b \<notin> set (io_buffer_cache (rm_bufs r')) \<and> b \<in> um_keys (io_buffer_in_use (rm_bufs r'))"
    using p(1,3) by (auto simp: r')
qed (use assms(2) in \<open>auto simp: GetIOContextBuffer_def split: prod.splits\<close>)

lemma GetCachedSocket_props:
  assumes "rm_inv r" and "GetCachedSocket env cfg r = (s, r')"
  shows "rm_inv r'" and "\<exists>a h. s = Some a \<and> sock_heap (rm_socks r') a = Some h"
    and "ctxs r' = ctxs r" "key_ptr_cache r' = key_ptr_cache r" "key_hash_set r' = key_hash_set r"
    "rm_bufs r' = rm_bufs r" "next_ctx r' = next_ctx r"
proof -
  obtain sp where g: "GetNextUnuseSocket (re_sock env) cfg (rm_socks r) = (s, sp)"
    and r': "r' = r\<lparr>rm_socks := sp\<rparr>"
    using assms(2) by (auto simp: GetCachedSocket_def split: prod.splits)
  have "sock_inv (rm_socks r)" using assms(1) by (simp add: rm_inv_def)
  note p = GetNextUnuseSocket_props [OF this g]
  show "rm_inv r'" unfolding r' by (rule rm_inv_socks [OF assms(1) p(2)])
  show "\<exists>a h. s = Some a \<and> sock_heap (rm_socks r') a = Some h" using p(1) by (auto simp: r')
qed (use assms(2) in \<open>auto simp: GetCachedSocket_def split: prod.splits\<close>)

lemma res_ReleaseIOBuffer_inv:
  assumes "rm_inv r" and "\<And>b. p = Some b \<Longrightarrow> bufs (rm_bufs r) b \<noteq> None"
  shows "rm_inv (res_ReleaseIOBuffer env p r)"
    and "bufs (rm_bufs (res_ReleaseIOBuffer env p r)) = bufs (rm_bufs r)"
proof -
  have b: "buf_inv (rm_bufs r)" "cache_zero (rm_bufs r)" using assms(1) by (auto simp: rm_inv_def)
  note p = Release_props [where env = "re_buf env", OF b(1) assms(2)]
  show "rm_inv (res_ReleaseIOBuffer env p r)"
    unfolding res_ReleaseIOBuffer_def using p b by (intro rm_inv_bufs assms(1)) auto
  show "bufs (rm_bufs (res_ReleaseIOBuffer env p r)) = bufs (rm_bufs r)"
    using p by (simp add: res_ReleaseIOBuffer_def)
qed

lemma res_ReleaseIOBuffer_frame [frame_simps]:
  "ctxs (res_ReleaseIOBuffer env p r) = ctxs r"
  "key_ptr_cache (res_ReleaseIOBuffer env p r) = key_ptr_cache r"
  "key_hash_set (res_ReleaseIOBuffer env p r) = key_hash_set r"
  "rm_socks (res_ReleaseIOBuffer env p r) = rm_socks r"
  "next_ctx (res_ReleaseIOBuffer env p r) = next_ctx r"
  "clock_calls (res_ReleaseIOBuffer env p r) = clock_calls r"
  "out_date_time_control (res_ReleaseIOBuffer env p r) = out_date_time_control r"
  by (simp_all add: res_ReleaseIOBuffer_def)

lemma fold_release_frame [frame_simps]:
  "ctxs (fold (\<lambda>p. res_ReleaseIOBuffer env (Some p)) ps r) = ctxs r"
  "key_ptr_cache (fold (\<lambda>p. res_ReleaseIOBuffer env (Some p)) ps r) = key_ptr_cache r"
  "key_hash_set (fold (\<lambda>p. res_ReleaseIOBuffer env (Some p)) ps r) = key_hash_set r"
  "rm_socks (fold (\<lambda>p. res_ReleaseIOBuffer env (Some p)) ps r) = rm_socks r"
  "next_ctx (fold (\<lambda>p. res_ReleaseIOBuffer env (Some p)) ps r) = next_ctx r"
  "clock_calls (fold (\<lambda>p. res_ReleaseIOBuffer env (Some p)) ps r) = clock_calls r"
  "out_date_time_control (fold (\<lambda>p. res_ReleaseIOBuffer env (Some p)) ps r) = out_date_time_control r"
  by (induction ps arbitrary: r) (simp_all add: frame_simps)

lemma fold_release_inv:
  "rm_inv r \<Longrightarrow> (\<And>b. b \<in> set ps \<Longrightarrow> bufs (rm_bufs r) b \<noteq> None) \<Longrightarrow>
   rm_inv (fold (\<lambda>p. res_ReleaseIOBuffer env (Some p)) ps r) \<and>
   bufs (rm_bufs (fold (\<lambda>p. res_ReleaseIOBuffer env (Some p)) ps r)) = bufs (rm_bufs r)"
proof (induction ps arbitrary: r)
  case (Cons p ps)
  let ?r = "res_ReleaseIOBuffer env (Some p) r"
  have 1: "rm_inv ?r" "bufs (rm_bufs ?r) = bufs (rm_bufs r)"
    using res_ReleaseIOBuffer_inv [OF Cons.prems(1), of "Some p"] Cons.prems(2) by auto
  then show ?case using Cons.IH [OF 1(1)] Cons.prems(2) by simp
qed simp

lemma ReleaseUsedIOContext_inv:
  assumes "rm_inv r" and "bufs (rm_bufs r) b \<noteq> None"
  shows "rm_inv (ReleaseUsedIOContext env c b r)"
proof -
  have "rm_inv (res_ReleaseIOBuffer env (Some b) r)"
    using assms by (intro res_ReleaseIOBuffer_inv) auto
  then show ?thesis
    by (auto simp: ReleaseUsedIOContext_def Let_def ctx_ok_def split: option.splits
        intro!: upd_ctx_inv)
qed

lemma rm_inv_erase_key:
  "rm_inv r \<Longrightarrow>
   rm_inv (r\<lparr>key_ptr_cache := um_erase c (key_ptr_cache r), key_hash_set := us_erase c (key_hash_set r),
     ctxs := (ctxs r)(c := None)\<rparr>)"
  by (auto simp: rm_inv_def keys_ok_def)

lemma ReleaseContext_inv:
  assumes "rm_inv r"
  shows "rm_inv (ReleaseContext env c r)"
proof (cases "ctxs r c")
  case (Some x)
  let ?r1 = "fold (\<lambda>p. res_ReleaseIOBuffer env (Some p)) (map snd (socket_io_buffer_cache x)) r"
  let ?r2 = "?r1\<lparr>rm_socks := CloseSockAndPush2ReusedPool (socket_shared_ptr x) (rm_socks ?r1)\<rparr>"
  have ok: "ctx_ok (rm_bufs r) x" using assms Some by (auto simp: rm_inv_def)
  have "snd ` set (socket_io_buffer_cache x) = um_keys (socket_io_buffer_cache x)"
    using ok by (intro um_self_values) (simp add: ctx_ok_def)
  then have "\<And>b. b \<in> set (map snd (socket_io_buffer_cache x)) \<Longrightarrow> bufs (rm_bufs r) b \<noteq> None"
    using ok by (simp add: ctx_ok_def)
  then have "rm_inv ?r1" using fold_release_inv [OF assms] by blast
  then have i: "rm_inv ?r2" by (intro rm_inv_socks CloseSock_inv) (simp_all add: rm_inv_def)
  have "rm_inv (?r2\<lparr>key_ptr_cache := um_erase c (key_ptr_cache ?r2), key_hash_set := us_erase c (key_hash_set ?r2),
      ctxs := (ctxs ?r2)(c := None)\<rparr>)"
    using i by (rule rm_inv_erase_key)
  then show ?thesis using i by (simp add: ReleaseContext_def Some Let_def split: option.splits)
qed (simp add: ReleaseContext_def assms)

lemma ReleaseContext_keys:
  assumes "rm_inv r" and "ctxs r c \<noteq> None"
  shows "um_keys (key_ptr_cache (ReleaseContext env c r)) = um_keys (key_ptr_cache r) - {c}"
    and "set (key_hash_set (ReleaseContext env c r)) = um_keys (key_ptr_cache r) - {c}"
    and "ctxs (ReleaseContext env c r) =
      (if c \<in> um_keys (key_ptr_cache r) then (ctxs r)(c := None) else ctxs r)"
proof -
  have k: "set (key_hash_set r) = um_keys (key_ptr_cache r)"
    using assms(1) by (simp add: rm_inv_def keys_ok_def)
  have n: "um_keys (key_ptr_cache r) - {c} = um_keys (key_ptr_cache r)" if "um_find c (key_ptr_cache r) = None"
    using that by (auto simp: um_find_None_iff)
  show "um_keys (key_ptr_cache (ReleaseContext env c r)) = um_keys (key_ptr_cache r) - {c}"
    using assms(2) n by (auto simp: ReleaseContext_def Let_def frame_simps split: option.splits)
  show "ctxs (ReleaseContext env c r) =
      (if c \<in> um_keys (key_ptr_cache r) then (ctxs r)(c := None) else ctxs r)"
    using assms(2) by (auto simp: ReleaseContext_def Let_def frame_simps um_keys_iff split: option.splits)
  show "set (key_hash_set (ReleaseContext env c r)) = um_keys (key_ptr_cache r) - {c}"
    using assms(2) n k by (auto simp: ReleaseContext_def Let_def frame_simps split: option.splits)
qed

lemma ReleaseContext_found:
  "rm_inv r \<Longrightarrow> ctxs r c \<noteq> None \<Longrightarrow> um_find c (key_ptr_cache (ReleaseContext env c r)) = None"
  by (simp add: um_find_None_iff ReleaseContext_keys(1))

lemma fresh_ctx_free: "rm_inv r \<Longrightarrow> ctxs r (fresh_ctx env r) = None"
  by (fastforce simp: fresh_ctx_def Let_def rm_inv_def keys_ok_def)

lemma new_ctx_inv:
  assumes "rm_inv r" and "new_ctx env r = (c, r')"
  shows "rm_inv r'" and "ctxs r c = None" and "ctxs r' c \<noteq> None" and "c \<notin> um_keys (key_ptr_cache r)"
proof -
  have c: "c = fresh_ctx env r" and "ctxs r' c \<noteq> None"
    using assms(2) by (auto simp: new_ctx_def Let_def)
  then show "ctxs r' c \<noteq> None" and n: "ctxs r c = None" using fresh_ctx_free [OF assms(1)] by simp_all
  then show "c \<notin> um_keys (key_ptr_cache r)" using assms(1) unfolding rm_inv_def keys_ok_def by blast
  have "ctx_ok bm (GT_SocketConetxt now)" for bm now
    by (simp add: ctx_ok_def GT_SocketConetxt_def)
  then show "rm_inv r'"
    using assms c by (auto simp: new_ctx_def Let_def rm_inv_def keys_ok_def less_max_iff_disj split: if_splits)
qed

lemma CreateNewSocketContext_props:
  assumes "rm_inv r" and "CreateNewSocketContext env s type r = (c, r')"
  shows "rm_inv r'" and "um_keys (key_ptr_cache r') = insert c (um_keys (key_ptr_cache r))"
    and "c \<notin> um_keys (key_ptr_cache r)"
    and "ctxs r' = (ctxs r)(c \<mapsto> (GT_SocketConetxt (re_now env (clock_calls r)))
           \<lparr>socket_shared_ptr := s, sock_type := type\<rparr>)"
    and "rm_bufs r' = rm_bufs r" "rm_socks r' = rm_socks r" "ctxs r c = None"
proof -
  obtain r1 where n: "new_ctx env r = (c, r1)"
    using assms(2) by (auto simp: CreateNewSocketContext_def Let_def split: prod.splits)
  note i = new_ctx_inv [OF assms(1) n]
  let ?r2 = "upd_ctx c (\<lambda>x. x\<lparr>socket_shared_ptr := s, sock_type := type\<rparr>) r1"
  have r': "r' = ?r2\<lparr>key_ptr_cache := um_insert c c (key_ptr_cache ?r2),
      key_hash_set := us_insert c (key_hash_set ?r2)\<rparr>"
    using assms(2) n by (auto simp: CreateNewSocketContext_def Let_def)
  have f: "ctxs r1 = (ctxs r)(c \<mapsto> GT_SocketConetxt (re_now env (clock_calls r)))" "key_ptr_cache r1 = key_ptr_cache r"
    "rm_bufs r1 = rm_bufs r" "rm_socks r1 = rm_socks r"
    using n by (auto simp: new_ctx_def Let_def)
  have i2: "rm_inv ?r2" using i(1) by (rule upd_ctx_inv) (simp add: ctx_ok_def)
  have "ctxs ?r2 c \<noteq> None" using i(3) by (simp add: ctxs_upd_ctx)
  then show "rm_inv r'" using i2 by (auto simp: rm_inv_def keys_ok_def r')
  show "um_keys (key_ptr_cache r') = insert c (um_keys (key_ptr_cache r))"
    by (auto simp: r' frame_simps f)
  show "c \<notin> um_keys (key_ptr_cache r)" "ctxs r c = None" using i(2,4) by simp_all
  show "ctxs r' = (ctxs r)(c \<mapsto> (GT_SocketConetxt (re_now env (clock_calls r)))
           \<lparr>socket_shared_ptr := s, sock_type := type\<rparr>)"
    by (simp add: r' upd_ctx_def f)
  show "rm_bufs r' = rm_bufs r" "rm_socks r' = rm_socks r"
    by (simp_all add: r' frame_simps f)
qed

lemma GetListenSocketCompletionKey_props:
  assumes "rm_inv r" and "GetListenSocketCompletionKey env s r = (c, r')"
  shows "rm_inv r'" and "ctxs r' c \<noteq> None" and "c \<notin> um_keys (key_ptr_cache r')"
    and "key_ptr_cache r' = key_ptr_cache r"
    and "ctxs r' = (ctxs r)(c \<mapsto> (GT_SocketConetxt (re_now env (clock_calls r)))
           \<lparr>sock_type := LISTEN_SOCKET, socket_shared_ptr := s\<rparr>)"
    and "rm_bufs r' = rm_bufs r" "rm_socks r' = rm_socks r"
proof -
  obtain r1 where n: "new_ctx env r = (c, r1)"
    using assms(2) by (auto simp: GetListenSocketCompletionKey_def Let_def split: prod.splits)
  note i = new_ctx_inv [OF assms(1) n]
  have r': "r' = upd_ctx c (\<lambda>x. x\<lparr>sock_type := LISTEN_SOCKET, socket_shared_ptr := s\<rparr>) r1"
    using assms(2) n by (auto simp: GetListenSocketCompletionKey_def)
  have f: "ctxs r1 = (ctxs r)(c \<mapsto> GT_SocketConetxt (re_now env (clock_calls r)))" "key_ptr_cache r1 = key_ptr_cache r"
    "rm_bufs r1 = rm_bufs r" "rm_socks r1 = rm_socks r"
    using n by (auto simp: new_ctx_def Let_def)
  show "rm_inv r'" unfolding r' using i(1) by (rule upd_ctx_inv) (simp add: ctx_ok_def)
  show "key_ptr_cache r' = key_ptr_cache r" by (simp add: r' frame_simps f)
  then show "c \<notin> um_keys (key_ptr_cache r')" using i(4) by simp
  show "ctxs r' c \<noteq> None" using i(3) by (simp add: r' ctxs_upd_ctx)
  show "ctxs r' = (ctxs r)(c \<mapsto> (GT_SocketConetxt (re_now env (clock_calls r)))
           \<lparr>sock_type := LISTEN_SOCKET, socket_shared_ptr := s\<rparr>)"
    by (simp add: r' upd_ctx_def f)
  show "rm_bufs r' = rm_bufs r" "rm_socks r' = rm_socks r" by (simp_all add: r' frame_simps f)
qed

section \<open>The sweep as a specification\<close>

text \<open>
  \<open>due\<close>: the connection \<open>k\<close> has been silent for too long at time \<open>now\<close>. \<open>due_keys\<close> lists
  the silent ones among \<open>ks\<close>, when the clock answers start at the \<open>n\<close>th.
\<close>

definition due :: "int \<Rightarrow> res_mgr \<Rightarrow> addr \<Rightarrow> bool" where
  "due now r k =
     (case ctxs r k of
        None \<Rightarrow> False
      | Some x \<Rightarrow> millis_between (time_control x) now > sint (out_date_time_control r) \<and>
                  sock_type x = ACCEPTED_SOCKET)"

definition second_check :: "res_mgr \<Rightarrow> addr \<Rightarrow> bool" where
  "second_check r k = (case ctxs r k of None \<Rightarrow> False | Some x \<Rightarrow> check_time x = 2)"

fun due_keys :: "res_env \<Rightarrow> nat \<Rightarrow> addr list \<Rightarrow> res_mgr \<Rightarrow> addr list" where
  "due_keys env n [] r = []"
| "due_keys env n (k # ks) r =
     (if due (re_now env n) r k then k # due_keys env (Suc n) ks r else due_keys env (Suc n) ks r)"

lemma due_keys_subset: "set (due_keys env n ks r) \<subseteq> set ks"
  by (induction ks arbitrary: n) auto

lemma due_cong:
  "ctxs r' k = ctxs r k \<Longrightarrow> out_date_time_control r' = out_date_time_control r \<Longrightarrow>
   due now r' k = due now r k"
  by (simp add: due_def split: option.splits)

lemma due_keys_cong:
  "(\<And>k. k \<in> set ks \<Longrightarrow> ctxs r' k = ctxs r k) \<Longrightarrow> out_date_time_control r' = out_date_time_control r \<Longrightarrow>
   due_keys env n ks r' = due_keys env n ks r"
  by (induction ks arbitrary: n) (simp_all add: due_cong [of r' _ r])

lemma IncremCheckTime_frame [frame_simps]:
  "key_ptr_cache (IncremCheckTime c r) = key_ptr_cache r"
  "key_hash_set (IncremCheckTime c r) = key_hash_set r"
  "clock_calls (IncremCheckTime c r) = clock_calls r"
  "out_date_time_control (IncremCheckTime c r) = out_date_time_control r"
  "k \<noteq> c \<Longrightarrow> ctxs (IncremCheckTime c r) k = ctxs r k"
  by (simp_all add: IncremCheckTime_def upd_ctx_def)

lemma IncremCheckTime_other: "k \<notin> ks \<Longrightarrow> j \<in> ks \<Longrightarrow> ctxs (IncremCheckTime k r) j = ctxs r j"
  by (auto simp: IncremCheckTime_def upd_ctx_def)

lemma Increm_clock:
  "(IncremCheckTime c r)\<lparr>clock_calls := n\<rparr> = IncremCheckTime c (r\<lparr>clock_calls := n\<rparr>)"
  by (simp add: IncremCheckTime_def upd_ctx_def)

lemma fold_Increm_clock:
  "(fold IncremCheckTime ks r)\<lparr>clock_calls := n\<rparr> = fold IncremCheckTime ks (r\<lparr>clock_calls := n\<rparr>)"
  by (induction ks arbitrary: r) (simp_all add: Increm_clock)

text \<open>What a sweep of \<open>ks\<close> yields from \<open>r'\<close>, with what is due read from \<open>r\<close>.\<close>

definition sweep_result :: "res_env \<Rightarrow> nat \<Rightarrow> addr list \<Rightarrow> res_mgr \<Rightarrow> res_mgr \<Rightarrow> res_mgr result" where
  "sweep_result env n ks r r' =
     (if \<exists>k \<in> set (due_keys env n ks r). second_check r k then Inl InvalidIterator
      else Inr ((fold IncremCheckTime (due_keys env n ks r) r')\<lparr>clock_calls := n + length ks\<rparr>))"

lemma sweep_result_cong:
  assumes "\<And>k. k \<in> set ks \<Longrightarrow> ctxs r1 k = ctxs r k" and "out_date_time_control r1 = out_date_time_control r"
  shows "sweep_result env n ks r1 r' = sweep_result env n ks r r'"
proof -
  have "due_keys env n ks r1 = due_keys env n ks r" using assms by (rule due_keys_cong)
  moreover have "second_check r1 k = second_check r k" if "k \<in> set (due_keys env n ks r)" for k
    using assms(1) [of k] that due_keys_subset [of env n ks r] by (auto simp: second_check_def)
  ultimately show ?thesis by (simp add: sweep_result_def)
qed

lemma collector_loop_spec:
  assumes "rm_inv r" and "distinct ks" and "set ks \<subseteq> um_keys (key_ptr_cache r)"
  shows "collector_loop env ks r = sweep_result env (clock_calls r) ks r r"
  using assms
proof (induction ks arbitrary: r)
  case Nil
  then show ?case by (simp add: sweep_result_def)
next
  case (Cons k ks)
  have self: "um_self (key_ptr_cache r)" using Cons.prems(1) by (simp add: rm_inv_def keys_ok_def)
  have key: "k \<in> um_keys (key_ptr_cache r)" and nk: "k \<notin> set ks" using Cons.prems(2,3) by simp_all
  have f: "um_find k (key_ptr_cache r) = Some k" using um_self_find_iff [OF self] key by blast
  obtain x where x: "ctxs r k = Some x"
    using Cons.prems(1) key by (auto simp: rm_inv_def keys_ok_def)
  have ct: "check_time x = 1 \<or> check_time x = 2"
    using Cons.prems(1) x by (auto simp: rm_inv_def ctx_ok_def)
  let ?r0 = "r\<lparr>clock_calls := Suc (clock_calls r)\<rparr>"
  have i0: "rm_inv ?r0" using Cons.prems(1) by simp
  have IH: "collector_loop env ks r' = sweep_result env (Suc (clock_calls r)) ks r r'"
    if "rm_inv r'" "clock_calls r' = Suc (clock_calls r)" "key_ptr_cache r' = key_ptr_cache r"
      "\<And>j. j \<in> set ks \<Longrightarrow> ctxs r' j = ctxs r j" "out_date_time_control r' = out_date_time_control r" for r'
    using Cons.IH [OF that(1)] Cons.prems(2,3) that sweep_result_cong [OF that(4,5)] by simp
  consider (no) "\<not> due (re_now env (clock_calls r)) r k"
    | (first) "due (re_now env (clock_calls r)) r k" "check_time x = 1"
    | (second) "due (re_now env (clock_calls r)) r k" "check_time x = 2" using ct by blast
  then show ?case
  proof cases
    case no
    then have "collector_loop env (k # ks) r = collector_loop env ks ?r0"
      using f x by (auto simp: Let_def due_def)
    then show ?thesis using IH [OF i0] no by (simp add: sweep_result_def fold_Increm_clock)
  next
    case first
    have i1: "rm_inv (IncremCheckTime k ?r0)" using i0 x first(2) by (intro ctx_setters_inv) auto
    have "collector_loop env (k # ks) r = collector_loop env ks (IncremCheckTime k ?r0)"
      using first f x by (auto simp: Let_def due_def)
    also have "\<dots> = sweep_result env (Suc (clock_calls r)) ks r (IncremCheckTime k ?r0)"
      by (rule IH [OF i1]) (use IncremCheckTime_other [OF nk] in \<open>auto simp: frame_simps\<close>)
    finally show ?thesis
      using first x by (simp add: sweep_result_def fold_Increm_clock Increm_clock second_check_def)
  next
    case second
    have "um_find k (key_ptr_cache (ReleaseContext env k (ResetCheckTime k ?r0))) = None"
      using ReleaseContext_found [OF ctx_setters_inv(3) [OF i0]] x
      by (simp add: ResetCheckTime_def ctxs_upd_ctx)
    then show ?thesis
      using second f x by (simp add: Let_def due_def second_check_def sweep_result_def)
  qed
qed

lemma ResourceCollector_spec:
  assumes "rm_inv r"
  shows "ResourceCollector env r =
     (if \<exists>k \<in> set (due_keys env (clock_calls r) (key_hash_set r) r). second_check r k
      then Inl InvalidIterator
      else Inr ((fold IncremCheckTime (due_keys env (clock_calls r) (key_hash_set r) r) r)
                  \<lparr>clock_calls := clock_calls r + length (key_hash_set r)\<rparr>))"
  unfolding ResourceCollector_def
  using collector_loop_spec [OF assms, of "key_hash_set r" env] assms
  by (auto simp: rm_inv_def keys_ok_def ResourceCollector_def sweep_result_def)

lemma fold_Increm_inv:
  "rm_inv r \<Longrightarrow> distinct ks \<Longrightarrow> (\<And>k. k \<in> set ks \<Longrightarrow> \<not> second_check r k) \<Longrightarrow>
   rm_inv (fold IncremCheckTime ks r)"
proof (induction ks arbitrary: r)
  case (Cons k ks)
  have "check_time x = 1" if "ctxs r k = Some x" for x
    using Cons.prems(1) Cons.prems(3) [of k] that by (auto simp: rm_inv_def ctx_ok_def second_check_def)
  then have "rm_inv (IncremCheckTime k r)" by (rule ctx_setters_inv(5) [OF Cons.prems(1)])
  moreover have "second_check (IncremCheckTime k r) j = second_check r j" if "j \<in> set ks" for j
    using IncremCheckTime_other [of k "set ks" j r] Cons.prems(2) that by (simp add: second_check_def)
  ultimately show ?case using Cons.prems(2,3) Cons.IH by auto
qed simp

lemma distinct_due_keys: "distinct ks \<Longrightarrow> distinct (due_keys env n ks r)"
  by (induction ks arbitrary: n) (use due_keys_subset in fastforce)+

lemma ResourceCollector_inv:
  assumes "rm_inv r" and "ResourceCollector env r = Inr r'"
  shows "rm_inv r'"
proof -
  have "distinct (key_hash_set r)" using assms(1) by (simp add: rm_inv_def keys_ok_def)
  then show ?thesis
    using assms fold_Increm_inv [OF assms(1) distinct_due_keys]
    by (auto simp: ResourceCollector_spec split: if_splits)
qed

lemma Collect_Worker_inv:
  assumes "\<And>s s'. P s \<Longrightarrow> func s = Inr s' \<Longrightarrow> P s'"
  shows "P s \<Longrightarrow> Collect_Worker func wakes s = Inr (b, s') \<Longrightarrow> P s'"
proof (induction wakes arbitrary: s)
  case (Cons w ws)
  obtain e t where w: "w = (e, t)" by (cases w)
  show ?case
    using Cons assms by (cases e; cases t) (auto simp: w bindR_eq_Inr)
qed simp

lemma ClearResource_inv: "rm_inv r \<Longrightarrow> rm_inv (ClearResource r)"
proof -
  assume i: "rm_inv r"
  then have "rm_inv (CleanCache r)" by (simp add: CleanCache_def rm_inv_def keys_ok_def)
  then have "rm_inv ((CleanCache r)\<lparr>rm_socks := DestroyPool (rm_socks (CleanCache r))\<rparr>)"
    by (intro rm_inv_socks DestroyPool_inv) (auto simp: rm_inv_def)
  moreover have "bufs (buf_Finalize m) = bufs m" for m
    by (simp add: buf_Finalize_def CleanIOBufferCache_def)
  ultimately show ?thesis
    unfolding ClearResource_def Let_def
    by (intro rm_inv_bufs) (auto simp: rm_inv_def intro: buf_Finalize_props)
qed

lemma res_Finalize_inv: "rm_inv r \<Longrightarrow> rm_inv (res_Finalize r)"
  unfolding res_Finalize_def Let_def
  by (rule ClearResource_inv) (auto simp: rm_inv_def keys_ok_def)

lemma res_Finalize_frame:
  "ctxs (res_Finalize r) c = (if c \<in> um_keys (key_ptr_cache r) then None else ctxs r c)"
  "key_ptr_cache (res_Finalize r) = []" "rm_socks (res_Finalize r) = DestroyPool (rm_socks r)"
  "rm_bufs (res_Finalize r) = buf_Finalize (rm_bufs r)"
  by (cases "um_find c (key_ptr_cache r)")
    (simp_all add: res_Finalize_def ClearResource_def CleanCache_def Let_def um_keys_iff)

lemma buf_Initialize_bufs:
  "bufs m b \<noteq> None \<Longrightarrow> bufs (snd (buf_Initialize cfg m)) b \<noteq> None"
  using alloc_cached_n_bufs [of "m\<lparr>pre_allocate_size := x, buffer_size := y, re_allocate_size := z\<rparr>" b for x y z]
  by (simp add: buf_Initialize_def PreAllocateSomeIOBuffer_def Let_def)

lemma rm_inv_cfg:
  "rm_inv (r\<lparr>rm_enabled := b\<rparr>) = rm_inv r"
  "rm_inv (r\<lparr>out_date_time_control := od, connect_check_interval := ci, connect_check_joinable := j\<rparr>) =
   rm_inv r"
  by (simp_all add: rm_inv_def keys_ok_def)

lemma res_Initialize_inv:
  assumes "rm_inv r" and "res_Initialize env cfg r = Inr (b, r')"
  shows "rm_inv r'"
proof -
  let ?sp = "snd (sock_Initilize (re_sock env) cfg (rm_socks r))"
  let ?bm = "snd (buf_Initialize cfg (rm_bufs r))"
  have s: "sock_inv (rm_socks r)" "buf_inv (rm_bufs r)" "cache_zero (rm_bufs r)"
    using assms(1) by (auto simp: rm_inv_def)
  have "rm_inv (r\<lparr>rm_socks := ?sp\<rparr>)"
    by (rule rm_inv_socks [OF assms(1) sock_Initilize_inv [OF s(1)]])
  then have 3: "rm_inv (r\<lparr>rm_socks := ?sp, rm_enabled := x\<rparr>)" for x
    using rm_inv_cfg(1) by blast
  have 4: "rm_inv (r\<lparr>rm_socks := ?sp, rm_enabled := x, rm_bufs := ?bm\<rparr>)" for x
    using buf_Initialize_props [OF s(2)] s(3) buf_Initialize_bufs
      rm_inv_bufs [OF 3 [of x], of ?bm] by (simp add: rm_inv_def keys_ok_def)
  have 5: "rm_inv (r\<lparr>rm_socks := ?sp, rm_bufs := ?bm\<rparr>)"
    using 4 [of "rm_enabled r"] by simp
  show ?thesis
    using assms 3 4 5 rm_inv_cfg
    by (auto simp: res_Initialize_def Let_def bindR_eq_Inr split: prod.splits if_splits)
qed

section \<open>Properties\<close>

definition res_env0 :: res_env where
  "res_env0 = \<lparr>re_buf = buf_env0, re_sock = sock_env0, re_now = (\<lambda>n. int n), re_ctx_addr = (\<lambda>_. 0)\<rparr>"

text \<open>C31: A new connection gets a key no other connection has; it is found under that key and no other
  lookup changes; when it is released its key is not found any more, again without an effect on
  the other connections.\<close>

theorem connection_lookup:
  assumes "rm_inv r" and "CreateNewSocketContext env s type r = (c, r')"
  shows "GetCompletionKeyPtr c r = None \<and> GetCompletionKeyPtr c r' = Some c \<and>
     GetCompletionKeyPtr c (ReleaseCompletionKey env c r') = None \<and>
     (\<forall>k. k = c \<or> GetCompletionKeyPtr k r' = GetCompletionKeyPtr k r \<and>
                 GetCompletionKeyPtr k (ReleaseCompletionKey env c r') = GetCompletionKeyPtr k r)"
proof -
  note p = CreateNewSocketContext_props [OF assms]
  have k0: "GetCompletionKeyPtr c r = None"
    using p(3) by (simp add: GetCompletionKeyPtr_def um_find_None_iff)
  have m: "key_ptr_cache r' = um_insert c c (key_ptr_cache r)"
    using assms(2) by (auto simp: CreateNewSocketContext_def new_ctx_def frame_simps Let_def)
  have ok: "um_ok (key_ptr_cache r)" using assms(1) by (simp add: rm_inv_def keys_ok_def)
  have f: "GetCompletionKeyPtr k r' = (if k = c then Some c else GetCompletionKeyPtr k r)" for k
    using um.find_ins [OF ok, of k c c] k0 by (auto simp: GetCompletionKeyPtr_def m)
  have c: "ctxs r' c \<noteq> None" using p(4) by simp
  then obtain x where x: "ctxs r' c = Some x" by blast
  have "key_ptr_cache (ReleaseContext env c r') = um_erase c (key_ptr_cache r')"
    using f [of c] by (auto simp: ReleaseContext_def x Let_def frame_simps GetCompletionKeyPtr_def)
  then have "GetCompletionKeyPtr k (ReleaseCompletionKey env c r') =
      (if k = c then None else GetCompletionKeyPtr k r')" for k
    by (simp add: ReleaseCompletionKey_def GetCompletionKeyPtr_def)
  then show ?thesis using f k0 by auto
qed

theorem connection_lookup_witness:
  "GetCompletionKeyPtr 1 (snd (CreateNewSocketContext res_env0 None ACCEPTED_SOCKET res_init)) = Some 1"
proof -
  have "fst (CreateNewSocketContext res_env0 None ACCEPTED_SOCKET res_init) = 1"
    by (simp add: CreateNewSocketContext_def new_ctx_def fresh_ctx_def res_env0_def Let_def res_init_def)
  then show ?thesis
    using connection_lookup [OF rm_inv_init, of res_env0 None ACCEPTED_SOCKET] by (metis prod.collapse)
qed

text \<open>C35: One sweep of the connections, from a state in order: a connection that has been silent too
  long for the first time is marked and nothing else changes; as soon as one of the silent
  connections was marked before, the sweep releases it and then uses iterators whose elements
  that release has erased.\<close>

theorem collector_sweep:
  assumes "rm_inv r"
  shows "ResourceCollector env r =
     (if \<exists>k \<in> set (due_keys env (clock_calls r) (key_hash_set r) r). second_check r k
      then Inl InvalidIterator
      else Inr ((fold IncremCheckTime (due_keys env (clock_calls r) (key_hash_set r) r) r)
                  \<lparr>clock_calls := clock_calls r + length (key_hash_set r)\<rparr>))"
  by (rule ResourceCollector_spec [OF assms])

definition res_late :: res_mgr where
  "res_late = (snd (CreateNewSocketContext res_env0 None ACCEPTED_SOCKET
     (res_init\<lparr>out_date_time_control := -1\<rparr>)))"

theorem collector_sweep_witness:
  "(case ResourceCollector res_env0 res_late of
      Inr r \<Rightarrow> ResourceCollector res_env0 r = Inl InvalidIterator | Inl _ \<Rightarrow> False)"
proof -
  have 0: "rm_inv (res_init\<lparr>out_date_time_control := -1\<rparr>)"
    using rm_inv_init by (simp add: rm_inv_def keys_ok_def)
  have i: "rm_inv res_late"
    unfolding res_late_def by (rule CreateNewSocketContext_props(1) [OF 0 prod.collapse [symmetric]])
  have late: "res_late = (res_init\<lparr>out_date_time_control := -1\<rparr>)
      \<lparr>ctxs := [1 \<mapsto> \<lparr>sock_type = ACCEPTED_SOCKET, socket_shared_ptr = None, socket_addr = None,
         socket_io_buffer_cache = [], time_control = 0, check_time = 1\<rparr>],
       next_ctx := 2, clock_calls := 1, key_ptr_cache := [(1, 1)], key_hash_set := [1]\<rparr>"
    by (simp add: res_late_def CreateNewSocketContext_def new_ctx_def fresh_ctx_def Let_def upd_ctx_def res_init_def
        GT_SocketConetxt_def res_env0_def um_insert_def us_insert_def)
  let ?r = "(IncremCheckTime 1 res_late)\<lparr>clock_calls := 2\<rparr>"
  have 1: "ResourceCollector res_env0 res_late = Inr ?r"
    using collector_sweep [OF i, of res_env0]
    by (simp add: late due_def second_check_def millis_between_def res_env0_def res_init_def
        IncremCheckTime_def upd_ctx_def)
  have "rm_inv ?r" using ResourceCollector_inv [OF i 1] .
  from collector_sweep [OF this, of res_env0] have "ResourceCollector res_env0 ?r = Inl InvalidIterator"
    by (simp add: late due_def second_check_def millis_between_def res_env0_def res_init_def
        IncremCheckTime_def upd_ctx_def)
  then show ?thesis using 1 by simp
qed

text \<open>The time limits of the configuration are multiplied by 1000 in \<open>int\<close>: initialising a manager
  whose pools come up ends in an overflow exactly when one of the two products leaves the range.\<close>

theorem initialise_overflow:
  assumes "\<not> rm_enabled r" and "fst (buf_Initialize cfg (rm_bufs r))"
  shows "res_Initialize env cfg r = Inl SignedOverflow \<longleftrightarrow>
     \<not> (\<bar>sint (GT_READ_CFG_INT cfg ''server_cfg'' ''out_date_control'' 120)\<bar> \<le> 2147483 \<and>
        \<bar>sint (GT_READ_CFG_INT cfg ''server_cfg'' ''connect_check_interval'' 30000)\<bar> \<le> 2147483)"
proof -
  have m: "int_mult i 1000 = Inl SignedOverflow \<longleftrightarrow> \<not> \<bar>sint i\<bar> \<le> 2147483"
    "int_mult i 1000 = Inl e \<Longrightarrow> e = SignedOverflow" for i e
    by (auto simp: int_mult_def split: if_splits)
  have s: "fst (sock_Initilize e cfg p)" for e p by (simp add: sock_Initilize_def split_beta)
  obtain sp where sp: "sock_Initilize (re_sock env) cfg (rm_socks r) = (True, sp)"
    using s [of "re_sock env" "rm_socks r"] by (cases "sock_Initilize (re_sock env) cfg (rm_socks r)") simp
  obtain bm where bm: "buf_Initialize cfg (rm_bufs r) = (True, bm)"
    using assms(2) by (cases "buf_Initialize cfg (rm_bufs r)") simp
  show ?thesis
    using assms(1) m [of "GT_READ_CFG_INT cfg ''server_cfg'' ''out_date_control'' 120"]
      m [of "GT_READ_CFG_INT cfg ''server_cfg'' ''connect_check_interval'' 30000"]
    by (cases "int_mult (GT_READ_CFG_INT cfg ''server_cfg'' ''out_date_control'' 120) 1000";
        cases "int_mult (GT_READ_CFG_INT cfg ''server_cfg'' ''connect_check_interval'' 30000) 1000")
      (auto simp: res_Initialize_def sp bm Let_def bindR_def)
qed

theorem initialise_overflow_witness:
  "res_Initialize res_env0 (JObject [(''server_cfg'', JObject [(''out_date_control'', JInt 3000000)])])
     (res_init\<lparr>rm_bufs := buf_mgr_init\<lparr>io_buffer_manager_inited := True\<rparr>\<rparr>) = Inl SignedOverflow"
  by (subst initialise_overflow)
    (simp_all add: res_init_def buf_Initialize_def buf_mgr_init_def GT_READ_CFG_INT_def cfg_get_def
      member_def minInt_def maxInt_def)

end
