(* ===== verification/IOCP_Core.thy ===== *)
theory IOCP_Core
  imports IOCP_Context GT_ThreadPool
begin

text \<open>
  \<open>GT_IOCPWrapper\<close>, the IOCP back end: initialisation, the posting of accept, read, write and
  exit operations, the handling of one completion, and shutdown. The operating system answers
  through the environment \<open>iocp_env\<close>, indexed by the number of calls made so far; the calls are
  recorded in order in \<open>os_log\<close>, together with the invocations of the user's callback. What the
  kernel has accepted and not completed is \<open>inflight\<close>: pairs of the completion key bound to the
  socket and the overlapped structure.

  A handler is one step of the model. The raw pointers that come back from the kernel are
  dereferenced by the code before any lookup: where no \<open>shared_ptr\<close> holds the object any more
  (\<open>buf_live\<close>, \<open>ctx_live\<close>), the step is \<open>Inl UseAfterFree\<close>. Addresses are not reused.
\<close>

section \<open>The operating system\<close>

type_synonym HANDLE = "64 word"

definition INVALID_HANDLE_VALUE :: HANDLE where "INVALID_HANDLE_VALUE = -1"
definition SOCKET_ERROR :: cint where "SOCKET_ERROR = -1"
definition WSA_IO_PENDING :: dword where "WSA_IO_PENDING = 997"

datatype os_call =
    WSARecv SOCKET addr
  | WSASend SOCKET addr dword            \<comment> \<open>the third argument, the number of buffers\<close>
  | AcceptEx SOCKET SOCKET addr dword    \<comment> \<open>the length offered for the first data\<close>
  | CreateIoCompletionPort SOCKET addr
  | PostQueuedCompletionStatus addr addr
  | CallBack IO_EVENT_TYPE addr addr dword
  | WSASocket bool                       \<comment> \<open>the listening socket: \<open>SOCK_STREAM\<close> or \<open>SOCK_DGRAM\<close>\<close>
  | SetExclusiveAddrUse SOCKET
  | BindTo SOCKET SOCKADDR_IN
  | ListenOn SOCKET
  | WSACleanup

record iocp_env =
  ie_res :: res_env
  ie_concurrency :: "32 word"
  ie_WSAStartup :: cint
  ie_version :: "byte \<times> byte"
  ie_bind :: cint
  ie_listen :: cint
  ie_AcceptEx_addr :: bool
  ie_SockAddrs_addr :: bool
  ie_new_port :: HANDLE
  ie_ret :: "nat \<Rightarrow> cint"        \<comment> \<open>result of the n-th call\<close>
  ie_err :: "nat \<Rightarrow> dword"       \<comment> \<open>\<open>WSAGetLastError\<close> after it\<close>
  ie_port :: "nat \<Rightarrow> HANDLE"     \<comment> \<open>result, where it is a handle\<close>
  ie_remote :: "nat \<Rightarrow> SOCKADDR_IN"
  ie_thread_ends :: "addr \<Rightarrow> bool"   \<comment> \<open>whether a worker that was told to end returns\<close>

record iocp =
  res :: res_mgr
  is_inited :: bool
  completion_port :: HANDLE
  listen_socket_ptr :: "addr option"
  accept_key :: "addr option"
  serveraddr :: "SOCKADDR_IN option"
  iocp_pool :: thread_pool
  need_wait :: bool
  resource_worker_started :: bool
  thread_pool_started :: bool
  acceptex_func :: bool
  sockaddrs_func :: bool
  client_num :: "64 word"
  os_log :: "os_call list"
  assoc :: "SOCKET \<Rightarrow> addr option"
  inflight :: "(addr \<times> addr) list"

definition iocp_init :: iocp where
  "iocp_init = \<lparr>res = res_init, is_inited = False, completion_port = INVALID_HANDLE_VALUE,
     listen_socket_ptr = None, accept_key = None, serveraddr = None, iocp_pool = pool_init,
     need_wait = True, resource_worker_started = False, thread_pool_started = False,
     acceptex_func = False, sockaddrs_func = False, client_num = 0, os_log = [],
     assoc = (\<lambda>_. None), inflight = []\<rparr>"

definition n_threads :: "iocp_env \<Rightarrow> nat" where
  "n_threads env = unat (ie_concurrency env * 2)"

definition os :: "os_call \<Rightarrow> iocp \<Rightarrow> iocp" where
  "os call s = s\<lparr>os_log := os_log s @ [call]\<rparr>"

definition call_no :: "iocp \<Rightarrow> nat" where
  "call_no s = length (os_log s)"

definition on_res :: "(res_mgr \<Rightarrow> res_mgr) \<Rightarrow> iocp \<Rightarrow> iocp" where
  "on_res f s = s\<lparr>res := f (res s)\<rparr>"

definition on_bufs :: "(buf_mgr \<Rightarrow> buf_mgr) \<Rightarrow> iocp \<Rightarrow> iocp" where
  "on_bufs f s = on_res (\<lambda>r. r\<lparr>rm_bufs := f (rm_bufs r)\<rparr>) s"

definition bufs_of :: "iocp \<Rightarrow> buf_mgr" where
  "bufs_of s = rm_bufs (res s)"

text \<open>An accepted operation completes with the key its socket is associated with.\<close>

definition submit :: "SOCKET \<Rightarrow> addr \<Rightarrow> iocp \<Rightarrow> iocp" where
  "submit h b s =
     (case assoc s h of None \<Rightarrow> s | Some k \<Rightarrow> s\<lparr>inflight := inflight s @ [(k, b)]\<rparr>)"

text \<open>Dereferencing a \<open>shared_ptr<SOCKET>\<close>.\<close>

definition sock_val :: "addr option \<Rightarrow> iocp \<Rightarrow> SOCKET result" where
  "sock_val p s =
     (case p of
        None \<Rightarrow> Inl NullDeref
      | Some a \<Rightarrow> (case sock_heap (rm_socks (res s)) a of
                     None \<Rightarrow> Inl UseAfterFree | Some h \<Rightarrow> Inr h))"

definition ctx_live :: "addr \<Rightarrow> iocp \<Rightarrow> bool" where
  "ctx_live c s =
     (ctxs (res s) c \<noteq> None \<and> (um_find c (key_ptr_cache (res s)) \<noteq> None \<or> accept_key s = Some c))"

definition live_ctxs :: "iocp \<Rightarrow> addr list" where
  "live_ctxs s =
     map snd (key_ptr_cache (res s)) @ (case accept_key s of None \<Rightarrow> [] | Some c \<Rightarrow> [c])"

definition buf_live :: "addr \<Rightarrow> iocp \<Rightarrow> bool" where
  "buf_live b s =
     (bufs (bufs_of s) b \<noteq> None \<and>
      (b \<in> set (io_buffer_cache (bufs_of s)) \<or>
       um_find b (io_buffer_in_use (bufs_of s)) \<noteq> None \<or>
       list_ex (\<lambda>c. GetIOBufferPtr c b (res s) \<noteq> None) (live_ctxs s)))"

definition context_socket :: "addr \<Rightarrow> iocp \<Rightarrow> addr option" where
  "context_socket c s = Option.bind (ctxs (res s) c) socket_shared_ptr"

definition context_addr :: "addr \<Rightarrow> iocp \<Rightarrow> SOCKADDR_IN option" where
  "context_addr c s = Option.bind (ctxs (res s) c) socket_addr"

section \<open>Posting operations\<close>

definition BindSocketToCompletionPort ::
    "iocp_env \<Rightarrow> addr option \<Rightarrow> addr \<Rightarrow> iocp \<Rightarrow> (bool \<times> iocp) result" where
  "BindSocketToCompletionPort env sock_ptr key s =
     bindR (sock_val sock_ptr s) (\<lambda>h.
       let temp_port = ie_port env (call_no s);
           s1 = os (CreateIoCompletionPort h key) s;
           ok = (temp_port = completion_port s1)
       in Inr (ok, if ok then s1\<lparr>assoc := (assoc s1)(h \<mapsto> key)\<rparr> else s1))"

definition PostReadRequestEvent :: "iocp_env \<Rightarrow> addr \<Rightarrow> addr \<Rightarrow> iocp \<Rightarrow> iocp result" where
  "PostReadRequestEvent env c b s =
     bindR (sock_val (context_socket c s) s) (\<lambda>h.
       let ret = ie_ret env (call_no s); err = ie_err env (call_no s);
           s1 = os (WSARecv h b) s
       in Inr (if ret = SOCKET_ERROR \<and> WSA_IO_PENDING \<noteq> err
               then on_res (res_ReleaseIOBuffer (ie_res env) (Some b)) s1
               else submit h b s1))"

definition get_buffer :: "iocp_env \<Rightarrow> iocp \<Rightarrow> addr option \<times> iocp" where
  "get_buffer env s =
     (let (p, r) = GetIOContextBuffer (ie_res env) (res s) in (p, s\<lparr>res := r\<rparr>))"

definition get_socket :: "iocp_env \<Rightarrow> Json \<Rightarrow> iocp \<Rightarrow> addr option \<times> iocp" where
  "get_socket env cfg s =
     (let (p, r) = GetCachedSocket (ie_res env) cfg (res s) in (p, s\<lparr>res := r\<rparr>))"

definition PostAnotherReadRequest :: "iocp_env \<Rightarrow> addr \<Rightarrow> iocp \<Rightarrow> iocp result" where
  "PostAnotherReadRequest env c s =
     (let (overlappe_ptr, s1) = get_buffer env s
      in case overlappe_ptr of
           None \<Rightarrow> Inr s1
         | Some b \<Rightarrow>
             (let s2 = on_bufs (SetIOBufferEventType b IO_EVENT_READ) s1;
                  s3 = on_bufs (SetIOBufferSocket b (context_socket c s2)) s2;
                  s4 = on_res (SetContextSocketAddr c (context_addr c s3)) s3;
                  s5 = on_res (AddIOContext2Cache c b) s4
              in PostReadRequestEvent env c b s5))"

text \<open>
  The two \<open>PostWriteRequestEvent\<close>; the second takes the raw pointer the user holds.
  \<open>GetBufferSize()\<close> is passed where \<open>WSASend\<close> expects the number of WSABUFs.
\<close>

definition PostWriteRequestEvent :: "iocp_env \<Rightarrow> addr \<Rightarrow> addr \<Rightarrow> iocp \<Rightarrow> iocp result" where
  "PostWriteRequestEvent env c b s =
     bindR (sock_val (context_socket c s) s) (\<lambda>h.
       let ret = ie_ret env (call_no s); err = ie_err env (call_no s);
           s1 = os (WSASend h b (ucast (GetBufferSize b (bufs_of s)))) s
       in Inr (if ret = SOCKET_ERROR \<and> WSA_IO_PENDING \<noteq> err then s1 else submit h b s1))"

definition PostWriteRequestEvent_raw :: "iocp_env \<Rightarrow> addr \<Rightarrow> addr \<Rightarrow> iocp \<Rightarrow> iocp result" where
  "PostWriteRequestEvent_raw env c b s =
     (if \<not> ctx_live c s then Inl UseAfterFree else PostWriteRequestEvent env c b s)"

text \<open>\<open>(sizeof(sockaddr_in) + 16) * 2\<close> is 64.\<close>

definition accept_len :: "size_t \<Rightarrow> dword" where
  "accept_len len = ucast (len - 64)"

text \<open>One turn of the loop of \<open>PostAnotherAcceptEvent_\<close>; the \<open>bool\<close> says that it returned.\<close>

definition try_accept :: "iocp_env \<Rightarrow> Json \<Rightarrow> iocp \<Rightarrow> (bool \<times> iocp) result" where
  "try_accept env cfg s =
     (let (temp_ptr, s1) = get_buffer env s
      in case temp_ptr of
           None \<Rightarrow> Inr (True, s1)
         | Some b \<Rightarrow>
             (let s2 = on_bufs (SetIOBufferEventType b IO_EVENT_ACCEPT) s1;
                  (sp, s3) = get_socket env cfg s2;
                  s4 = on_bufs (SetIOBufferSocket b sp) s3
              in case accept_key s4 of
                   None \<Rightarrow> Inl NullDeref
                 | Some ak \<Rightarrow>
                     (let s5 = on_res (AddIOContext2Cache ak b) s4
                      in case GetClientSocketPtr b (bufs_of s5) of
                           None \<Rightarrow> Inr (False, s5)
                         | Some _ \<Rightarrow>
                             bindR (sock_val (listen_socket_ptr s5) s5) (\<lambda>lh.
                             bindR (sock_val (GetClientSocketPtr b (bufs_of s5)) s5) (\<lambda>ch.
                             bindR (if acceptex_func s5 then Inr () else Inl NullDeref) (\<lambda>_.
                               let ret = (ie_ret env (call_no s5) \<noteq> 0); err = ie_err env (call_no s5);
                                   s6 = os (AcceptEx lh ch b (accept_len (GetBufferSize b (bufs_of s5)))) s5
                               in if ret = False \<and> WSA_IO_PENDING \<noteq> err
                                  then Inr (False, on_res (res_ReleaseIOBuffer (ie_res env) (Some b)) s6)
                                  else Inr (True, submit lh b s6)))))))"

definition PostAnotherAcceptEvent :: "iocp_env \<Rightarrow> Json \<Rightarrow> iocp \<Rightarrow> iocp result" where
  "PostAnotherAcceptEvent env cfg s =
     bindR (try_accept env cfg s) (\<lambda>(returned, s1).
       if returned then Inr s1
       else bindR (try_accept env cfg s1) (\<lambda>(_, s2). Inr s2))"

fun repeatR :: "nat \<Rightarrow> ('s \<Rightarrow> 's result) \<Rightarrow> 's \<Rightarrow> 's result" where
  "repeatR 0 f s = Inr s"
| "repeatR (Suc n) f s = bindR (f s) (repeatR n f)"

definition PrePostAcceptEvent :: "iocp_env \<Rightarrow> Json \<Rightarrow> iocp \<Rightarrow> iocp result" where
  "PrePostAcceptEvent env cfg = repeatR (n_threads env) (PostAnotherAcceptEvent env cfg)"

text \<open>
  One turn of the loop of \<open>PostExitEvent_\<close>; the \<open>bool\<close> says that it returned. Then the loop,
  with the number of turns left.
\<close>

definition exit_turn :: "iocp_env \<Rightarrow> Json \<Rightarrow> iocp \<Rightarrow> (bool \<times> iocp) result" where
  "exit_turn env cfg s =
     (let (temp_ptr, s1) = get_buffer env s
      in case temp_ptr of
           None \<Rightarrow> Inr (True, s1)
         | Some b \<Rightarrow>
             (let s2 = on_bufs (SetIOBufferEventType b IO_EVENT_EXIT) s1;
                  (sp, s3) = get_socket env cfg s2;
                  s4 = on_bufs (SetIOBufferSocket b sp) s3
              in case accept_key s4 of
                   None \<Rightarrow> Inl NullDeref
                 | Some ak \<Rightarrow>
                     (let s5 = on_res (AddIOContext2Cache ak b) s4;
                          s6 = os (PostQueuedCompletionStatus ak b) s5
                      in Inr (False, s6\<lparr>inflight := inflight s6 @ [(ak, b)]\<rparr>))))"

fun exit_loop :: "iocp_env \<Rightarrow> Json \<Rightarrow> nat \<Rightarrow> iocp \<Rightarrow> iocp result" where
  "exit_loop env cfg 0 s = Inr s"
| "exit_loop env cfg (Suc n) s =
     bindR (exit_turn env cfg s) (\<lambda>(returned, s1).
       if returned then Inr s1 else exit_loop env cfg n s1)"

definition PostExitEvent :: "iocp_env \<Rightarrow> Json \<Rightarrow> iocp \<Rightarrow> iocp result" where
  "PostExitEvent env cfg = exit_loop env cfg (n_threads env)"

text \<open>\<open>SendDataUserInterface\<close>; \<open>data\<close> is what the user's pointer can be read from.\<close>

definition SendDataUserInterface ::
    "iocp_env \<Rightarrow> addr \<Rightarrow> byte list \<Rightarrow> size_t \<Rightarrow> iocp \<Rightarrow> iocp result" where
  "SendDataUserInterface env c data len s =
     (let (io_ptr, s1) = get_buffer env s
      in case io_ptr of
           None \<Rightarrow> Inr s1
         | Some b \<Rightarrow>
             (let s2 = on_bufs (\<lambda>m. snd (AllocateIOBufferBySize b len m)) s1
              in case Option.bind (GetWsaBuf b (bufs_of s2)) ws_buf of
                   None \<Rightarrow> Inl NullDeref
                 | Some blk \<Rightarrow>
                     if length data < unat len then Inl OutOfBounds
                     else PostWriteRequestEvent_raw env c b
                       (on_bufs (\<lambda>m. m\<lparr>blocks := (blocks m)(blk \<mapsto> take (unat len) data)\<rparr>) s2)))"

section \<open>Handling a completion\<close>

definition ProcessAcceptEvent :: "iocp_env \<Rightarrow> addr \<Rightarrow> iocp \<Rightarrow> iocp result" where
  "ProcessAcceptEvent env b s =
     (if \<not> sockaddrs_func s then Inl NullDeref else
      let sp = GetClientSocketPtr b (bufs_of s);
          remote = ie_remote env (call_no s);
          (c, r1) = CreateNewSocketContext (ie_res env) sp ACCEPTED_SOCKET (res s);
          s1 = s\<lparr>res := r1\<rparr>;
          (overlappe_ptr, s2) = get_buffer env s1
      in case overlappe_ptr of
           None \<Rightarrow> Inr s2
         | Some ob \<Rightarrow>
             (let s3 = on_bufs (SetIOBufferEventType ob IO_EVENT_READ) s2;
                  s4 = on_bufs (SetIOBufferSocket ob (GetClientSocketPtr b (bufs_of s3))) s3;
                  s5 = on_res (SetContextSocketAddr c (Some remote)) s4;
                  s6 = on_res (AddIOContext2Cache c ob) s5
              in bindR (BindSocketToCompletionPort env (context_socket c s6) c s6) (\<lambda>(ok, s7).
                   if \<not> ok then Inr s7 else PostReadRequestEvent env c ob s7)))"

record completion =
  c_ret :: bool
  c_bytes :: dword
  c_key :: "addr option"
  c_overlapped :: "addr option"

definition call_back :: "IO_EVENT_TYPE \<Rightarrow> addr \<Rightarrow> addr \<Rightarrow> dword \<Rightarrow> iocp \<Rightarrow> iocp" where
  "call_back type c b n s = os (CallBack type c b n) s"

text \<open>The chain of cases on the event, with the owning pointers looked up.\<close>

definition dispatch_event ::
    "iocp_env \<Rightarrow> Json \<Rightarrow> bool \<Rightarrow> dword \<Rightarrow> addr \<Rightarrow> addr \<Rightarrow> iocp \<Rightarrow> iocp result" where
  "dispatch_event env cfg ret n c b s =
     (let type = GetIOEventType b (bufs_of s)
      in if ret \<and> type = IO_EVENT_EXIT then Inr (s\<lparr>need_wait := False\<rparr>)
         else if ret \<and> type = IO_EVENT_ACCEPT then
           (let s1 = s\<lparr>client_num := client_num s + 1\<rparr>;
                s2 = (if n \<noteq> 0 then call_back IO_EVENT_READ c b n s1 else s1)
            in bindR (ProcessAcceptEvent env b s2) (\<lambda>s3.
               bindR (PostAnotherAcceptEvent env cfg s3) (\<lambda>s4.
                 Inr (on_res (ReleaseUsedIOContext (ie_res env) c b) s4))))
         else if ret \<and> type = IO_EVENT_READ \<and> n \<noteq> 0 then
           (let s1 = call_back IO_EVENT_READ c b n s;
                s2 = on_res (ResetTimer (ie_res env) c) s1
            in bindR (PostAnotherReadRequest env c s2) (\<lambda>s3.
                 Inr (on_res (ReleaseUsedIOContext (ie_res env) c b) s3)))
         else if ret \<and> type = IO_EVENT_WRITE then
           (let s1 = on_res (ResetTimer (ie_res env) c) s;
                s2 = call_back IO_EVENT_READ c b n s1
            in Inr (on_res (ReleaseUsedIOContext (ie_res env) c b) s2))
         else if type = IO_EVENT_READ \<and> n = 0 then
           Inr (on_res (ReleaseCompletionKey (ie_res env) c) s)
         else if \<not> ret then
           Inr (on_res (res_ReleaseIOBuffer (ie_res env) (Some b)) s)
         else
           Inr (on_res (res_ReleaseIOBuffer (ie_res env) (Some b)) s))"

definition find_owner :: "addr \<Rightarrow> addr \<Rightarrow> iocp \<Rightarrow> (addr option \<times> addr option) result" where
  "find_owner ck b s =
     (let type = GetIOEventType b (bufs_of s)
      in if type = IO_EVENT_ACCEPT \<or> type = IO_EVENT_EXIT then
           (case accept_key s of
              None \<Rightarrow> Inl NullDeref
            | Some ak \<Rightarrow> Inr (Some ak, GetIOBufferPtr ak b (res s)))
         else
           (case GetCompletionKeyPtr ck (res s) of
              None \<Rightarrow> Inr (None, None)
            | Some c \<Rightarrow> Inr (Some c, GetIOBufferPtr c b (res s))))"

text \<open>
  \<open>GetCompletionPortEventStatus\<close>: the test of the flag, and what is done with the completion
  \<open>GetQueuedCompletionStatus\<close> returns.
\<close>

definition handle_completion ::
    "iocp_env \<Rightarrow> Json \<Rightarrow> completion \<Rightarrow> iocp \<Rightarrow> iocp result" where
  "handle_completion env cfg ev s =
     (case (c_overlapped ev, c_key ev) of
        (Some b, Some ck) \<Rightarrow>
          if \<not> buf_live b s then Inl UseAfterFree
          else if GetIOEventType b (bufs_of s) = IO_EVENT_NULL then Inr s
          else
            bindR (find_owner ck b s) (\<lambda>(kp, bp).
              case (bp, kp) of
                (Some b', Some c) \<Rightarrow> dispatch_event env cfg (c_ret ev) (c_bytes ev) c b' s
              | _ \<Rightarrow> Inr (on_res (res_ReleaseIOBuffer (ie_res env) bp) s))
      | _ \<Rightarrow> Inr s)"

definition GetCompletionPortEventStatus ::
    "iocp_env \<Rightarrow> Json \<Rightarrow> completion \<Rightarrow> iocp \<Rightarrow> iocp result" where
  "GetCompletionPortEventStatus env cfg ev s =
     (if \<not> need_wait s then Inr s else handle_completion env cfg ev s)"

section \<open>Start and stop\<close>

text \<open>The guarded block of \<open>InitializeListenSocket_\<close>, for the socket \<open>h\<close>.\<close>

definition listen_on :: "iocp_env \<Rightarrow> Json \<Rightarrow> SOCKET \<Rightarrow> iocp \<Rightarrow> bool \<times> iocp" where
  "listen_on env cfg h s =
     (if GT_READ_CFG_BOOL cfg ''server_cfg'' ''enable_tcp_mode'' True \<and> h \<noteq> INVALID_SOCKET then
        (let a = \<lparr>sin_port = htons (GT_READ_CFG_INT cfg ''server_cfg'' ''server_port'' 5555), sin_addr = 0\<rparr>;
             s1 = s\<lparr>serveraddr := Some a\<rparr>;
             s2 = os (SetExclusiveAddrUse h) s1;
             s3 = os (BindTo h a) s2
         in if ie_bind env = SOCKET_ERROR then (False, s3)
            else
              (let s4 = os (ListenOn h) s3
               in if ie_listen env = SOCKET_ERROR then (False, s4) else (True, s4)))
      else (True, s))"

text \<open>\<open>CreateOverlappedSocket_\<close> makes a socket of the configured type, which is not one of the pool's.\<close>

definition CreateOverlappedSocket :: "iocp_env \<Rightarrow> bool \<Rightarrow> iocp \<Rightarrow> addr \<times> iocp" where
  "CreateOverlappedSocket env stream s =
     (let (a, sp) = new_socket (re_sock (ie_res env)) (rm_socks (res s))
      in (a, os (WSASocket stream) (on_res (\<lambda>r. r\<lparr>rm_socks := sp\<rparr>) s)))"

definition InitializeListenSocket :: "iocp_env \<Rightarrow> Json \<Rightarrow> iocp \<Rightarrow> (bool \<times> iocp) result" where
  "InitializeListenSocket env cfg s =
     (let (a, s1) = CreateOverlappedSocket env (GT_READ_CFG_BOOL cfg ''server_cfg'' ''enable_tcp_mode'' True) s;
          s2 = s1\<lparr>listen_socket_ptr := Some a\<rparr>
      in bindR (sock_val (listen_socket_ptr s2) s2) (\<lambda>h. Inr (listen_on env cfg h s2)))"

definition GetAcceptEXFuncAddress :: "iocp_env \<Rightarrow> iocp \<Rightarrow> bool \<times> iocp" where
  "GetAcceptEXFuncAddress env s =
     (let s1 = (if ie_AcceptEx_addr env then s\<lparr>acceptex_func := True\<rparr> else s)
      in (acceptex_func s1, s1))"

definition GetAcceptExSockAddrsFuncAddress :: "iocp_env \<Rightarrow> iocp \<Rightarrow> bool \<times> iocp" where
  "GetAcceptExSockAddrsFuncAddress env s =
     (let s1 = (if ie_SockAddrs_addr env then s\<lparr>sockaddrs_func := True\<rparr> else s)
      in (sockaddrs_func s1, s1))"

definition InitThreadPool :: "iocp_env \<Rightarrow> iocp \<Rightarrow> iocp" where
  "InitThreadPool env s =
     s\<lparr>iocp_pool := Start (n_threads env) (iocp_pool s), thread_pool_started := True\<rparr>"

text \<open>The tail of \<open>Initialize\<close>: the accept key and the first accepts, and before them the workers
  and the resources.\<close>

definition open_accept :: "iocp_env \<Rightarrow> Json \<Rightarrow> iocp \<Rightarrow> (bool \<times> iocp) result" where
  "open_accept env cfg s =
     (let s3 = s\<lparr>resource_worker_started := True\<rparr>;
          (ak, r2) = GetListenSocketCompletionKey (ie_res env) (listen_socket_ptr s3) (res s3);
          s4 = s3\<lparr>res := SetSocketContexAddr ak (serveraddr s3) r2, accept_key := Some ak\<rparr>
      in bindR (BindSocketToCompletionPort env (listen_socket_ptr s4) ak s4) (\<lambda>(ok, s5).
           if \<not> ok then Inr (False, s5)
           else bindR (PrePostAcceptEvent env cfg s5) (\<lambda>s6. Inr (True, s6))))"

definition init_services :: "iocp_env \<Rightarrow> Json \<Rightarrow> iocp \<Rightarrow> (bool \<times> iocp) result" where
  "init_services env cfg s =
     (let s1 = InitThreadPool env (s\<lparr>need_wait := False\<rparr>)
      in bindR (res_Initialize (ie_res env) cfg (res s1)) (\<lambda>(ret, r1).
           let s2 = s1\<lparr>res := r1\<rparr>
           in if \<not> ret then Inr (False, s2) else open_accept env cfg s2))"

text \<open>
  The body of the \<open>do ... while (0)\<close>, with the value \<open>ret\<close> has when it is left. Where the port
  is \<open>INVALID_HANDLE_VALUE\<close> that is still the \<open>true\<close> of the step before.
\<close>

definition init_body :: "iocp_env \<Rightarrow> Json \<Rightarrow> iocp \<Rightarrow> (bool \<times> iocp) result" where
  "init_body env cfg s =
     (if ie_WSAStartup env \<noteq> 0 then Inr (False, s)
      else if fst (ie_version env) \<noteq> 2 \<or> snd (ie_version env) \<noteq> 2 then Inr (False, s)
      else
        bindR (InitializeListenSocket env cfg s) (\<lambda>(ret1, s1).
          if \<not> ret1 then Inr (False, s1)
          else
            (let (ret2, s2) = GetAcceptEXFuncAddress env s1
             in if \<not> ret2 then Inr (False, s2)
                else
                  (let (ret3, s3) = GetAcceptExSockAddrsFuncAddress env s2
                   in if \<not> ret3 then Inr (False, s3)
                      else
                        (let s4 = s3\<lparr>completion_port := ie_new_port env\<rparr>
                         in if completion_port s4 = INVALID_HANDLE_VALUE then Inr (ret3, s4)
                            else init_services env cfg s4)))))"

definition iocp_Initialize :: "iocp_env \<Rightarrow> Json \<Rightarrow> iocp \<Rightarrow> (bool \<times> iocp) result" where
  "iocp_Initialize env cfg s =
     (if is_inited s then Inr (True, s)
      else
        bindR (init_body env cfg s) (\<lambda>(ret, s1).
          if ret then Inr (True, s1\<lparr>is_inited := True\<rparr>)
          else (let s2 = on_res res_Finalize (os WSACleanup s1) in Inr (is_inited s2, s2))))"

definition GTStartService :: "iocp \<Rightarrow> iocp" where
  "GTStartService s = s\<lparr>need_wait := True\<rparr>"

definition StopService :: "iocp_env \<Rightarrow> Json \<Rightarrow> iocp \<Rightarrow> (bool \<times> iocp) result" where
  "StopService env cfg s =
     bindR (PostExitEvent env cfg s) (\<lambda>s1.
     bindR (if thread_pool_started s1 then
              bindR (Stop (ie_thread_ends env) (iocp_pool s1)) (\<lambda>(_, p). Inr (s1\<lparr>iocp_pool := p\<rparr>))
            else Inr s1) (\<lambda>s2.
       Inr (True, if resource_worker_started s2 then on_res res_Finalize s2 else s2)))"

section \<open>Invariant of the resources\<close>

text \<open>
  \<open>rcore\<close> adds to the invariant of the resource manager what the posting code relies on: every
  context has a socket, every buffer that was given an event type has one too, and no buffer
  has the type \<open>IO_EVENT_WRITE\<close>.
\<close>

definition sock_ok :: "socket_pool \<Rightarrow> addr option \<Rightarrow> bool" where
  "sock_ok sp p = (\<exists>a h. p = Some a \<and> sock_heap sp a = Some h)"

definition bufs_typed :: "socket_pool \<Rightarrow> buf_mgr \<Rightarrow> bool" where
  "bufs_typed sp m =
     (\<forall>b x. bufs m b = Some x \<longrightarrow> io_event_type x \<noteq> IO_EVENT_WRITE \<and>
        (io_event_type x \<noteq> IO_EVENT_NULL \<longrightarrow> sock_ok sp (io_socket_ptr x)))"

definition ctxs_typed :: "socket_pool \<Rightarrow> (addr \<Rightarrow> sock_context option) \<Rightarrow> bool" where
  "ctxs_typed sp cs = (\<forall>c x. cs c = Some x \<longrightarrow> sock_ok sp (socket_shared_ptr x))"

definition rcore :: "res_mgr \<Rightarrow> bool" where
  "rcore r = (rm_inv r \<and> bufs_typed (rm_socks r) (rm_bufs r) \<and> ctxs_typed (rm_socks r) (ctxs r))"

lemma rcore_init: "rcore res_init"
  using rm_inv_init
  by (simp add: rcore_def bufs_typed_def ctxs_typed_def) (simp add: res_init_def buf_mgr_init_def)

lemma sock_ok_mono: "sock_ok sp p \<Longrightarrow> heap_le sp sp' \<Longrightarrow> sock_ok sp' p"
  by (auto simp: sock_ok_def heap_le_def)

lemma typed_mono:
  "heap_le sp sp' \<Longrightarrow> bufs_typed sp m \<Longrightarrow> bufs_typed sp' m"
  "heap_le sp sp' \<Longrightarrow> ctxs_typed sp cs \<Longrightarrow> ctxs_typed sp' cs"
  by (auto simp: bufs_typed_def ctxs_typed_def intro: sock_ok_mono)

lemma rcore_socks:
  assumes "rcore r" and "sock_inv sp" and "heap_le (rm_socks r) sp"
  shows "rcore (r\<lparr>rm_socks := sp\<rparr>)"
  using assms rm_inv_socks typed_mono [OF assms(3)] by (simp add: rcore_def)

lemma rcore_upd_ctx:
  assumes "rcore r"
    and "\<And>x. ctxs r c = Some x \<Longrightarrow> ctx_ok (rm_bufs r) x \<Longrightarrow>
           ctx_ok (rm_bufs r) (f x) \<and> socket_shared_ptr (f x) = socket_shared_ptr x"
  shows "rcore (upd_ctx c f r)"
proof -
  have "rm_inv (upd_ctx c f r)" using assms by (intro upd_ctx_inv) (auto simp: rcore_def)
  moreover have "ctx_ok (rm_bufs r) x" if "ctxs r c = Some x" for x
    using assms(1) that by (simp add: rcore_def rm_inv_def)
  ultimately show ?thesis
    using assms by (auto simp: rcore_def frame_simps ctxs_typed_def ctxs_upd_ctx)
qed

lemma rcore_clock [simp]: "rcore (r\<lparr>clock_calls := n\<rparr>) = rcore r"
  by (simp add: rcore_def)

lemma rcore_ctx_ops:
  assumes "rcore r"
  shows "rcore (ResetTimer env c r)" "rcore (SetContextSocketAddr c a r)"
    "bufs (rm_bufs r) b \<noteq> None \<Longrightarrow> rcore (AddIOContext2Cache c b r)"
  unfolding ResetTimer_def SetContextSocketAddr_def AddIOContext2Cache_def rcore_clock
  by (auto intro!: rcore_upd_ctx assms simp: ctx_ok_def)

lemma rcore_release:
  assumes "rcore r" and "\<And>b. p = Some b \<Longrightarrow> bufs (rm_bufs r) b \<noteq> None"
  shows "rcore (res_ReleaseIOBuffer env p r)"
  using assms res_ReleaseIOBuffer_inv [of r p env]
  by (simp add: rcore_def frame_simps bufs_typed_def)

lemma rcore_fold_release:
  assumes "rcore r" and "\<And>b. b \<in> set ps \<Longrightarrow> bufs (rm_bufs r) b \<noteq> None"
  shows "rcore (fold (\<lambda>p. res_ReleaseIOBuffer env (Some p)) ps r)"
proof -
  have i: "rm_inv r" using assms(1) by (simp add: rcore_def)
  show ?thesis
    using assms fold_release_inv [OF i, of ps env]
    by (simp add: rcore_def frame_simps bufs_typed_def)
qed

lemma ReleaseUsedIOContext_frame:
  assumes "rm_inv r" and "bufs (rm_bufs r) b \<noteq> None"
  shows "bufs (rm_bufs (ReleaseUsedIOContext env c b r)) = bufs (rm_bufs r)"
    and "rm_socks (ReleaseUsedIOContext env c b r) = rm_socks r"
    and "ctxs (ReleaseUsedIOContext env c b r) k = Some x \<Longrightarrow>
      \<exists>y. ctxs r k = Some y \<and> socket_shared_ptr y = socket_shared_ptr x"
  using res_ReleaseIOBuffer_inv(2) [OF assms(1), of "Some b" env] assms(2)
  by (auto simp: ReleaseUsedIOContext_def Let_def frame_simps ctxs_upd_ctx
      split: option.splits if_splits)

lemma rcore_ReleaseUsed:
  assumes "rcore r" and "bufs (rm_bufs r) b \<noteq> None"
  shows "rcore (ReleaseUsedIOContext env c b r)"
proof -
  have i: "rm_inv r" using assms(1) by (simp add: rcore_def)
  note f = ReleaseUsedIOContext_frame [where env = env and c = c, OF i assms(2)]
  have "ctxs_typed (rm_socks r) (ctxs (ReleaseUsedIOContext env c b r))"
    unfolding ctxs_typed_def
  proof (intro allI impI)
    fix k x assume "ctxs (ReleaseUsedIOContext env c b r) k = Some x"
    then obtain y where "ctxs r k = Some y" "socket_shared_ptr y = socket_shared_ptr x"
      using f(3) by blast
    then show "sock_ok (rm_socks r) (socket_shared_ptr x)"
      using assms(1) unfolding rcore_def ctxs_typed_def by metis
  qed
  then show ?thesis
    using ReleaseUsedIOContext_inv [OF i assms(2)] assms(1) f(1,2)
    by (simp add: rcore_def bufs_typed_def)
qed

lemma rcore_ReleaseContext:
  assumes "rcore r"
  shows "rcore (ReleaseContext env c r)"
proof (cases "ctxs r c")
  case (Some x)
  let ?ps = "map snd (socket_io_buffer_cache x)"
  let ?r1 = "fold (\<lambda>p. res_ReleaseIOBuffer env (Some p)) ?ps r"
  have i: "rm_inv r" using assms by (simp add: rcore_def)
  have ok: "ctx_ok (rm_bufs r) x" using i Some by (auto simp: rm_inv_def)
  then have "snd ` set (socket_io_buffer_cache x) = um_keys (socket_io_buffer_cache x)"
    by (intro um_self_values) (simp add: ctx_ok_def)
  then have b: "bufs (rm_bufs r) b \<noteq> None" if "b \<in> set ?ps" for b
    using that ok by (simp add: ctx_ok_def)
  have 1: "rcore ?r1" by (rule rcore_fold_release [OF assms b])
  have 2: "rcore (?r1\<lparr>rm_socks := CloseSockAndPush2ReusedPool (socket_shared_ptr x) (rm_socks ?r1)\<rparr>)"
    by (rule rcore_socks [OF 1 CloseSock_inv heap_le_CloseSock])
      (use 1 in \<open>simp add: rcore_def rm_inv_def\<close>)
  have 3: "rcore (q\<lparr>key_ptr_cache := um_erase c (key_ptr_cache q), key_hash_set := us_erase c (key_hash_set q),
      ctxs := (ctxs q)(c := None)\<rparr>)" if "rcore q" for q
    using that rm_inv_erase_key by (auto simp: rcore_def ctxs_typed_def)
  show ?thesis
    using 2 3 [OF 2] by (simp add: ReleaseContext_def Some Let_def split: option.splits)
qed (simp add: ReleaseContext_def assms)

lemma rcore_GetIOContextBuffer:
  assumes "rcore r" and "GetIOContextBuffer env r = (p, r')"
  shows "rcore r'"
    and "\<exists>b. p = Some b \<and> bufs (rm_bufs r') b \<noteq> None \<and> b \<notin> set (io_buffer_cache (rm_bufs r'))"
    and "ctxs r' = ctxs r" "key_ptr_cache r' = key_ptr_cache r" "rm_socks r' = rm_socks r"
proof -
  have i: "rm_inv r" using assms(1) by (simp add: rcore_def)
  note g = GetIOContextBuffer_props [OF i assms(2)]
  show "\<exists>b. p = Some b \<and> bufs (rm_bufs r') b \<noteq> None \<and> b \<notin> set (io_buffer_cache (rm_bufs r'))"
    and "ctxs r' = ctxs r" "key_ptr_cache r' = key_ptr_cache r" "rm_socks r' = rm_socks r"
    using g(2-6) by auto
  have bi: "buf_inv (rm_bufs r)" using i by (simp add: rm_inv_def)
  have get: "GetNextIOBufferPtr (re_buf env) (rm_bufs r) = (p, rm_bufs r')"
    using assms(2) by (auto simp: GetIOContextBuffer_def split: prod.splits)
  have "bufs_typed (rm_socks r) (rm_bufs r')"
    unfolding bufs_typed_def
  proof (intro allI impI)
    fix b x assume "bufs (rm_bufs r') b = Some x"
    then have "bufs (rm_bufs r) b = Some x \<or> io_event_type x = IO_EVENT_NULL"
      by (rule GetNext_old [OF bi get])
    then show "io_event_type x \<noteq> IO_EVENT_WRITE \<and>
        (io_event_type x \<noteq> IO_EVENT_NULL \<longrightarrow> sock_ok (rm_socks r) (io_socket_ptr x))"
      using assms(1) by (auto simp: rcore_def bufs_typed_def)
  qed
  then show "rcore r'" using g assms(1) by (simp add: rcore_def)
qed

lemma rcore_GetCachedSocket:
  assumes "rcore r" and "GetCachedSocket env cfg r = (p, r')"
  shows "rcore r'" and "sock_ok (rm_socks r') p" and "rm_bufs r' = rm_bufs r"
    and "ctxs r' = ctxs r" "key_ptr_cache r' = key_ptr_cache r" "heap_le (rm_socks r) (rm_socks r')"
proof -
  have i: "rm_inv r" using assms(1) by (simp add: rcore_def)
  note g = GetCachedSocket_props [OF i assms(2)]
  show "sock_ok (rm_socks r') p" using g(2) by (auto simp: sock_ok_def)
  show "rm_bufs r' = rm_bufs r" "ctxs r' = ctxs r" "key_ptr_cache r' = key_ptr_cache r"
    using g by auto
  show h: "heap_le (rm_socks r) (rm_socks r')"
    using assms(2) i by (auto simp: GetCachedSocket_def rm_inv_def split: prod.splits intro: heap_le_GetNext)
  show "rcore r'" using g assms(1) typed_mono [OF h] by (simp add: rcore_def)
qed

lemma rcore_Create:
  assumes "rcore r" and "sock_ok (rm_socks r) p" and "CreateNewSocketContext env p type r = (c, r')"
  shows "rcore r'" and "rm_bufs r' = rm_bufs r" "rm_socks r' = rm_socks r"
    "ctxs r' c \<noteq> None" "ctxs r c = None" "\<And>k. k \<noteq> c \<Longrightarrow> ctxs r' k = ctxs r k"
    "um_keys (key_ptr_cache r') = insert c (um_keys (key_ptr_cache r))"
proof -
  have i: "rm_inv r" using assms(1) by (simp add: rcore_def)
  note g = CreateNewSocketContext_props [OF i assms(3)]
  show "rm_bufs r' = rm_bufs r" "rm_socks r' = rm_socks r" "ctxs r' c \<noteq> None" "ctxs r c = None"
    "\<And>k. k \<noteq> c \<Longrightarrow> ctxs r' k = ctxs r k" "um_keys (key_ptr_cache r') = insert c (um_keys (key_ptr_cache r))"
    using g by auto
  show "rcore r'" using assms(1,2) g by (auto simp: rcore_def ctxs_typed_def)
qed

text \<open>Giving a buffer its event type and socket.\<close>

lemma rcore_set_buffer:
  assumes "rcore r" and "type \<noteq> IO_EVENT_WRITE" and "sock_ok (rm_socks r) p"
  shows "rcore (r\<lparr>rm_bufs := SetIOBufferSocket b p (SetIOBufferEventType b type (rm_bufs r))\<rparr>)"
proof -
  have i: "rm_inv r" using assms(1) by (simp add: rcore_def)
  then have b: "buf_inv (rm_bufs r)" "cache_zero (rm_bufs r)" by (auto simp: rm_inv_def)
  let ?m1 = "SetIOBufferEventType b type (rm_bufs r)"
  let ?m2 = "SetIOBufferSocket b p ?m1"
  have 1: "buf_inv ?m1" "cache_zero ?m1"
    using b unfolding SetIOBufferEventType_def by (auto intro!: upd_buf_inv)
  have 2: "buf_inv ?m2" "cache_zero ?m2"
    using 1 unfolding SetIOBufferSocket_def by (auto intro!: upd_buf_inv)
  have "rm_inv (r\<lparr>rm_bufs := ?m2\<rparr>)"
    by (rule rm_inv_bufs [OF i 2]) (auto simp: SetIOBufferSocket_def SetIOBufferEventType_def upd_buf_def)
  moreover have "bufs_typed (rm_socks r) ?m2"
    using assms by (auto simp: rcore_def bufs_typed_def SetIOBufferSocket_def SetIOBufferEventType_def
        upd_buf_def)
  ultimately show ?thesis using assms(1) by (simp add: rcore_def)
qed

lemma set_buffer_dom:
  "bufs (SetIOBufferSocket b p (SetIOBufferEventType b type m)) k = None \<longleftrightarrow> bufs m k = None"
  by (simp add: SetIOBufferSocket_def SetIOBufferEventType_def upd_buf_def)

lemma GetClientSocketPtr_set:
  "bufs m b \<noteq> None \<Longrightarrow>
   GetClientSocketPtr b (SetIOBufferSocket b p (SetIOBufferEventType b type m)) = p"
  by (auto simp: GetClientSocketPtr_def SetIOBufferSocket_def SetIOBufferEventType_def upd_buf_def)

lemma rcore_ResourceCollector:
  assumes "rcore r" and "ResourceCollector env r = Inr r'"
  shows "rcore r'" and "rm_bufs r' = rm_bufs r" and "rm_socks r' = rm_socks r"
    and "key_ptr_cache r' = key_ptr_cache r"
    and "ctxs r' c = None \<longleftrightarrow> ctxs r c = None"
proof -
  have i: "rm_inv r" using assms(1) by (simp add: rcore_def)
  have f: "rm_bufs (fold IncremCheckTime ks q) = rm_bufs q \<and> rm_socks (fold IncremCheckTime ks q) = rm_socks q \<and>
      key_ptr_cache (fold IncremCheckTime ks q) = key_ptr_cache q \<and>
      map_option socket_shared_ptr (ctxs (fold IncremCheckTime ks q) c) = map_option socket_shared_ptr (ctxs q c)"
    for ks q c
    by (induction ks arbitrary: q) (auto simp: IncremCheckTime_def upd_ctx_def option.map_comp comp_def)
  have s: "rm_bufs r' = rm_bufs r \<and> rm_socks r' = rm_socks r \<and> key_ptr_cache r' = key_ptr_cache r \<and>
      map_option socket_shared_ptr (ctxs r' c) = map_option socket_shared_ptr (ctxs r c)" for c
    using assms(2) f by (auto simp: ResourceCollector_spec [OF i] split: if_splits)
  then show "rm_bufs r' = rm_bufs r" and "rm_socks r' = rm_socks r"
    and "key_ptr_cache r' = key_ptr_cache r" by auto
  show "ctxs r' c = None \<longleftrightarrow> ctxs r c = None"
    using s [of c] by (cases "ctxs r c"; cases "ctxs r' c") auto
  have "ctxs_typed (rm_socks r) (ctxs r')"
    unfolding ctxs_typed_def
  proof (intro allI impI)
    fix k x assume k: "ctxs r' k = Some x"
    then obtain y where "ctxs r k = Some y" "socket_shared_ptr y = socket_shared_ptr x"
      using s [of k] by (cases "ctxs r k") auto
    then show "sock_ok (rm_socks r) (socket_shared_ptr x)"
      using assms(1) unfolding rcore_def ctxs_typed_def by metis
  qed
  then show "rcore r'"
    using ResourceCollector_inv [OF i assms(2)] s assms(1) by (simp add: rcore_def)
qed

lemma rcore_Finalize: "rcore r \<Longrightarrow> rcore (res_Finalize r)"
proof -
  assume a: "rcore r"
  have b: "bufs (buf_Finalize m) = bufs m" for m
    by (simp add: buf_Finalize_def CleanIOBufferCache_def)
  have "ctxs_typed sp (ctxs r) \<Longrightarrow> ctxs_typed sp (ctxs (res_Finalize r))" for sp
    by (auto simp: ctxs_typed_def res_Finalize_frame split: if_splits)
  moreover have "bufs_typed (DestroyPool (rm_socks r)) (buf_Finalize (rm_bufs r))"
    using a typed_mono(1) [OF heap_le_DestroyPool, of "rm_socks r" "rm_bufs r"]
    unfolding rcore_def bufs_typed_def b by blast
  ultimately show ?thesis
    using a res_Finalize_inv typed_mono(2) [OF heap_le_DestroyPool] by (simp add: rcore_def res_Finalize_frame(3,4))
qed

lemma buf_Initialize_old:
  "bufs (snd (buf_Initialize cfg m)) b = Some x \<Longrightarrow>
   bufs m b = Some x \<or> io_event_type x = IO_EVENT_NULL"
  using alloc_cached_n_old [of _ "m\<lparr>pre_allocate_size := u, buffer_size := v, re_allocate_size := w\<rparr>" b x for u v w]
  by (fastforce simp: buf_Initialize_def PreAllocateSomeIOBuffer_def Let_def split: if_splits)

lemma rcore_Initialize:
  assumes "rcore r" and "res_Initialize env cfg r = Inr (ok, r')"
  shows "rcore r'" and "heap_le (rm_socks r) (rm_socks r')" and "ctxs r' = ctxs r"
    and "key_ptr_cache r' = key_ptr_cache r"
proof -
  have i: "rm_inv r" using assms(1) by (simp add: rcore_def)
  have "(rm_socks r' = rm_socks r \<or> rm_socks r' = snd (sock_Initilize (re_sock env) cfg (rm_socks r))) \<and>
      (rm_bufs r' = rm_bufs r \<or> rm_bufs r' = snd (buf_Initialize cfg (rm_bufs r))) \<and>
      ctxs r' = ctxs r \<and> key_ptr_cache r' = key_ptr_cache r"
    using assms(2) by (auto simp: res_Initialize_def Let_def bindR_eq_Inr split: prod.splits if_splits)
  then have p: "rm_socks r' = rm_socks r \<or> rm_socks r' = snd (sock_Initilize (re_sock env) cfg (rm_socks r))"
    "rm_bufs r' = rm_bufs r \<or> rm_bufs r' = snd (buf_Initialize cfg (rm_bufs r))"
    and c: "ctxs r' = ctxs r" and k: "key_ptr_cache r' = key_ptr_cache r" by blast+
  show h: "heap_le (rm_socks r) (rm_socks r')"
    using p(1) heap_le_sock_Initilize i by (auto simp: rm_inv_def)
  have "bufs_typed (rm_socks r) (rm_bufs r')"
    using p(2) assms(1) buf_Initialize_old [of cfg "rm_bufs r"]
    unfolding rcore_def bufs_typed_def by (metis IO_EVENT_TYPE.distinct(5))
  then show "rcore r'"
    using res_Initialize_inv [OF i assms(2)] assms(1) typed_mono [OF h] c by (simp add: rcore_def)
  show "ctxs r' = ctxs r" "key_ptr_cache r' = key_ptr_cache r" by (fact c k)+
qed

section \<open>Safety of the handlers\<close>

text \<open>
  \<open>core_inv\<close>: the resources are in order and, once the accept key exists, it is a context of
  its own outside the connections' map, the listening socket exists and the two extension
  functions are there. \<open>step_ok\<close> is what every handler guarantees: it leaves these alone, keeps
  every buffer and socket and every context outside the map in existence, and puts only new contexts
  into the map.
\<close>

definition core_inv :: "iocp \<Rightarrow> bool" where
  "core_inv s =
     (rcore (res s) \<and>
      (\<forall>ak. accept_key s = Some ak \<longrightarrow>
         ctxs (res s) ak \<noteq> None \<and> ak \<notin> um_keys (key_ptr_cache (res s)) \<and>
         sock_ok (rm_socks (res s)) (listen_socket_ptr s) \<and> acceptex_func s \<and> sockaddrs_func s))"

definition res_le :: "res_mgr \<Rightarrow> res_mgr \<Rightarrow> bool" where
  "res_le r r' =
     (heap_le (rm_socks r) (rm_socks r') \<and>
      (\<forall>c. ctxs r c \<noteq> None \<longrightarrow> c \<in> um_keys (key_ptr_cache r) \<or> ctxs r' c \<noteq> None) \<and>
      (\<forall>b. bufs (rm_bufs r) b \<noteq> None \<longrightarrow> bufs (rm_bufs r') b \<noteq> None) \<and>
      um_keys (key_ptr_cache r') \<subseteq> um_keys (key_ptr_cache r) \<union> {c. ctxs r c = None})"

text \<open>The log only grows, and every callback it records is one for a read event.\<close>

fun read_callback :: "os_call \<Rightarrow> bool" where
  "read_callback (CallBack type c b n) = (type = IO_EVENT_READ)"
| "read_callback _ = True"

definition log_le :: "os_call list \<Rightarrow> os_call list \<Rightarrow> bool" where
  "log_le l l' = (\<exists>x. l' = l @ x \<and> list_all read_callback x)"

definition step_ok :: "iocp \<Rightarrow> iocp \<Rightarrow> bool" where
  "step_ok s s' =
     (rcore (res s') \<and> res_le (res s) (res s') \<and> log_le (os_log s) (os_log s') \<and> accept_key s' = accept_key s \<and>
      iocp_pool s' = iocp_pool s \<and> thread_pool_started s' = thread_pool_started s \<and>
      listen_socket_ptr s' = listen_socket_ptr s \<and> acceptex_func s' = acceptex_func s \<and>
      sockaddrs_func s' = sockaddrs_func s)"

lemma core_invD: "core_inv s \<Longrightarrow> rcore (res s)" "core_inv s \<Longrightarrow> rm_inv (res s)"
  by (simp_all add: core_inv_def rcore_def)

lemma core_inv_init: "core_inv iocp_init"
  using rcore_init by (simp add: core_inv_def iocp_init_def)

lemma res_le_refl [simp]: "res_le r r"
  by (simp add: res_le_def)

lemma log_le_refl [simp]: "log_le l l"
  by (simp add: log_le_def)

lemma log_le_snoc [simp]: "log_le l (l @ [x]) = read_callback x"
  by (auto simp: log_le_def)

lemma log_le_trans: "log_le l l1 \<Longrightarrow> log_le l1 l2 \<Longrightarrow> log_le l l2"
  by (auto simp: log_le_def)

lemma log_le_reads: "log_le l l' \<Longrightarrow> list_all read_callback l \<Longrightarrow> list_all read_callback l'"
  by (auto simp: log_le_def)

lemma res_le_trans:
  assumes "res_le r r1" and "res_le r1 r2"
  shows "res_le r r2"
proof -
  have 1: "{c. ctxs r1 c = None} \<subseteq> um_keys (key_ptr_cache r) \<union> {c. ctxs r c = None}"
    using assms(1) by (auto simp: res_le_def)
  then have "um_keys (key_ptr_cache r2) \<subseteq> um_keys (key_ptr_cache r) \<union> {c. ctxs r c = None}"
    using assms unfolding res_le_def by blast
  moreover have "heap_le (rm_socks r) (rm_socks r2)"
    using assms heap_le_trans unfolding res_le_def by blast
  moreover have "ctxs r2 c \<noteq> None" if "ctxs r c \<noteq> None" "c \<notin> um_keys (key_ptr_cache r)" for c
  proof -
    have "ctxs r1 c \<noteq> None" using assms(1) that unfolding res_le_def by blast
    moreover have "c \<notin> um_keys (key_ptr_cache r1)" using assms(1) that by (auto simp: res_le_def)
    ultimately show ?thesis using assms(2) unfolding res_le_def by blast
  qed
  ultimately show ?thesis using assms unfolding res_le_def by blast
qed

lemma step_ok_trans: "step_ok s s1 \<Longrightarrow> step_ok s1 s2 \<Longrightarrow> step_ok s s2"
  unfolding step_ok_def by (auto intro: res_le_trans log_le_trans)

lemma step_ok_inv:
  assumes "core_inv s" and "step_ok s s'"
  shows "core_inv s'"
  unfolding core_inv_def
proof (intro conjI allI impI)
  have le: "res_le (res s) (res s')" and sh: "accept_key s' = accept_key s"
    "listen_socket_ptr s' = listen_socket_ptr s" "acceptex_func s' = acceptex_func s"
    "sockaddrs_func s' = sockaddrs_func s"
    using assms(2) by (auto simp: step_ok_def)
  show "rcore (res s')" using assms(2) by (simp add: step_ok_def)
  fix ak assume "accept_key s' = Some ak"
  then have ak: "ctxs (res s) ak \<noteq> None" "ak \<notin> um_keys (key_ptr_cache (res s))"
      "sock_ok (rm_socks (res s)) (listen_socket_ptr s)" "acceptex_func s" "sockaddrs_func s"
    using assms(1) sh(1) by (auto simp: core_inv_def)
  show "ctxs (res s') ak \<noteq> None" using le ak(1,2) unfolding res_le_def by blast
  show "ak \<notin> um_keys (key_ptr_cache (res s'))" using le ak(1,2) by (auto simp: res_le_def)
  show "sock_ok (rm_socks (res s')) (listen_socket_ptr s')"
    using le ak(3) sh(2) sock_ok_mono unfolding res_le_def by metis
  show "acceptex_func s'" "sockaddrs_func s'" using ak(4,5) sh by auto
qed

lemma step_ok_res:
  "rcore (res s) \<Longrightarrow> res s' = res s \<Longrightarrow> accept_key s' = accept_key s \<Longrightarrow>
   listen_socket_ptr s' = listen_socket_ptr s \<Longrightarrow> acceptex_func s' = acceptex_func s \<Longrightarrow>
   sockaddrs_func s' = sockaddrs_func s \<Longrightarrow> log_le (os_log s) (os_log s') \<Longrightarrow>
   iocp_pool s' = iocp_pool s \<Longrightarrow> thread_pool_started s' = thread_pool_started s \<Longrightarrow> step_ok s s'"
  by (simp add: step_ok_def)

lemma shell_frame [simp]:
  "iocp_pool (on_res f s) = iocp_pool s" "inflight (on_res f s) = inflight s" "assoc (on_res f s) = assoc s"
  "iocp_pool (on_bufs g s) = iocp_pool s" "inflight (on_bufs g s) = inflight s" "assoc (on_bufs g s) = assoc s"
  "iocp_pool (os x s) = iocp_pool s" "inflight (os x s) = inflight s" "assoc (os x s) = assoc s"
  "iocp_pool (submit h b s) = iocp_pool s" "assoc (submit h b s) = assoc s"
  "thread_pool_started (on_res f s) = thread_pool_started s"
  "thread_pool_started (on_bufs g s) = thread_pool_started s"
  "thread_pool_started (os x s) = thread_pool_started s"
  "thread_pool_started (submit h b s) = thread_pool_started s"
  "client_num (on_res f s) = client_num s" "client_num (on_bufs g s) = client_num s"
  "client_num (os x s) = client_num s" "client_num (submit h b s) = client_num s"
  by (simp_all add: on_res_def on_bufs_def os_def submit_def split: option.splits)

lemma step_ok_on_res: "rcore (f (res s)) \<Longrightarrow> res_le (res s) (f (res s)) \<Longrightarrow> step_ok s (on_res f s)"
  by (simp add: step_ok_def on_res_def)

lemma step_okD:
  assumes "step_ok s s'"
  shows "rcore (res s')" "accept_key s' = accept_key s" "heap_le (rm_socks (res s)) (rm_socks (res s'))"
    "ctxs (res s) c \<noteq> None \<Longrightarrow> c \<notin> um_keys (key_ptr_cache (res s)) \<Longrightarrow> ctxs (res s') c \<noteq> None"
    "bufs (bufs_of s) b \<noteq> None \<Longrightarrow> bufs (bufs_of s') b \<noteq> None"
    "sockaddrs_func s' = sockaddrs_func s" "log_le (os_log s) (os_log s')"
  using assms by (auto simp: step_ok_def res_le_def bufs_of_def)

lemma os_frame [simp]:
  "os_log (os x s) = os_log s @ [x]"
  "res (os x s) = res s" "accept_key (os x s) = accept_key s"
  "listen_socket_ptr (os x s) = listen_socket_ptr s" "acceptex_func (os x s) = acceptex_func s"
  "sockaddrs_func (os x s) = sockaddrs_func s" "bufs_of (os x s) = bufs_of s"
  "need_wait (os x s) = need_wait s"
  by (simp_all add: os_def bufs_of_def)

lemma submit_frame [simp]:
  "os_log (submit h b s) = os_log s"
  "res (submit h b s) = res s" "accept_key (submit h b s) = accept_key s"
  "listen_socket_ptr (submit h b s) = listen_socket_ptr s"
  "acceptex_func (submit h b s) = acceptex_func s" "sockaddrs_func (submit h b s) = sockaddrs_func s"
  by (simp_all add: submit_def split: option.splits)

lemma on_res_frame [simp]:
  "res (on_res f s) = f (res s)" "accept_key (on_res f s) = accept_key s"
  "listen_socket_ptr (on_res f s) = listen_socket_ptr s" "acceptex_func (on_res f s) = acceptex_func s"
  "sockaddrs_func (on_res f s) = sockaddrs_func s" "os_log (on_res f s) = os_log s"
  by (simp_all add: on_res_def)

lemma on_bufs_frame [simp]:
  "os_log (on_bufs f s) = os_log s"
  "res (on_bufs f s) = (res s)\<lparr>rm_bufs := f (rm_bufs (res s))\<rparr>" "bufs_of (on_bufs f s) = f (bufs_of s)"
  "accept_key (on_bufs f s) = accept_key s"
  "listen_socket_ptr (on_bufs f s) = listen_socket_ptr s" "acceptex_func (on_bufs f s) = acceptex_func s"
  "sockaddrs_func (on_bufs f s) = sockaddrs_func s"
  by (simp_all add: on_bufs_def bufs_of_def)

lemma sock_val_ok: "sock_ok (rm_socks (res s)) p \<Longrightarrow> \<exists>h. sock_val p s = Inr h"
  by (auto simp: sock_val_def sock_ok_def)

lemma context_socket_ok:
  "rcore (res s) \<Longrightarrow> ctxs (res s) c \<noteq> None \<Longrightarrow> sock_ok (rm_socks (res s)) (context_socket c s)"
  by (auto simp: rcore_def ctxs_typed_def context_socket_def)

lemma get_buffer_ok:
  assumes "rcore (res s)"
  shows "\<exists>b s'. get_buffer env s = (Some b, s') \<and> step_ok s s' \<and> bufs (bufs_of s') b \<noteq> None \<and>
     b \<notin> set (io_buffer_cache (bufs_of s')) \<and> ctxs (res s') = ctxs (res s) \<and> os_log s' = os_log s \<and>
     rm_socks (res s') = rm_socks (res s) \<and> key_ptr_cache (res s') = key_ptr_cache (res s) \<and>
     (\<forall>k x. bufs (bufs_of s) k = Some x \<longrightarrow> bufs (bufs_of s') k = Some x)"
proof -
  obtain p r where g: "GetIOContextBuffer (ie_res env) (res s) = (p, r)" by fastforce
  note p = rcore_GetIOContextBuffer [OF assms g]
  have bi: "buf_inv (rm_bufs (res s))" using assms by (simp add: rcore_def rm_inv_def)
  have same: "bufs (rm_bufs r) b = Some x" if "bufs (rm_bufs (res s)) b = Some x" for b x
    using GetNext_same [OF bi _ that, of "re_buf (ie_res env)" p "rm_bufs r"] g
    by (auto simp: GetIOContextBuffer_def split: prod.splits)
  then have "bufs (rm_bufs r) b \<noteq> None" if "bufs (rm_bufs (res s)) b \<noteq> None" for b
    using that by fastforce
  then show ?thesis
    using p g same by (auto simp: get_buffer_def step_ok_def res_le_def bufs_of_def)
qed

lemma get_socket_ok:
  assumes "rcore (res s)"
  shows "\<exists>p s'. get_socket env cfg s = (p, s') \<and> step_ok s s' \<and> sock_ok (rm_socks (res s')) p \<and>
     ctxs (res s') = ctxs (res s) \<and> bufs_of s' = bufs_of s \<and> os_log s' = os_log s"
proof -
  obtain p r where g: "GetCachedSocket (ie_res env) cfg (res s) = (p, r)" by fastforce
  note p = rcore_GetCachedSocket [OF assms g]
  then show ?thesis
    using g by (auto simp: get_socket_def step_ok_def res_le_def bufs_of_def)
qed

lemma get_socket_commute:
  "get_socket env cfg (on_bufs f s) =
     (fst (get_socket env cfg s), on_bufs f (snd (get_socket env cfg s)))"
  by (simp add: get_socket_def GetCachedSocket_def on_bufs_def on_res_def split: prod.splits)

lemma on_bufs_comp: "on_bufs g (on_bufs f s) = on_bufs (\<lambda>m. g (f m)) s"
  by (simp add: on_bufs_def on_res_def)

lemma set_buffer_ok:
  assumes "rcore (res s)" and "type \<noteq> IO_EVENT_WRITE" and "sock_ok (rm_socks (res s)) p"
  shows "step_ok s (on_bufs (\<lambda>m. SetIOBufferSocket b p (SetIOBufferEventType b type m)) s)"
  using rcore_set_buffer [OF assms] set_buffer_dom
  by (simp add: step_ok_def res_le_def)

lemma BindSocket_ok:
  assumes "rcore (res s)" and "sock_ok (rm_socks (res s)) p"
  shows "\<exists>ok s'. BindSocketToCompletionPort env p k s = Inr (ok, s') \<and> step_ok s s' \<and> res s' = res s"
proof -
  obtain h where "sock_val p s = Inr h" using sock_val_ok [OF assms(2)] by blast
  then show ?thesis
    using assms(1) by (auto simp: BindSocketToCompletionPort_def Let_def intro!: step_ok_res)
qed

lemma on_res_release_ok:
  assumes "rcore (res s)" and "\<And>b. p = Some b \<Longrightarrow> bufs (bufs_of s) b \<noteq> None"
  shows "step_ok s (on_res (res_ReleaseIOBuffer env p) s)"
proof -
  have i: "rm_inv (res s)" using assms(1) by (simp add: rcore_def)
  have p: "\<And>b. p = Some b \<Longrightarrow> bufs (rm_bufs (res s)) b \<noteq> None"
    using assms(2) by (simp add: bufs_of_def)
  show ?thesis
    using rcore_release [OF assms(1) p] res_ReleaseIOBuffer_inv(2) [OF i p]
    by (intro step_ok_on_res) (auto simp: res_le_def frame_simps)
qed

lemma AddIOContext_ok:
  assumes "rcore (res s)" and "bufs (bufs_of s) b \<noteq> None"
  shows "step_ok s (on_res (AddIOContext2Cache c b) s)"
  using rcore_ctx_ops(3) [OF assms(1), of b c] assms(2)
  by (intro step_ok_on_res) (auto simp: res_le_def AddIOContext2Cache_def frame_simps ctxs_upd_ctx bufs_of_def)

lemma SetAddr_ok: "rcore (res s) \<Longrightarrow> step_ok s (on_res (SetContextSocketAddr c a) s)"
  by (intro step_ok_on_res)
    (auto simp: res_le_def SetContextSocketAddr_def frame_simps ctxs_upd_ctx
       intro: rcore_ctx_ops(2) [unfolded SetContextSocketAddr_def])

lemma ResetTimer_ok: "rcore (res s) \<Longrightarrow> step_ok s (on_res (ResetTimer env c) s)"
  using rcore_ctx_ops(1) [of "res s" env c]
  by (intro step_ok_on_res) (auto simp: res_le_def ResetTimer_def frame_simps ctxs_upd_ctx)

lemma ReleaseUsed_ok:
  assumes "rcore (res s)" and "bufs (bufs_of s) b \<noteq> None"
  shows "step_ok s (on_res (ReleaseUsedIOContext env c b) s)"
proof -
  have i: "rm_inv (res s)" and b: "bufs (rm_bufs (res s)) b \<noteq> None"
    using assms by (auto simp: rcore_def bufs_of_def)
  have "key_ptr_cache (ReleaseUsedIOContext env c b (res s)) = key_ptr_cache (res s)"
    "\<And>k. ctxs (res s) k \<noteq> None \<Longrightarrow> ctxs (ReleaseUsedIOContext env c b (res s)) k \<noteq> None"
    by (auto simp: ReleaseUsedIOContext_def Let_def frame_simps ctxs_upd_ctx split: option.splits)
  then show ?thesis
    using rcore_ReleaseUsed [OF assms(1) b] ReleaseUsedIOContext_frame [OF i b]
    by (intro step_ok_on_res) (auto simp: res_le_def)
qed

lemma ReleaseContext_ok:
  assumes "rcore (res s)"
  shows "step_ok s (on_res (ReleaseContext env c) s)"
proof (cases "ctxs (res s) c")
  case None
  then show ?thesis using assms by (intro step_ok_on_res) (simp_all add: ReleaseContext_def)
next
  case (Some x)
  let ?ps = "map snd (socket_io_buffer_cache x)"
  have i: "rm_inv (res s)" using assms by (simp add: rcore_def)
  have ok: "ctx_ok (rm_bufs (res s)) x" using i Some by (auto simp: rm_inv_def)
  then have "snd ` set (socket_io_buffer_cache x) = um_keys (socket_io_buffer_cache x)"
    by (intro um_self_values) (simp add: ctx_ok_def)
  then have b: "bufs (rm_bufs (res s)) b \<noteq> None" if "b \<in> set ?ps" for b
    using that ok by (simp add: ctx_ok_def)
  have "bufs (rm_bufs (fold (\<lambda>p. res_ReleaseIOBuffer env (Some p)) ?ps (res s))) = bufs (rm_bufs (res s))"
    using fold_release_inv [OF i b] by blast
  then have "bufs (rm_bufs (ReleaseContext env c (res s))) = bufs (rm_bufs (res s))"
    by (simp add: ReleaseContext_def Some Let_def split: option.splits)
  moreover have "heap_le (rm_socks (res s)) (rm_socks (ReleaseContext env c (res s)))"
    using heap_le_CloseSock by (simp add: ReleaseContext_def Some Let_def frame_simps split: option.splits)
  ultimately show ?thesis
    using rcore_ReleaseContext [OF assms] ReleaseContext_keys [OF i, of c env] Some
    by (intro step_ok_on_res) (auto simp: res_le_def)
qed

lemma PostRead_ok:
  assumes "rcore (res s)" and "ctxs (res s) c \<noteq> None" and "bufs (bufs_of s) b \<noteq> None"
  shows "\<exists>s'. PostReadRequestEvent env c b s = Inr s' \<and> step_ok s s'"
proof -
  obtain h where h: "sock_val (context_socket c s) s = Inr h"
    using sock_val_ok [OF context_socket_ok [OF assms(1,2)]] by blast
  let ?s1 = "os (WSARecv h b) s"
  have 1: "step_ok s ?s1" using assms(1) by (intro step_ok_res) auto
  have "step_ok ?s1 (on_res (res_ReleaseIOBuffer (ie_res env) (Some b)) ?s1)"
    using assms(1,3) by (intro on_res_release_ok) auto
  moreover have "step_ok ?s1 (submit h b ?s1)" using assms(1) by (intro step_ok_res) auto
  ultimately show ?thesis
    using h step_ok_trans [OF 1] by (auto simp: PostReadRequestEvent_def Let_def)
qed

lemma PostAnotherRead_ok:
  assumes "rcore (res s)" and "ctxs (res s) c \<noteq> None"
  shows "\<exists>s'. PostAnotherReadRequest env c s = Inr s' \<and> step_ok s s'"
proof -
  obtain b s1 where g: "get_buffer env s = (Some b, s1)" "step_ok s s1" "bufs (bufs_of s1) b \<noteq> None"
      "ctxs (res s1) = ctxs (res s)"
    using get_buffer_ok [OF assms(1)] by blast
  have r1: "rcore (res s1)" using g(2) by (simp add: step_ok_def)
  have cs: "context_socket c (on_bufs f s1) = context_socket c s1" for f
    by (simp add: context_socket_def)
  let ?s3 = "on_bufs (\<lambda>m. SetIOBufferSocket b (context_socket c s1) (SetIOBufferEventType b IO_EVENT_READ m)) s1"
  let ?s4 = "on_res (SetContextSocketAddr c (context_addr c ?s3)) ?s3"
  let ?s5 = "on_res (AddIOContext2Cache c b) ?s4"
  have 3: "step_ok s1 ?s3"
    using r1 context_socket_ok [OF r1, of c] assms(2) g(4) by (intro set_buffer_ok) auto
  have 4: "step_ok ?s3 ?s4" by (rule SetAddr_ok [OF step_okD(1) [OF 3]])
  have b4: "bufs (bufs_of ?s4) b \<noteq> None" using step_okD(5) [OF 4 step_okD(5) [OF 3 g(3)]] .
  have 5: "step_ok ?s4 ?s5" by (rule AddIOContext_ok [OF step_okD(1) [OF 4] b4])
  have c5: "ctxs (res ?s5) c \<noteq> None"
    using assms(2) g(4) by (simp add: AddIOContext2Cache_def SetContextSocketAddr_def ctxs_upd_ctx)
  have "step_ok s ?s5"
    using g(2) 3 4 5 step_ok_trans by blast
  moreover obtain s' where s': "PostReadRequestEvent env c b ?s5 = Inr s'" "step_ok ?s5 s'"
    using PostRead_ok [OF step_okD(1) [OF 5], of c b env] c5 step_okD(5) [OF 5 b4] by blast
  ultimately have "step_ok s s'" by (blast intro: step_ok_trans)
  moreover have "PostAnotherReadRequest env c s = PostReadRequestEvent env c b ?s5"
    by (simp add: PostAnotherReadRequest_def g(1) Let_def on_bufs_comp cs)
  ultimately show ?thesis using s'(1) by simp
qed

text \<open>A buffer prepared for the accept key: handed out, typed, given a socket, remembered.\<close>

lemma prepare_ok:
  assumes "rcore (res s)" and "type \<noteq> IO_EVENT_WRITE"
  shows "\<exists>b s1 sp s3. get_buffer env s = (Some b, s1) \<and>
     get_socket env cfg (on_bufs (SetIOBufferEventType b type) s1) = (sp, s3) \<and>
     sock_ok (rm_socks (res s3)) sp \<and>
     step_ok s (on_res (AddIOContext2Cache ak b) (on_bufs (SetIOBufferSocket b sp) s3)) \<and>
     GetClientSocketPtr b (bufs_of (on_res (AddIOContext2Cache ak b) (on_bufs (SetIOBufferSocket b sp) s3))) = sp \<and>
     bufs (bufs_of (on_res (AddIOContext2Cache ak b) (on_bufs (SetIOBufferSocket b sp) s3))) b \<noteq> None"
proof -
  obtain b s1 where g: "get_buffer env s = (Some b, s1)" "step_ok s s1" "bufs (bufs_of s1) b \<noteq> None"
    using get_buffer_ok [OF assms(1)] by blast
  have r1: "rcore (res s1)" using g(2) by (simp add: step_ok_def)
  obtain sp s2 where q: "get_socket env cfg s1 = (sp, s2)" "step_ok s1 s2" "sock_ok (rm_socks (res s2)) sp"
      "bufs_of s2 = bufs_of s1"
    using get_socket_ok [OF r1] by blast
  let ?s3 = "on_bufs (SetIOBufferEventType b type) s2"
  let ?s4 = "on_bufs (SetIOBufferSocket b sp) ?s3"
  let ?s5 = "on_res (AddIOContext2Cache ak b) ?s4"
  have r2: "rcore (res s2)" using q(2) by (simp add: step_ok_def)
  have eq: "?s4 = on_bufs (\<lambda>m. SetIOBufferSocket b sp (SetIOBufferEventType b type m)) s2"
    by (simp add: on_bufs_comp)
  have 4: "step_ok s2 ?s4" unfolding eq by (rule set_buffer_ok [OF r2 assms(2) q(3)])
  have b2: "bufs (bufs_of s2) b \<noteq> None" using g(3) q(4) by simp
  have b4: "bufs (bufs_of ?s4) b \<noteq> None" by (rule step_okD(5) [OF 4 b2])
  have 5: "step_ok ?s4 ?s5" by (rule AddIOContext_ok [OF step_okD(1) [OF 4] b4])
  have "get_socket env cfg (on_bufs (SetIOBufferEventType b type) s1) = (sp, ?s3)"
    by (simp add: get_socket_commute q(1))
  moreover have "step_ok s ?s5" using g(2) q(2) 4 5 step_ok_trans by blast
  moreover have "bufs_of ?s5 = bufs_of ?s4"
    by (simp add: bufs_of_def AddIOContext2Cache_def frame_simps)
  moreover have "GetClientSocketPtr b (bufs_of ?s4) = sp"
    using GetClientSocketPtr_set [of "bufs_of s2" b sp type] b2 by simp
  ultimately show ?thesis using g(1) q(3) b4 by (intro exI [of _ b] exI [of _ s1] exI [of _ sp]
        exI [of _ ?s3]) auto
qed

lemma try_accept_ok:
  assumes "core_inv s" and "accept_key s = Some ak"
  shows "\<exists>done s'. try_accept env cfg s = Inr (done, s') \<and> step_ok s s'"
proof -
  have r: "rcore (res s)" by (rule core_invD [OF assms(1)])
  obtain b s1 sp s3 where p: "get_buffer env s = (Some b, s1)"
     "get_socket env cfg (on_bufs (SetIOBufferEventType b IO_EVENT_ACCEPT) s1) = (sp, s3)"
     "sock_ok (rm_socks (res s3)) sp"
     "step_ok s (on_res (AddIOContext2Cache ak b) (on_bufs (SetIOBufferSocket b sp) s3))"
     "GetClientSocketPtr b (bufs_of (on_res (AddIOContext2Cache ak b) (on_bufs (SetIOBufferSocket b sp) s3))) = sp"
     "bufs (bufs_of (on_res (AddIOContext2Cache ak b) (on_bufs (SetIOBufferSocket b sp) s3))) b \<noteq> None"
    using prepare_ok [OF r, of IO_EVENT_ACCEPT] by blast
  let ?s4 = "on_bufs (SetIOBufferSocket b sp) s3"
  let ?s5 = "on_res (AddIOContext2Cache ak b) ?s4"
  have c5: "core_inv ?s5" by (rule step_ok_inv [OF assms(1) p(4)])
  have a5: "accept_key ?s5 = Some ak" using p(4) assms(2) by (simp add: step_ok_def)
  then have f5: "acceptex_func ?s5" "sock_ok (rm_socks (res ?s5)) (listen_socket_ptr ?s5)"
    using c5 by (auto simp: core_inv_def)
  have r5: "rcore (res ?s5)" by (rule core_invD [OF c5])
  have "sock_ok (rm_socks (res ?s5)) sp" using p(3) by (simp add: AddIOContext2Cache_def frame_simps)
  then obtain ch where ch: "sock_val sp ?s5 = Inr ch" using sock_val_ok by blast
  obtain lh where lh: "sock_val (listen_socket_ptr ?s5) ?s5 = Inr lh" using sock_val_ok [OF f5(2)] by blast
  obtain a where a: "sp = Some a" using p(3) by (auto simp: sock_ok_def)
  let ?s6 = "os (AcceptEx lh ch b (accept_len (GetBufferSize b (bufs_of ?s5)))) ?s5"
  have 6: "step_ok s ?s6"
    using p(4) r5 by (intro step_ok_trans [OF p(4)] step_ok_res) auto
  have 7: "step_ok ?s6 (on_res (res_ReleaseIOBuffer (ie_res env) (Some b)) ?s6)"
    using r5 p(6) by (intro on_res_release_ok) auto
  have 8: "step_ok ?s6 (submit lh b ?s6)" using r5 by (intro step_ok_res) auto
  have "try_accept env cfg s =
     (if ie_ret env (call_no ?s5) = 0 \<and> WSA_IO_PENDING \<noteq> ie_err env (call_no ?s5)
      then Inr (False, on_res (res_ReleaseIOBuffer (ie_res env) (Some b)) ?s6)
      else Inr (True, submit lh b ?s6))"
    using a5 p(1,2,5) lh ch f5(1) a unfolding try_accept_def Let_def by (simp add: split_beta)
  then show ?thesis
    using step_ok_trans [OF 6 7] step_ok_trans [OF 6 8] by auto
qed

lemma PostAnotherAccept_ok:
  assumes "core_inv s" and "accept_key s \<noteq> None"
  shows "\<exists>s'. PostAnotherAcceptEvent env cfg s = Inr s' \<and> step_ok s s'"
proof -
  obtain ak where ak: "accept_key s = Some ak" using assms(2) by blast
  obtain d s1 where 1: "try_accept env cfg s = Inr (d, s1)" "step_ok s s1"
    using try_accept_ok [OF assms(1) ak] by blast
  have "accept_key s1 = Some ak" using 1(2) ak by (simp add: step_ok_def)
  then obtain d2 s2 where 2: "try_accept env cfg s1 = Inr (d2, s2)" "step_ok s1 s2"
    using try_accept_ok [OF step_ok_inv [OF assms(1) 1(2)]] by blast
  show ?thesis
    using 1 2 step_ok_trans [OF 1(2) 2(2)] by (auto simp: PostAnotherAcceptEvent_def)
qed

lemma repeat_accept_ok:
  "core_inv s \<Longrightarrow> accept_key s \<noteq> None \<Longrightarrow>
   \<exists>s'. repeatR n (PostAnotherAcceptEvent env cfg) s = Inr s' \<and> step_ok s s'"
proof (induction n arbitrary: s)
  case 0
  then show ?case by (auto intro: step_ok_res dest: core_invD)
next
  case (Suc n)
  obtain s1 where 1: "PostAnotherAcceptEvent env cfg s = Inr s1" "step_ok s s1"
    using PostAnotherAccept_ok [OF Suc.prems] by blast
  have "accept_key s1 \<noteq> None" using 1(2) Suc.prems(2) by (simp add: step_ok_def)
  then obtain s2 where "repeatR n (PostAnotherAcceptEvent env cfg) s1 = Inr s2" "step_ok s1 s2"
    using Suc.IH [OF step_ok_inv [OF Suc.prems(1) 1(2)]] by blast
  then show ?case using 1 step_ok_trans by auto
qed

text \<open>
  A turn of \<open>PostExitEvent_\<close> queues a packet whose buffer has the type \<open>IO_EVENT_EXIT\<close> and is held
  by the accept key, and does not disturb the packets queued before.
\<close>

definition exit_packet :: "iocp \<Rightarrow> addr \<times> addr \<Rightarrow> bool" where
  "exit_packet s p =
     (accept_key s = Some (fst p) \<and> GetIOBufferPtr (fst p) (snd p) (res s) = Some (snd p) \<and>
      GetIOEventType (snd p) (bufs_of s) = IO_EVENT_EXIT)"

lemma get_frame:
  "get_buffer env s = (p, s') \<Longrightarrow> \<exists>r. s' = s\<lparr>res := r\<rparr>"
  "get_socket env cfg s = (p, s') \<Longrightarrow> \<exists>r. s' = s\<lparr>res := r\<rparr> \<and> ctxs r = ctxs (res s) \<and> rm_bufs r = rm_bufs (res s)"
  by (auto simp: get_buffer_def get_socket_def GetCachedSocket_def split: prod.splits)

lemma GetIOBufferPtr_Add:
  assumes "ctxs r c = Some x" and "um_self (socket_io_buffer_cache x)"
  shows "GetIOBufferPtr c b (AddIOContext2Cache c b r) = Some b"
    and "GetIOBufferPtr c b' r = Some b' \<Longrightarrow> GetIOBufferPtr c b' (AddIOContext2Cache c b r) = Some b'"
  using assms by (auto simp: AddIOContext2Cache_def ctxs_upd_ctx GetIOBufferPtr_def GetIOBufferCache_def
      dest: um_self_find split: option.splits)

lemma exit_turn_ok:
  assumes c: "core_inv s" and ak: "accept_key s = Some ak"
  shows "\<exists>b r. exit_turn env cfg s =
      Inr (False, s\<lparr>res := r, os_log := os_log s @ [PostQueuedCompletionStatus ak b],
                    inflight := inflight s @ [(ak, b)]\<rparr>) \<and>
     step_ok s (s\<lparr>res := r\<rparr>) \<and> exit_packet (s\<lparr>res := r\<rparr>) (ak, b) \<and>
     (\<forall>p. exit_packet s p \<longrightarrow> exit_packet (s\<lparr>res := r\<rparr>) p)"
proof -
  have r: "rcore (res s)" by (rule core_invD [OF c])
  have cx: "ctxs (res s) ak \<noteq> None" using c ak by (simp add: core_inv_def)
  obtain b s1 where g: "get_buffer env s = (Some b, s1)" "step_ok s s1" "bufs (bufs_of s1) b \<noteq> None"
      "ctxs (res s1) = ctxs (res s)" "\<And>k x. bufs (bufs_of s) k = Some x \<Longrightarrow> bufs (bufs_of s1) k = Some x"
    using get_buffer_ok [OF r] by blast
  obtain sp s3 where p: "get_socket env cfg (on_bufs (SetIOBufferEventType b IO_EVENT_EXIT) s1) = (sp, s3)"
     "step_ok s (on_res (AddIOContext2Cache ak b) (on_bufs (SetIOBufferSocket b sp) s3))"
    using prepare_ok [OF r, where type = IO_EVENT_EXIT and env = env and cfg = cfg and ak = ak] g(1) by auto
  let ?s5 = "on_res (AddIOContext2Cache ak b) (on_bufs (SetIOBufferSocket b sp) s3)"
  obtain r1 where r1: "s1 = s\<lparr>res := r1\<rparr>" using get_frame(1) [OF g(1)] by blast
  obtain r3 where r3: "s3 = (on_bufs (SetIOBufferEventType b IO_EVENT_EXIT) s1)\<lparr>res := r3\<rparr>" "ctxs r3 = ctxs (res s)"
      "rm_bufs r3 = SetIOBufferEventType b IO_EVENT_EXIT (bufs_of s1)"
    using get_frame(2) [OF p(1)] g(4) by (auto simp: on_bufs_def on_res_def bufs_of_def)
  let ?r = "AddIOContext2Cache ak b (r3\<lparr>rm_bufs := SetIOBufferSocket b sp (rm_bufs r3)\<rparr>)"
  have s5: "?s5 = s\<lparr>res := ?r\<rparr>" by (simp add: r1 r3(1) on_bufs_def on_res_def)
  have run: "exit_turn env cfg s = Inr (False, s\<lparr>res := ?r, os_log := os_log s @ [PostQueuedCompletionStatus ak b],
                    inflight := inflight s @ [(ak, b)]\<rparr>)"
    using g(1) p(1) ak by (simp add: exit_turn_def r1 r3(1) on_bufs_def on_res_def os_def)
  obtain x where "ctxs (res s) ak = Some x" using cx by blast
  moreover from this have "um_self (socket_io_buffer_cache x)"
    using core_invD(2) [OF c] by (auto simp: rm_inv_def ctx_ok_def)
  moreover have "GetIOBufferPtr ak k (r3\<lparr>rm_bufs := m\<rparr>) = GetIOBufferPtr ak k (res s)" for k m
    by (simp add: GetIOBufferPtr_def GetIOBufferCache_def r3(2))
  ultimately have held: "GetIOBufferPtr ak b ?r = Some b"
      "\<And>b'. GetIOBufferPtr ak b' (res s) = Some b' \<Longrightarrow> GetIOBufferPtr ak b' ?r = Some b'"
    using GetIOBufferPtr_Add [of "r3\<lparr>rm_bufs := SetIOBufferSocket b sp (rm_bufs r3)\<rparr>" ak x] r3(2)
    by simp_all
  have type: "GetIOEventType b (rm_bufs ?r) = IO_EVENT_EXIT"
      "\<And>b'. GetIOEventType b' (bufs_of s) = IO_EVENT_EXIT \<Longrightarrow> GetIOEventType b' (rm_bufs ?r) = IO_EVENT_EXIT"
    using g(3,5) r3(3)
    by (auto simp: GetIOEventType_def SetIOBufferSocket_def SetIOBufferEventType_def upd_buf_def
        AddIOContext2Cache_def frame_simps split: option.splits)
  have x: "exit_packet (s\<lparr>res := ?r\<rparr>) (ak, b)" "exit_packet s q \<Longrightarrow> exit_packet (s\<lparr>res := ?r\<rparr>) q" for q
    using held type ak by (auto simp: exit_packet_def bufs_of_def)
  show ?thesis using run p(2) x unfolding s5 by blast
qed

lemma exit_loop_ok:
  "core_inv s \<Longrightarrow> accept_key s = Some ak \<Longrightarrow>
   \<exists>r bs. exit_loop env cfg n s =
       Inr (s\<lparr>res := r, os_log := os_log s @ map (PostQueuedCompletionStatus ak) bs,
             inflight := inflight s @ map (Pair ak) bs\<rparr>) \<and>
     length bs = n \<and> step_ok s (s\<lparr>res := r\<rparr>)"
proof (induction n arbitrary: s)
  case 0
  have "step_ok s (s\<lparr>res := res s\<rparr>)" using core_invD(1) [OF 0(1)] by (intro step_ok_res) auto
  then show ?case by (intro exI [of _ "res s"] exI [of _ "[]"]) simp
next
  case (Suc n)
  obtain b r where t: "exit_turn env cfg s =
      Inr (False, s\<lparr>res := r, os_log := os_log s @ [PostQueuedCompletionStatus ak b],
                    inflight := inflight s @ [(ak, b)]\<rparr>)" "step_ok s (s\<lparr>res := r\<rparr>)"
    using exit_turn_ok [OF Suc.prems] by blast
  let ?s = "s\<lparr>res := r, os_log := os_log s @ [PostQueuedCompletionStatus ak b], inflight := inflight s @ [(ak, b)]\<rparr>"
  have c: "core_inv ?s" using step_ok_inv [OF Suc.prems(1) t(2)] by (simp add: core_inv_def)
  obtain r' bs where "exit_loop env cfg n ?s =
       Inr (?s\<lparr>res := r', os_log := os_log ?s @ map (PostQueuedCompletionStatus ak) bs,
             inflight := inflight ?s @ map (Pair ak) bs\<rparr>)" "length bs = n" "step_ok ?s (?s\<lparr>res := r'\<rparr>)"
    using Suc.IH [OF c] Suc.prems(2) by auto
  note IH = this
  have "step_ok s (s\<lparr>res := r'\<rparr>)"
    using t(2) IH(3) res_le_trans by (auto simp: step_ok_def)
  then show ?case
    using t(1) IH(1,2) by (intro exI [of _ r'] exI [of _ "b # bs"]) simp
qed

lemma ProcessAccept_ok:
  assumes "core_inv s" and "sockaddrs_func s" and "bufs (bufs_of s) b \<noteq> None"
    and "sock_ok (rm_socks (res s)) (GetClientSocketPtr b (bufs_of s))"
  shows "\<exists>s'. ProcessAcceptEvent env b s = Inr s' \<and> step_ok s s'"
proof -
  have r: "rcore (res s)" by (rule core_invD [OF assms(1)])
  let ?sp = "GetClientSocketPtr b (bufs_of s)"
  obtain c r1 where c: "CreateNewSocketContext (ie_res env) ?sp ACCEPTED_SOCKET (res s) = (c, r1)"
    by fastforce
  note cr = rcore_Create [OF r assms(4) c]
  let ?s1 = "s\<lparr>res := r1\<rparr>"
  have "ctxs r1 k \<noteq> None" if "ctxs (res s) k \<noteq> None" for k
    using cr(4,6) that by (cases "k = c") auto
  then have 1: "step_ok s ?s1"
    using cr by (auto simp: step_ok_def res_le_def)
  have r1: "rcore (res ?s1)" using cr(1) by simp
  obtain ob s2 where g: "get_buffer env ?s1 = (Some ob, s2)" "step_ok ?s1 s2" "bufs (bufs_of s2) ob \<noteq> None"
      "ctxs (res s2) = ctxs (res ?s1)" "rm_socks (res s2) = rm_socks (res ?s1)"
      "\<And>k x. bufs (bufs_of ?s1) k = Some x \<Longrightarrow> bufs (bufs_of s2) k = Some x"
    using get_buffer_ok [OF r1] by blast
  have r2: "rcore (res s2)" by (rule step_okD(1) [OF g(2)])
  obtain x where x: "bufs (bufs_of s) b = Some x" using assms(3) by blast
  have "bufs (bufs_of s2) b = Some x" using g(6) x cr(2) by (simp add: bufs_of_def)
  then have cl: "GetClientSocketPtr b (SetIOBufferEventType ob t (bufs_of s2)) = ?sp" for t
    using x by (cases "b = ob") (auto simp: GetClientSocketPtr_def SetIOBufferEventType_def upd_buf_def)
  let ?s4 = "on_bufs (\<lambda>m. SetIOBufferSocket ob ?sp (SetIOBufferEventType ob IO_EVENT_READ m)) s2"
  have ok2: "sock_ok (rm_socks (res s2)) ?sp"
    using assms(4) g(5) cr(3) by simp
  have 4: "step_ok s2 ?s4" using ok2 r2 by (intro set_buffer_ok) auto
  let ?s5 = "on_res (SetContextSocketAddr c (Some (ie_remote env (call_no s)))) ?s4"
  have 5: "step_ok ?s4 ?s5" by (rule SetAddr_ok [OF step_okD(1) [OF 4]])
  have b5: "bufs (bufs_of ?s5) ob \<noteq> None" using step_okD(5) [OF 5 step_okD(5) [OF 4 g(3)]] .
  let ?s6 = "on_res (AddIOContext2Cache c ob) ?s5"
  have 6: "step_ok ?s5 ?s6" by (rule AddIOContext_ok [OF step_okD(1) [OF 5] b5])
  have r6: "rcore (res ?s6)" by (rule step_okD(1) [OF 6])
  have s6: "step_ok s2 ?s6" using 4 5 6 step_ok_trans by blast
  have "ctxs (res s2) c \<noteq> None" using g(4) cr(4) by simp
  then have c6: "ctxs (res ?s6) c \<noteq> None"
    by (simp add: AddIOContext2Cache_def SetContextSocketAddr_def ctxs_upd_ctx)
  obtain ok s7 where 7: "BindSocketToCompletionPort env (context_socket c ?s6) c ?s6 = Inr (ok, s7)"
      "step_ok ?s6 s7" "res s7 = res ?s6"
    using BindSocket_ok [OF r6 context_socket_ok [OF r6 c6]] by blast
  have "bufs (bufs_of ?s6) ob \<noteq> None" by (rule step_okD(5) [OF 6 b5])
  then have "bufs (bufs_of s7) ob \<noteq> None" by (rule step_okD(5) [OF 7(2)])
  moreover have "ctxs (res s7) c \<noteq> None" using c6 7(3) by simp
  ultimately obtain s8 where 8: "PostReadRequestEvent env c ob s7 = Inr s8" "step_ok s7 s8"
    using PostRead_ok [OF step_okD(1) [OF 7(2)]] by blast
  have t: "step_ok s s7" using 1 g(2) s6 7(2) step_ok_trans by blast
  have "ProcessAcceptEvent env b s = (if \<not> ok then Inr s7 else PostReadRequestEvent env c ob s7)"
    using assms(2) 7(1) by (simp add: ProcessAcceptEvent_def Let_def c g(1) cl on_bufs_comp)
  then show ?thesis using t 8 step_ok_trans [OF t] by auto
qed

lemma ReleaseUsed_after_ok:
  assumes "step_ok s s'" and "bufs (bufs_of s) b \<noteq> None"
  shows "step_ok s (on_res (ReleaseUsedIOContext (ie_res env) c b) s')"
  using step_okD(1,5) [OF assms(1)] assms(2) by (intro step_ok_trans [OF assms(1)] ReleaseUsed_ok) auto

lemma call_back_ok: "rcore (res s) \<Longrightarrow> step_ok s (call_back IO_EVENT_READ c b n s)"
  unfolding call_back_def by (intro step_ok_res) auto

text \<open>A completed accept: the new connection, the next accept, and the release of the buffer.\<close>

lemma dispatch_accept_ok:
  assumes inv: "core_inv s" and "accept_key s \<noteq> None" and b: "bufs (bufs_of s) b \<noteq> None"
    and ret: "ret" and acc: "GetIOEventType b (bufs_of s) = IO_EVENT_ACCEPT"
  shows "\<exists>s'. dispatch_event env cfg ret n c b s = Inr s' \<and> step_ok s s'"
proof -
  have r: "rcore (res s)" by (rule core_invD [OF inv])
  obtain x where x: "bufs (bufs_of s) b = Some x" using b by blast
  let ?s1 = "s\<lparr>client_num := client_num s + 1\<rparr>"
  let ?s2 = "if n \<noteq> 0 then call_back IO_EVENT_READ c b n ?s1 else ?s1"
  have 2: "step_ok s ?s2" using r by (intro step_ok_res) (auto simp: call_back_def)
  have same: "bufs_of ?s2 = bufs_of s" "res ?s2 = res s" "sockaddrs_func ?s2 = sockaddrs_func s"
    by (auto simp: call_back_def bufs_of_def)
  have "io_event_type x = IO_EVENT_ACCEPT" using acc x by (simp add: GetIOEventType_def)
  then have "sock_ok (rm_socks (res s)) (io_socket_ptr x)"
    using r x by (auto simp: rcore_def bufs_typed_def bufs_of_def)
  then have so: "sock_ok (rm_socks (res ?s2)) (GetClientSocketPtr b (bufs_of ?s2))"
    by (simp add: same x GetClientSocketPtr_def)
  have "sockaddrs_func ?s2" using inv assms(2) by (auto simp: same core_inv_def)
  then obtain s3 where 3: "ProcessAcceptEvent env b ?s2 = Inr s3" "step_ok ?s2 s3"
    using ProcessAccept_ok [OF step_ok_inv [OF inv 2] _ _ so] b same by auto
  have s3: "step_ok s s3" by (rule step_ok_trans [OF 2 3(2)])
  have "accept_key s3 \<noteq> None" using s3 assms(2) by (simp add: step_ok_def)
  then obtain s4 where 4: "PostAnotherAcceptEvent env cfg s3 = Inr s4" "step_ok s3 s4"
    using PostAnotherAccept_ok [OF step_ok_inv [OF inv s3]] by blast
  have "dispatch_event env cfg ret n c b s = Inr (on_res (ReleaseUsedIOContext (ie_res env) c b) s4)"
    using acc ret 3(1) 4(1) by (simp add: dispatch_event_def Let_def)
  then show ?thesis using ReleaseUsed_after_ok [OF step_ok_trans [OF s3 4(2)] b] by blast
qed

lemma dispatch_read_ok:
  assumes "rcore (res s)" and "ctxs (res s) c \<noteq> None" and "bufs (bufs_of s) b \<noteq> None"
    and "ret" and "GetIOEventType b (bufs_of s) = IO_EVENT_READ" and "n \<noteq> 0"
  shows "\<exists>s'. dispatch_event env cfg ret n c b s = Inr s' \<and> step_ok s s'"
proof -
  let ?s1 = "call_back IO_EVENT_READ c b n s"
  let ?s2 = "on_res (ResetTimer (ie_res env) c) ?s1"
  have 1: "step_ok s ?s1" by (rule call_back_ok [OF assms(1)])
  have 2: "step_ok s ?s2" by (rule step_ok_trans [OF 1 ResetTimer_ok [OF step_okD(1) [OF 1]]])
  have c2: "ctxs (res ?s2) c \<noteq> None" using assms(2) by (simp add: ResetTimer_def ctxs_upd_ctx call_back_def)
  obtain s3 where 3: "PostAnotherReadRequest env c ?s2 = Inr s3" "step_ok ?s2 s3"
    using PostAnotherRead_ok [OF step_okD(1) [OF 2] c2] by blast
  have "dispatch_event env cfg ret n c b s = Inr (on_res (ReleaseUsedIOContext (ie_res env) c b) s3)"
    using assms(4-6) 3(1) by (simp add: dispatch_event_def Let_def)
  then show ?thesis using ReleaseUsed_after_ok [OF step_ok_trans [OF 2 3(2)] assms(3)] by blast
qed

lemma dispatch_ok:
  assumes inv: "core_inv s" and acc: "accept_key s \<noteq> None"
    and c: "ctxs (res s) c \<noteq> None" and b: "bufs (bufs_of s) b \<noteq> None"
  shows "\<exists>s'. dispatch_event env cfg ret n c b s = Inr s' \<and> step_ok s s'"
proof -
  have r: "rcore (res s)" by (rule core_invD [OF inv])
  let ?t = "GetIOEventType b (bufs_of s)"
  consider (exit) "ret" "?t = IO_EVENT_EXIT" | (acc) "ret" "?t = IO_EVENT_ACCEPT"
    | (read) "ret" "?t = IO_EVENT_READ" "n \<noteq> 0" | (wr) "ret" "?t = IO_EVENT_WRITE"
    | (gone) "?t = IO_EVENT_READ" "n = 0"
    | (rest) "\<not> (ret \<and> ?t = IO_EVENT_EXIT)" "\<not> (ret \<and> ?t = IO_EVENT_ACCEPT)"
        "\<not> (ret \<and> ?t = IO_EVENT_READ \<and> n \<noteq> 0)" "\<not> (ret \<and> ?t = IO_EVENT_WRITE)"
        "\<not> (?t = IO_EVENT_READ \<and> n = 0)" by blast
  then show ?thesis
  proof cases
    case exit
    have "step_ok s (s\<lparr>need_wait := False\<rparr>)" using r by (intro step_ok_res) auto
    then show ?thesis using exit by (auto simp: dispatch_event_def)
  next
    case acc
    then show ?thesis using dispatch_accept_ok [OF inv assms(2) b] by simp
  next
    case read
    then show ?thesis using dispatch_read_ok [OF r c b] by simp
  next
    case wr
    let ?s1 = "on_res (ResetTimer (ie_res env) c) s"
    have 1: "step_ok s ?s1" by (rule ResetTimer_ok [OF r])
    have 2: "step_ok s (call_back IO_EVENT_READ c b n ?s1)"
      by (rule step_ok_trans [OF 1 call_back_ok [OF step_okD(1) [OF 1]]])
    show ?thesis using wr ReleaseUsed_after_ok [OF 2 b] by (auto simp: dispatch_event_def Let_def)
  next
    case gone
    then show ?thesis
      using ReleaseContext_ok [OF r] by (auto simp: dispatch_event_def Let_def ReleaseCompletionKey_def)
  next
    case rest
    then have "dispatch_event env cfg ret n c b s = Inr (on_res (res_ReleaseIOBuffer (ie_res env) (Some b)) s)"
      by (auto simp: dispatch_event_def Let_def)
    then show ?thesis using on_res_release_ok [OF r, of "Some b" "ie_res env"] b by simp
  qed
qed

lemma find_owner_ok:
  assumes "core_inv s" and "accept_key s \<noteq> None"
  shows "\<exists>kp bp. find_owner ck b s = Inr (kp, bp) \<and>
     (\<forall>c. kp = Some c \<longrightarrow> ctxs (res s) c \<noteq> None \<and> bp = GetIOBufferPtr c b (res s)) \<and>
     (\<forall>b'. bp = Some b' \<longrightarrow> kp \<noteq> None \<and> b' = b \<and> bufs (bufs_of s) b \<noteq> None)"
proof -
  have i: "rm_inv (res s)" by (rule core_invD [OF assms(1)])
  have p: "b' = b \<and> bufs (bufs_of s) b \<noteq> None" if g: "GetIOBufferPtr c b (res s) = Some b'" for c b'
  proof -
    obtain x where x: "ctxs (res s) c = Some x" "um_find b (socket_io_buffer_cache x) = Some b'"
      using g by (cases "ctxs (res s) c") (auto simp: GetIOBufferPtr_def GetIOBufferCache_def)
    then have "ctx_ok (rm_bufs (res s)) x" using i by (auto simp: rm_inv_def)
    then show ?thesis
      using x(2) by (auto simp: ctx_ok_def bufs_of_def um_keys_iff dest: um_self_find)
  qed
  have k: "ctxs (res s) c \<noteq> None" if "GetCompletionKeyPtr ck (res s) = Some c" for c
  proof -
    have "um_self (key_ptr_cache (res s))" using i by (simp add: rm_inv_def keys_ok_def)
    then have "c = ck" using that by (auto simp: GetCompletionKeyPtr_def dest: um_self_find)
    moreover have "ck \<in> um_keys (key_ptr_cache (res s))"
      using that by (auto simp: GetCompletionKeyPtr_def um_keys_iff)
    ultimately show ?thesis using i by (auto simp: rm_inv_def keys_ok_def)
  qed
  obtain ak where ak: "accept_key s = Some ak" using assms(2) by blast
  then have "ctxs (res s) ak \<noteq> None" using assms(1) by (simp add: core_inv_def)
  then show ?thesis
    using p k ak by (cases "GetCompletionKeyPtr ck (res s)") (auto simp: find_owner_def Let_def)
qed

lemma release_none [simp]: "on_res (res_ReleaseIOBuffer env None) s = s"
  by (simp add: on_res_def res_ReleaseIOBuffer_def ReleaseIOBuffer_def)

text \<open>
  What the handler does with a completion: nothing, where the buffer has no type or no owner; a
  freed buffer is used; or the owner's event is dispatched.
\<close>

lemma handle_completion_cases:
  assumes inv: "core_inv s" and acc: "accept_key s \<noteq> None"
  obtains (ignored) "handle_completion env cfg ev s = Inr s"
    | (freed) b where "c_overlapped ev = Some b" "\<not> buf_live b s" "handle_completion env cfg ev s = Inl UseAfterFree"
    | (owned) b ck c where "c_overlapped ev = Some b" "c_key ev = Some ck" "ctxs (res s) c \<noteq> None"
        "bufs (bufs_of s) b \<noteq> None" "find_owner ck b s = Inr (Some c, Some b)"
        "handle_completion env cfg ev s = dispatch_event env cfg (c_ret ev) (c_bytes ev) c b s"
proof (cases "\<exists>b ck. c_overlapped ev = Some b \<and> c_key ev = Some ck")
  case False
  then have "handle_completion env cfg ev s = Inr s"
    by (cases "c_overlapped ev"; cases "c_key ev") (auto simp: handle_completion_def)
  then show ?thesis by (rule ignored)
next
  case True
  then obtain b ck where e: "c_overlapped ev = Some b" "c_key ev = Some ck" by blast
  obtain kp bp where o: "find_owner ck b s = Inr (kp, bp)"
    "\<And>c. kp = Some c \<Longrightarrow> ctxs (res s) c \<noteq> None"
    "\<And>b'. bp = Some b' \<Longrightarrow> kp \<noteq> None \<and> b' = b \<and> bufs (bufs_of s) b \<noteq> None"
    using find_owner_ok [OF inv acc, of ck b] by metis
  consider "\<not> buf_live b s" | "buf_live b s" "GetIOEventType b (bufs_of s) = IO_EVENT_NULL \<or> bp = None"
    | c where "buf_live b s" "GetIOEventType b (bufs_of s) \<noteq> IO_EVENT_NULL" "bp = Some b" "kp = Some c"
    using o(3) by (cases bp) auto
  then show ?thesis
  proof cases
    case 1
    then have "handle_completion env cfg ev s = Inl UseAfterFree" using e by (simp add: handle_completion_def)
    then show ?thesis by (rule freed [OF e(1) 1])
  next
    case 2
    then have "handle_completion env cfg ev s = Inr s" using e o(1) by (auto simp: handle_completion_def)
    then show ?thesis by (rule ignored)
  next
    case (3 c)
    then have d: "handle_completion env cfg ev s = dispatch_event env cfg (c_ret ev) (c_bytes ev) c b s"
      using e o(1) by (simp add: handle_completion_def)
    have "bufs (bufs_of s) b \<noteq> None" using o(3) [OF 3(3)] by blast
    moreover have "find_owner ck b s = Inr (Some c, Some b)" using o(1) 3(3,4) by simp
    ultimately show ?thesis using d by (rule owned [OF e o(2) [OF 3(4)]])
  qed
qed

lemma handle_completion_ok:
  assumes "core_inv s" and "accept_key s \<noteq> None" and "handle_completion env cfg ev s = Inr s'"
  shows "step_ok s s'"
  using assms(1,2)
proof (cases rule: handle_completion_cases [where env = env and cfg = cfg and ev = ev])
  case ignored
  then show ?thesis using assms(3) core_invD(1) [OF assms(1)] by (auto intro: step_ok_res)
next
  case (owned b ck c)
  then show ?thesis using dispatch_ok [OF assms(1,2) owned(3,4), of env cfg "c_ret ev" "c_bytes ev"] assms(3) by auto
qed (use assms(3) in simp)

text \<open>
  The completion handler leaves the defined behaviour in one case only: the kernel reports an
  operation on a buffer that no one holds any more.
\<close>

lemma GetCompletionPortEventStatus_ok:
  assumes inv: "core_inv s" and acc: "accept_key s \<noteq> None"
  shows "(\<exists>s'. GetCompletionPortEventStatus env cfg ev s = Inr s' \<and> step_ok s s') \<or>
     (need_wait s \<and> (\<exists>b. c_overlapped ev = Some b \<and> \<not> buf_live b s) \<and>
      GetCompletionPortEventStatus env cfg ev s = Inl UseAfterFree)"
proof (cases "need_wait s")
  case False
  have "step_ok s s" using core_invD(1) [OF inv] by (intro step_ok_res) auto
  then show ?thesis using False by (simp add: GetCompletionPortEventStatus_def)
next
  case w: True
  show ?thesis
    using inv acc
  proof (cases rule: handle_completion_cases [where env = env and cfg = cfg and ev = ev])
    case ignored
    have "step_ok s s" using core_invD(1) [OF inv] by (intro step_ok_res) auto
    then show ?thesis using w ignored by (simp add: GetCompletionPortEventStatus_def)
  next
    case (freed b)
    then show ?thesis using w by (simp add: GetCompletionPortEventStatus_def)
  next
    case (owned b ck c)
    obtain s' where "dispatch_event env cfg (c_ret ev) (c_bytes ev) c b s = Inr s'" "step_ok s s'"
      using dispatch_ok [OF inv acc owned(3,4)] by blast
    then show ?thesis using w owned(6) by (simp add: GetCompletionPortEventStatus_def)
  qed
qed

lemma sock_val_cong: "rm_socks (res s) = rm_socks (res t) \<Longrightarrow> sock_val p s = sock_val p t"
  by (simp add: sock_val_def split: option.splits)

lemma PostWrite_raw_ok:
  assumes "rcore (res s)" and "ctx_live c s"
  shows "\<exists>s' h. PostWriteRequestEvent_raw env c b s = Inr s' \<and> step_ok s s' \<and>
     sock_val (context_socket c s) s = Inr h \<and>
     os_log s' = os_log s @ [WSASend h b (ucast (GetBufferSize b (bufs_of s)))] \<and> res s' = res s"
proof -
  have c: "ctxs (res s) c \<noteq> None" using assms(2) by (simp add: ctx_live_def)
  obtain h where h: "sock_val (context_socket c s) s = Inr h"
    using sock_val_ok [OF context_socket_ok [OF assms(1) c]] by blast
  let ?s1 = "os (WSASend h b (ucast (GetBufferSize b (bufs_of s)))) s"
  have "step_ok s ?s1" "step_ok s (submit h b ?s1)" using assms(1) by (auto intro!: step_ok_res)
  moreover have "os_log (submit h b ?s1) = os_log ?s1" "res (submit h b ?s1) = res s"
    by (simp_all add: submit_def os_def split: option.splits)
  ultimately show ?thesis
    using assms(2) h by (auto simp: PostWriteRequestEvent_raw_def PostWriteRequestEvent_def Let_def os_def)
qed

text \<open>
  Sending is safe for a live context and a readable block of the stated length. The buffer it takes
  was idle or is new, and is recorded as handed out.
\<close>

definition sent_bufs :: "addr \<Rightarrow> io_context_buffer \<Rightarrow> size_t \<Rightarrow> byte list \<Rightarrow> buf_mgr \<Rightarrow> buf_mgr" where
  "sent_bufs b x len data m =
     m\<lparr>next_block := Suc (next_block m),
       bufs := (bufs m)(b \<mapsto> x\<lparr>io_buffer_size := len, io_buffer := Some (next_block m),
          io_wsa_buf := \<lparr>ws_len = ucast len, ws_buf = Some (next_block m)\<rparr>\<rparr>),
       blocks := (blocks m)(next_block m \<mapsto> take (unat len) data)\<rparr>"

lemma get_buffer_source:
  assumes "rcore (res s)" and "get_buffer env s = (Some b, s1)"
  shows "b \<in> set (io_buffer_cache (bufs_of s)) \<or> bufs (bufs_of s) b = None"
    and "b \<in> um_keys (io_buffer_in_use (bufs_of s1))"
proof -
  have i: "rm_inv (res s)" using assms(1) by (simp add: rcore_def)
  obtain r where r: "GetIOContextBuffer (ie_res env) (res s) = (Some b, r)" "s1 = s\<lparr>res := r\<rparr>"
    using assms(2) by (auto simp: get_buffer_def split: prod.splits)
  show "b \<in> um_keys (io_buffer_in_use (bufs_of s1))"
    using GetIOContextBuffer_props(2) [OF i r(1)] r(2) by (simp add: bufs_of_def)
  have "buf_inv (rm_bufs (res s))" using i by (simp add: rm_inv_def)
  then show "b \<in> set (io_buffer_cache (bufs_of s)) \<or> bufs (bufs_of s) b = None"
    using GetNext_source r(1) by (fastforce simp: GetIOContextBuffer_def bufs_of_def split: prod.splits)
qed

lemma SendData_eq:
  assumes "get_buffer env s = (Some b, s1)" and x: "bufs (bufs_of s1) b = Some x"
  shows "SendDataUserInterface env c data len s =
      (if length data < unat len then Inl OutOfBounds
       else PostWriteRequestEvent_raw env c b (on_bufs (sent_bufs b x len data) s1))"
  using x by (simp add: SendDataUserInterface_def assms(1) Let_def AllocateBySize_eq [OF x [unfolded bufs_of_def]]
      GetWsaBuf_def on_bufs_def on_res_def bufs_of_def sent_bufs_def)

lemma sent_bufs_ok:
  assumes r: "rcore (res s)" and x: "bufs (bufs_of s) b = Some x" "b \<notin> set (io_buffer_cache (bufs_of s))"
    and len: "unat len \<le> length data"
  shows "step_ok s (on_bufs (sent_bufs b x len data) s)"
proof -
  let ?m = "bufs_of s" and ?m2 = "sent_bufs b x len data (bufs_of s)"
  have i: "rm_inv (res s)" using r by (simp add: rcore_def)
  then have b: "buf_inv ?m" "cache_zero ?m" by (auto simp: rm_inv_def bufs_of_def)
  have "length (take (unat len) data) = unat len" using len by simp
  note w = write_new_block_inv [OF b(1) x this sent_bufs_def]
  have "rm_inv ((res s)\<lparr>rm_bufs := ?m2\<rparr>)"
    by (rule rm_inv_bufs [OF i w(1) w(2) [OF b(2)]]) (auto simp: bufs_of_def sent_bufs_def)
  moreover have "bufs_typed (rm_socks (res s)) ?m2"
    using r x by (auto simp: rcore_def bufs_typed_def bufs_of_def sent_bufs_def)
  ultimately show ?thesis
    using r by (auto simp: step_ok_def rcore_def res_le_def bufs_of_def sent_bufs_def)
qed

lemma SendData_ok:
  assumes "core_inv s"
  shows "length data < unat len \<Longrightarrow> SendDataUserInterface env c data len s = Inl OutOfBounds"
    and "unat len \<le> length data \<Longrightarrow> \<not> ctx_live c s \<Longrightarrow>
      SendDataUserInterface env c data len s = Inl UseAfterFree"
    and "unat len \<le> length data \<Longrightarrow> ctx_live c s \<Longrightarrow>
      \<exists>s' h b blk x. SendDataUserInterface env c data len s = Inr s' \<and> step_ok s s' \<and>
        sock_val (context_socket c s) s = Inr h \<and> os_log s' = os_log s @ [WSASend h b (ucast len)] \<and>
        bufs (bufs_of s') b = Some x \<and> io_wsa_buf x = \<lparr>ws_len = ucast len, ws_buf = Some blk\<rparr> \<and>
        blocks (bufs_of s') blk = Some (take (unat len) data) \<and>
        (b \<in> set (io_buffer_cache (bufs_of s)) \<or> bufs (bufs_of s) b = None) \<and>
        b \<in> um_keys (io_buffer_in_use (bufs_of s')) \<and> ctxs (res s') = ctxs (res s)"
proof -
  have r: "rcore (res s)" by (rule core_invD [OF assms])
  obtain b s1 where g: "get_buffer env s = (Some b, s1)" "step_ok s s1" "bufs (bufs_of s1) b \<noteq> None"
      "b \<notin> set (io_buffer_cache (bufs_of s1))" "ctxs (res s1) = ctxs (res s)"
      "key_ptr_cache (res s1) = key_ptr_cache (res s)" "rm_socks (res s1) = rm_socks (res s)" "os_log s1 = os_log s"
    using get_buffer_ok [OF r] by blast
  have r1: "rcore (res s1)" by (rule step_okD(1) [OF g(2)])
  obtain x where x: "bufs (bufs_of s1) b = Some x" using g(3) by blast
  let ?s2 = "on_bufs (sent_bufs b x len data) s1"
  have live: "ctx_live c ?s2 = ctx_live c s"
    using g(2,5,6) by (simp add: ctx_live_def step_ok_def)
  note eq = SendData_eq [OF g(1) x, of c data len]
  show "length data < unat len \<Longrightarrow> SendDataUserInterface env c data len s = Inl OutOfBounds"
    and "unat len \<le> length data \<Longrightarrow> \<not> ctx_live c s \<Longrightarrow>
      SendDataUserInterface env c data len s = Inl UseAfterFree"
    using eq live by (simp_all add: PostWriteRequestEvent_raw_def)
  assume len: "unat len \<le> length data" and l: "ctx_live c s"
  have 2: "step_ok s1 ?s2" by (rule sent_bufs_ok [OF r1 x g(4) len])
  have "sock_val (context_socket c ?s2) ?s2 = sock_val (context_socket c s) s"
    using sock_val_cong [of ?s2 s] g(5,7) by (simp add: context_socket_def)
  moreover have "GetBufferSize b (bufs_of ?s2) = len" by (simp add: GetBufferSize_def sent_bufs_def)
  ultimately obtain s3 h where 3: "PostWriteRequestEvent_raw env c b ?s2 = Inr s3" "step_ok ?s2 s3"
      "sock_val (context_socket c s) s = Inr h" "os_log s3 = os_log s @ [WSASend h b (ucast len)]" "res s3 = res ?s2"
    using PostWrite_raw_ok [OF step_okD(1) [OF 2], of c env b] live l g(8) by auto
  have "bufs_of s3 = sent_bufs b x len data (bufs_of s1)" using 3(5) by (simp add: bufs_of_def)
  moreover have "SendDataUserInterface env c data len s = Inr s3" "step_ok s s3"
    using eq len 3(1) step_ok_trans [OF g(2) step_ok_trans [OF 2 3(2)]] by auto
  moreover have "ctxs (res s3) = ctxs (res s)" using 3(5) g(5) by simp
  ultimately show "\<exists>s' h b blk x. SendDataUserInterface env c data len s = Inr s' \<and> step_ok s s' \<and>
        sock_val (context_socket c s) s = Inr h \<and> os_log s' = os_log s @ [WSASend h b (ucast len)] \<and>
        bufs (bufs_of s') b = Some x \<and> io_wsa_buf x = \<lparr>ws_len = ucast len, ws_buf = Some blk\<rparr> \<and>
        blocks (bufs_of s') blk = Some (take (unat len) data) \<and>
        (b \<in> set (io_buffer_cache (bufs_of s)) \<or> bufs (bufs_of s) b = None) \<and>
        b \<in> um_keys (io_buffer_in_use (bufs_of s')) \<and> ctxs (res s') = ctxs (res s)"
    using 3(3,4) get_buffer_source [OF r g(1)]
    by (intro exI [of _ s3] exI [of _ h] exI [of _ b] exI [of _ "next_block (bufs_of s1)"]) (simp add: sent_bufs_def)
qed

text \<open>Shutting down.\<close>

lemma Finalize_core:
  assumes "core_inv s"
  shows "core_inv (on_res res_Finalize s)"
  using assms rcore_Finalize sock_ok_mono [OF _ heap_le_DestroyPool] by (simp add: core_inv_def res_Finalize_frame)

lemma exit_loop_ends [simp]:
  "exit_turn (env\<lparr>ie_thread_ends := f\<rparr>) cfg s = exit_turn env cfg s"
  "exit_loop (env\<lparr>ie_thread_ends := f\<rparr>) cfg n s = exit_loop env cfg n s"
  "PostExitEvent (env\<lparr>ie_thread_ends := f\<rparr>) cfg s = PostExitEvent env cfg s"
proof -
  have e: "get_buffer (env\<lparr>ie_thread_ends := f\<rparr>) = get_buffer env"
    "get_socket (env\<lparr>ie_thread_ends := f\<rparr>) = get_socket env"
    by (simp_all add: get_buffer_def get_socket_def fun_eq_iff)
  show 1: "exit_turn (env\<lparr>ie_thread_ends := f\<rparr>) cfg s = exit_turn env cfg s" for s
    unfolding exit_turn_def e ..
  show 2: "exit_loop (env\<lparr>ie_thread_ends := f\<rparr>) cfg n s = exit_loop env cfg n s" for n s
  proof (induction n arbitrary: s)
    case (Suc n)
    show ?case unfolding exit_loop.simps 1 Suc ..
  qed simp
  show "PostExitEvent (env\<lparr>ie_thread_ends := f\<rparr>) cfg s = PostExitEvent env cfg s"
    by (simp add: PostExitEvent_def n_threads_def 2)
qed

lemma StopService_run:
  assumes "core_inv s" and "accept_key s = Some ak" and "pool_inv (iocp_pool s)"
    and "\<And>a. a \<in> set (workpool (iocp_pool s)) \<Longrightarrow> ie_thread_ends env a"
  shows "\<exists>r bs p. StopService env cfg s =
       Inr (True, s\<lparr>res := (if resource_worker_started s then res_Finalize r else r), iocp_pool := p,
              os_log := os_log s @ map (PostQueuedCompletionStatus ak) bs,
              inflight := inflight s @ map (Pair ak) bs\<rparr>) \<and>
     exit_loop env cfg (n_threads env) s =
       Inr (s\<lparr>res := r, os_log := os_log s @ map (PostQueuedCompletionStatus ak) bs,
             inflight := inflight s @ map (Pair ak) bs\<rparr>) \<and>
     length bs = n_threads env \<and> step_ok s (s\<lparr>res := r\<rparr>) \<and>
     (if thread_pool_started s then Stop (ie_thread_ends env) (iocp_pool s) = Inr (workpool (iocp_pool s), p)
      else p = iocp_pool s)"
proof -
  obtain r bs where 1: "exit_loop env cfg (n_threads env) s =
       Inr (s\<lparr>res := r, os_log := os_log s @ map (PostQueuedCompletionStatus ak) bs,
             inflight := inflight s @ map (Pair ak) bs\<rparr>)" "length bs = n_threads env" "step_ok s (s\<lparr>res := r\<rparr>)"
    using exit_loop_ok [OF assms(1,2)] by blast
  obtain p where "Stop (ie_thread_ends env) (iocp_pool s) = Inr (workpool (iocp_pool s), p)"
    using Stop_result [OF assms(3), of "ie_thread_ends env"] assms(4) by simp
  then show ?thesis
    using 1 by (intro exI [of _ r] exI [of _ bs] exI [of _ "if thread_pool_started s then p else iocp_pool s"])
      (simp add: StopService_def PostExitEvent_def on_res_def)
qed

text \<open>A worker that never ends keeps \<open>StopService\<close> from returning.\<close>

lemma StopService_hangs:
  assumes "core_inv s" and "accept_key s = Some ak" and "pool_inv (iocp_pool s)" and "thread_pool_started s"
    and "a \<in> set (workpool (iocp_pool s))" and "\<not> ie_thread_ends env a"
  shows "StopService env cfg s = Inl NeverReturns"
proof -
  obtain r bs where "exit_loop env cfg (n_threads env) s =
       Inr (s\<lparr>res := r, os_log := os_log s @ map (PostQueuedCompletionStatus ak) bs,
             inflight := inflight s @ map (Pair ak) bs\<rparr>)"
    using exit_loop_ok [OF assms(1,2)] by blast
  moreover have "Stop (ie_thread_ends env) (iocp_pool s) = Inl NeverReturns"
    using Stop_result [OF assms(3), of "ie_thread_ends env"] assms(5,6) by auto
  ultimately show ?thesis using assms(4) by (simp add: StopService_def PostExitEvent_def)
qed

lemma StopService_ends:
  assumes "core_inv s" and "accept_key s = Some ak" and "pool_inv (iocp_pool s)" and "thread_pool_started s"
    and "StopService env cfg s = Inr r" and "a \<in> set (workpool (iocp_pool s))"
  shows "ie_thread_ends env a"
  using StopService_hangs [OF assms(1-4,6), of env cfg] assms(5) by auto

lemma StopService_ok:
  assumes "core_inv s" and "accept_key s = Some ak" and "pool_inv (iocp_pool s)"
    and "\<And>a. a \<in> set (workpool (iocp_pool s)) \<Longrightarrow> ie_thread_ends env a"
  shows "\<exists>s' bs. StopService env cfg s = Inr (True, s') \<and> core_inv s' \<and> accept_key s' = Some ak \<and>
     thread_pool_started s' = thread_pool_started s \<and> length bs = n_threads env \<and>
     os_log s' = os_log s @ map (PostQueuedCompletionStatus ak) bs \<and>
     (thread_pool_started s \<longrightarrow>
        Stop (ie_thread_ends env) (iocp_pool s) = Inr (workpool (iocp_pool s), iocp_pool s'))"
proof -
  obtain r bs p where run: "StopService env cfg s =
       Inr (True, s\<lparr>res := (if resource_worker_started s then res_Finalize r else r), iocp_pool := p,
              os_log := os_log s @ map (PostQueuedCompletionStatus ak) bs,
              inflight := inflight s @ map (Pair ak) bs\<rparr>)"
    and st: "length bs = n_threads env" "step_ok s (s\<lparr>res := r\<rparr>)"
      "if thread_pool_started s then Stop (ie_thread_ends env) (iocp_pool s) = Inr (workpool (iocp_pool s), p)
       else p = iocp_pool s"
    using StopService_run [OF assms, of cfg] by blast
  let ?r = "if resource_worker_started s then res_Finalize r else r"
  have c: "core_inv (s\<lparr>res := r\<rparr>)" by (rule step_ok_inv [OF assms(1) st(2)])
  then have "core_inv (s\<lparr>res := ?r\<rparr>)" using Finalize_core [OF c] by (simp add: on_res_def)
  then have "core_inv (s\<lparr>res := ?r, iocp_pool := p, os_log := l, inflight := q\<rparr>)" for l q
    by (simp add: core_inv_def)
  then show ?thesis
    unfolding run using st(1,3) assms(2) by (intro exI [of _ "s\<lparr>res := ?r, iocp_pool := p,
              os_log := os_log s @ map (PostQueuedCompletionStatus ak) bs,
              inflight := inflight s @ map (Pair ak) bs\<rparr>"] exI [of _ bs]) simp
qed

text \<open>Starting up.\<close>

lemma rcore_Listen:
  assumes "rcore r" and "sock_ok (rm_socks r) p" and "GetListenSocketCompletionKey env p r = (c, r')"
  shows "rcore r'" and "ctxs r' c \<noteq> None" and "c \<notin> um_keys (key_ptr_cache r')"
    and "rm_socks r' = rm_socks r"
proof -
  have i: "rm_inv r" using assms(1) by (simp add: rcore_def)
  note g = GetListenSocketCompletionKey_props [OF i assms(3)]
  show "ctxs r' c \<noteq> None" "c \<notin> um_keys (key_ptr_cache r')" by (fact g)+
  show "rm_socks r' = rm_socks r" by (fact g)
  show "rcore r'" using assms(1,2) g by (auto simp: rcore_def ctxs_typed_def)
qed

lemma new_socket_inv: "sock_inv p \<Longrightarrow> sock_inv (snd (new_socket env p))"
  using sock_inv_fresh [of p] by (auto simp: sock_inv_def new_socket_def less_Suc_eq)

text \<open>\<open>before_key\<close>: without an accept key nothing is associated with the port or pending.\<close>

definition before_key :: "iocp \<Rightarrow> bool" where
  "before_key s = (accept_key s = None \<longrightarrow> inflight s = [] \<and> (\<forall>h. assoc s h = None))"

definition init_inv :: "iocp \<Rightarrow> bool" where
  "init_inv s =
     (core_inv s \<and> pool_inv (iocp_pool s) \<and> list_all read_callback (os_log s) \<and> before_key s)"

text \<open>The listening socket is made; it is bound and listens if it is a stream socket and valid.\<close>

definition listens :: "iocp_env \<Rightarrow> Json \<Rightarrow> iocp \<Rightarrow> bool" where
  "listens env cfg s =
     (GT_READ_CFG_BOOL cfg ''server_cfg'' ''enable_tcp_mode'' True \<and>
      env_WSASocket (re_sock (ie_res env)) (sock_calls (rm_socks (res s))) \<noteq> INVALID_SOCKET)"

lemma InitializeListenSocket_run:
  assumes n: "new_socket (re_sock (ie_res env)) (rm_socks (res s)) = (a, sp)"
  shows "\<exists>v l. InitializeListenSocket env cfg s =
       Inr (listens env cfg s \<longrightarrow> ie_bind env \<noteq> SOCKET_ERROR \<and> ie_listen env \<noteq> SOCKET_ERROR,
            s\<lparr>res := (res s)\<lparr>rm_socks := sp\<rparr>, listen_socket_ptr := Some a, serveraddr := v, os_log := os_log s @ l\<rparr>) \<and>
     list_all read_callback l \<and>
     (ie_bind env \<noteq> SOCKET_ERROR \<and> ie_listen env \<noteq> SOCKET_ERROR \<longrightarrow>
        length l = (if listens env cfg s then 4 else 1))"
proof -
  let ?tcp = "GT_READ_CFG_BOOL cfg ''server_cfg'' ''enable_tcp_mode'' True"
  let ?h = "env_WSASocket (re_sock (ie_res env)) (sock_calls (rm_socks (res s)))"
  let ?s2 = "s\<lparr>res := (res s)\<lparr>rm_socks := sp\<rparr>, os_log := os_log s @ [WSASocket ?tcp], listen_socket_ptr := Some a\<rparr>"
  have run: "InitializeListenSocket env cfg s = Inr (listen_on env cfg ?h ?s2)"
    using n by (auto simp: InitializeListenSocket_def CreateOverlappedSocket_def n Let_def sock_val_def new_socket_def
        on_res_def os_def)
  show ?thesis
  proof (cases "listens env cfg s")
    case True
    let ?a = "\<lparr>sin_port = htons (GT_READ_CFG_INT cfg ''server_cfg'' ''server_port'' 5555), sin_addr = 0\<rparr>"
    show ?thesis
      unfolding run using True
      by (intro exI [of _ "Some ?a"] exI [of _ "[WSASocket ?tcp, SetExclusiveAddrUse ?h, BindTo ?h ?a] @
            (if ie_bind env = SOCKET_ERROR then [] else [ListenOn ?h])"])
        (simp add: listen_on_def listens_def Let_def os_def)
  next
    case False
    then have "listen_on env cfg ?h ?s2 = (True, ?s2\<lparr>serveraddr := serveraddr s\<rparr>)"
      by (auto simp: listen_on_def listens_def)
    then show ?thesis
      unfolding run using False by (intro exI [of _ "serveraddr s"] exI [of _ "[WSASocket ?tcp]"]) simp
  qed
qed

lemma InitializeListenSocket_shape:
  assumes "InitializeListenSocket env cfg s = Inr (ok, s')"
  shows "\<exists>a sp v l. s' = s\<lparr>res := (res s)\<lparr>rm_socks := sp\<rparr>, listen_socket_ptr := Some a, serveraddr := v,
     os_log := os_log s @ l\<rparr>"
proof -
  obtain a sp where "new_socket (re_sock (ie_res env)) (rm_socks (res s)) = (a, sp)" by fastforce
  then show ?thesis using InitializeListenSocket_run [of env s a sp cfg] assms by auto
qed

lemma InitializeListenSocket_inv:
  assumes "init_inv s" and "InitializeListenSocket env cfg s = Inr (ok, s')"
  shows "init_inv s'" and "sock_ok (rm_socks (res s')) (listen_socket_ptr s')"
proof -
  obtain a sp where n: "new_socket (re_sock (ie_res env)) (rm_socks (res s)) = (a, sp)" by fastforce
  have c: "core_inv s" using assms(1) by (simp add: init_inv_def)
  then have si: "sock_inv (rm_socks (res s))" using core_invD(2) by (auto simp: rm_inv_def)
  have h: "heap_le (rm_socks (res s)) sp" using heap_le_new_socket [OF si, of "re_sock (ie_res env)"] n by simp
  have sp: "sock_inv sp" using new_socket_inv [OF si, of "re_sock (ie_res env)"] n by simp
  let ?r = "(res s)\<lparr>rm_socks := sp\<rparr>"
  have r: "rcore ?r" by (rule rcore_socks [OF core_invD(1) [OF c] sp h])
  have a: "sock_ok sp (Some a)" using n by (auto simp: sock_ok_def new_socket_def)
  obtain v l where s': "s' = s\<lparr>res := ?r, listen_socket_ptr := Some a, serveraddr := v, os_log := os_log s @ l\<rparr>"
      "list_all read_callback l"
    using InitializeListenSocket_run [OF n, of cfg] assms(2) by auto
  show "sock_ok (rm_socks (res s')) (listen_socket_ptr s')" using a by (simp add: s'(1))
  show "init_inv s'" using assms(1) s' r a by (auto simp: init_inv_def core_inv_def before_key_def)
qed

lemma step_ok_init_inv:
  assumes "init_inv s" and "step_ok s s'" and "before_key s'"
  shows "init_inv s'"
proof -
  have "iocp_pool s' = iocp_pool s" using assms(2) by (simp add: step_ok_def)
  then show ?thesis
    using assms step_ok_inv [of s s'] step_okD(7) [OF assms(2)] log_le_reads
    by (simp add: init_inv_def)
qed

lemma open_accept_ok:
  assumes i: "init_inv s" and l: "sock_ok (rm_socks (res s)) (listen_socket_ptr s)"
    and a: "acceptex_func s" "sockaddrs_func s"
  shows "\<exists>ok s'. open_accept env cfg s = Inr (ok, s') \<and> init_inv s' \<and> accept_key s' \<noteq> None \<and>
     iocp_pool s' = iocp_pool s \<and> thread_pool_started s' = thread_pool_started s \<and>
     ok = (ie_port env (call_no s) = completion_port s) \<and> call_no s < call_no s'"
proof -
  have r: "rcore (res s)" using i core_invD(1) by (simp add: init_inv_def)
  let ?s3 = "s\<lparr>resource_worker_started := True\<rparr>"
  obtain ak r2 where k: "GetListenSocketCompletionKey (ie_res env) (listen_socket_ptr s) (res s) = (ak, r2)"
    by fastforce
  note K = rcore_Listen [OF r l k]
  let ?s4 = "?s3\<lparr>res := SetSocketContexAddr ak (serveraddr ?s3) r2, accept_key := Some ak\<rparr>"
  have rc4: "rcore (res ?s4)" using rcore_ctx_ops(2) [OF K(1)] by (simp add: SetSocketContexAddr_def)
  have c4: "core_inv ?s4"
    using rc4 K l a
    by (simp add: core_inv_def SetSocketContexAddr_def SetContextSocketAddr_def frame_simps ctxs_upd_ctx)
  have i4: "init_inv ?s4" using c4 i by (simp add: init_inv_def before_key_def)
  have l4: "sock_ok (rm_socks (res ?s4)) (listen_socket_ptr ?s4)"
    using l K(4) by (simp add: SetSocketContexAddr_def SetContextSocketAddr_def frame_simps)
  obtain okb s5 where b: "BindSocketToCompletionPort env (listen_socket_ptr ?s4) ak ?s4 = Inr (okb, s5)"
      "step_ok ?s4 s5"
    using BindSocket_ok [OF rc4 l4] by blast
  have okb: "okb = (ie_port env (call_no s) = completion_port s)"
    using b(1) by (auto simp: BindSocketToCompletionPort_def Let_def bindR_eq_Inr call_no_def os_def)
  have n5: "call_no s < call_no s5"
    using b(1) by (auto simp: BindSocketToCompletionPort_def Let_def bindR_eq_Inr call_no_def os_def)
  have a5: "accept_key s5 = Some ak"
    and p5: "iocp_pool s5 = iocp_pool s" "thread_pool_started s5 = thread_pool_started s"
    using b(2) by (auto simp: step_ok_def)
  have i5: "init_inv s5"
    by (rule step_ok_init_inv [OF i4 b(2)]) (simp add: before_key_def a5)
  have c5: "core_inv s5" using i5 by (simp add: init_inv_def)
  obtain s6 where s6: "repeatR (n_threads env) (PostAnotherAcceptEvent env cfg) s5 = Inr s6" "step_ok s5 s6"
    using repeat_accept_ok [OF c5] a5 by blast
  have a6: "accept_key s6 = Some ak"
    and p6: "iocp_pool s6 = iocp_pool s5" "thread_pool_started s6 = thread_pool_started s5"
    using s6(2) a5 by (auto simp: step_ok_def)
  have i6: "init_inv s6"
    by (rule step_ok_init_inv [OF i5 s6(2)]) (simp add: before_key_def a6)
  have "open_accept env cfg s = (if \<not> okb then Inr (False, s5) else Inr (True, s6))"
    using k b(1) s6(1) by (simp add: open_accept_def Let_def PrePostAcceptEvent_def)
  moreover have "call_no s < call_no s6"
    using n5 step_okD(7) [OF s6(2)] by (auto simp: log_le_def call_no_def)
  ultimately show ?thesis using i5 i6 a5 a6 p5 p6 okb n5 by (cases okb) auto
qed

lemma init_services_ok:
  assumes i: "init_inv s" and l: "sock_ok (rm_socks (res s)) (listen_socket_ptr s)"
    and a: "acceptex_func s" "sockaddrs_func s"
    and r1: "res_Initialize (ie_res env) cfg (res s) = Inr (ret, r1)"
  shows "\<exists>ok s'. init_services env cfg s = Inr (ok, s') \<and> init_inv s' \<and>
     iocp_pool s' = Start (n_threads env) (iocp_pool s) \<and> thread_pool_started s' \<and>
     (ok \<longrightarrow> accept_key s' \<noteq> None) \<and> ok = (ret \<and> ie_port env (call_no s) = completion_port s) \<and>
     (ret \<longrightarrow> call_no s < call_no s')"
proof -
  have c: "core_inv s" using i by (simp add: init_inv_def)
  note R = rcore_Initialize [OF core_invD(1) [OF c] r1]
  let ?s2 = "(InitThreadPool env (s\<lparr>need_wait := False\<rparr>))\<lparr>res := r1\<rparr>"
  have l2: "sock_ok (rm_socks (res ?s2)) (listen_socket_ptr ?s2)"
    using sock_ok_mono [OF l R(2)] by (simp add: InitThreadPool_def)
  have p2: "iocp_pool ?s2 = Start (n_threads env) (iocp_pool s)" "thread_pool_started ?s2" by (simp_all add: InitThreadPool_def)
  have i2: "init_inv ?s2"
    using i R l2 a Start_inv by (auto simp: init_inv_def core_inv_def InitThreadPool_def before_key_def)
  have a2: "acceptex_func ?s2" "sockaddrs_func ?s2" using a by (simp_all add: InitThreadPool_def)
  have eq: "init_services env cfg s = (if \<not> ret then Inr (False, ?s2) else open_accept env cfg ?s2)"
    using r1 by (simp add: init_services_def Let_def InitThreadPool_def)
  have "call_no ?s2 = call_no s" "completion_port ?s2 = completion_port s"
    by (simp_all add: call_no_def InitThreadPool_def)
  then show ?thesis
    using eq i2 p2 open_accept_ok [OF i2 l2 a2, of env cfg] by (cases ret) auto
qed

lemma init_services_inv:
  assumes "init_inv s" and "sock_ok (rm_socks (res s)) (listen_socket_ptr s)"
    and "acceptex_func s" "sockaddrs_func s" and run: "init_services env cfg s = Inr (ok, s')"
  shows "init_inv s'"
proof -
  obtain ret r1 where "res_Initialize (ie_res env) cfg (res s) = Inr (ret, r1)"
    using run by (auto simp: init_services_def Let_def InitThreadPool_def bindR_eq_Inr)
  from init_services_ok [OF assms(1-4) this] run show ?thesis by auto
qed

lemma init_body_run:
  assumes sys: "ie_WSAStartup env = 0" "ie_version env = (2, 2)"
    and s1: "InitializeListenSocket env cfg s = Inr (ok1, s1)"
    and s2: "s2 = snd (GetAcceptEXFuncAddress env s1)"
    and s3: "s3 = snd (GetAcceptExSockAddrsFuncAddress env s2)"
  shows "init_body env cfg s =
     (if \<not> ok1 then Inr (False, s1) else if \<not> acceptex_func s2 then Inr (False, s2)
      else if \<not> sockaddrs_func s3 then Inr (False, s3)
      else if ie_new_port env = INVALID_HANDLE_VALUE then Inr (True, s3\<lparr>completion_port := ie_new_port env\<rparr>)
      else init_services env cfg (s3\<lparr>completion_port := ie_new_port env\<rparr>))"
proof -
  have "fst (GetAcceptEXFuncAddress env s1) = acceptex_func s2"
    "fst (GetAcceptExSockAddrsFuncAddress env s2) = sockaddrs_func s3"
    by (auto simp: s2 s3 GetAcceptEXFuncAddress_def GetAcceptExSockAddrsFuncAddress_def Let_def)
  then show ?thesis
    using assms by (simp add: init_body_def Let_def split_beta)
qed

lemma ext_funcs:
  assumes "s2 = snd (GetAcceptEXFuncAddress env s1)" and "s3 = snd (GetAcceptExSockAddrsFuncAddress env s2)"
  shows "init_inv s1 \<Longrightarrow> init_inv s2" "init_inv s2 \<Longrightarrow> init_inv s3"
    "acceptex_func s3 = acceptex_func s2" "res s3 = res s1" "listen_socket_ptr s3 = listen_socket_ptr s1"
    "iocp_pool s3 = iocp_pool s1" "ie_AcceptEx_addr env \<Longrightarrow> acceptex_func s2"
    "ie_SockAddrs_addr env \<Longrightarrow> sockaddrs_func s3"
  by (auto simp: assms GetAcceptEXFuncAddress_def GetAcceptExSockAddrsFuncAddress_def Let_def
      init_inv_def core_inv_def before_key_def)

lemma init_body_inv:
  assumes "init_inv s" and "init_body env cfg s = Inr (ok, s')"
  shows "init_inv s'"
proof (cases "ie_WSAStartup env \<noteq> 0 \<or> ie_version env \<noteq> (2, 2)")
  case True
  then have "s' = s" using assms(2) by (cases "ie_version env") (auto simp: init_body_def split: if_splits)
  then show ?thesis using assms(1) by simp
next
  case False
  then have sys: "ie_WSAStartup env = 0" "ie_version env = (2, 2)" by auto
  obtain ok1 s1 where 1: "InitializeListenSocket env cfg s = Inr (ok1, s1)"
    using assms(2) sys by (cases "InitializeListenSocket env cfg s") (auto simp: init_body_def)
  note L = InitializeListenSocket_inv [OF assms(1) 1]
  define s2 where "s2 = snd (GetAcceptEXFuncAddress env s1)"
  define s3 where "s3 = snd (GetAcceptExSockAddrsFuncAddress env s2)"
  note run = init_body_run [OF sys 1 s2_def s3_def]
  note e = ext_funcs [OF s2_def s3_def]
  let ?s4 = "s3\<lparr>completion_port := ie_new_port env\<rparr>"
  have i4: "init_inv ?s4" using e(1,2) L(1) by (simp add: init_inv_def core_inv_def before_key_def)
  have "init_inv s'" if "init_services env cfg ?s4 = Inr (ok, s')" "acceptex_func s2" "sockaddrs_func s3"
    using init_services_inv [OF i4 _ _ _ that(1)] L(2) that(2,3) e by simp
  then show ?thesis
    using run assms(2) L(1) e(1,2) i4 by (auto split: if_splits)
qed

lemma iocp_Initialize_inv:
  assumes "init_inv s" and "iocp_Initialize env cfg s = Inr (ok, s')"
  shows "init_inv s'"
proof (cases "is_inited s")
  case False
  then obtain ret s1 where 1: "init_body env cfg s = Inr (ret, s1)"
    using assms(2) by (cases "init_body env cfg s") (auto simp: iocp_Initialize_def)
  have i1: "init_inv s1" by (rule init_body_inv [OF assms(1) 1])
  have i2: "init_inv (s1\<lparr>is_inited := True\<rparr>)" using i1 by (simp add: init_inv_def core_inv_def before_key_def)
  have "init_inv (os WSACleanup s1)"
    using i1 by (simp add: init_inv_def core_inv_def before_key_def os_def)
  then have "init_inv (on_res res_Finalize (os WSACleanup s1))"
    using Finalize_core by (simp add: init_inv_def before_key_def)
  then show ?thesis using assms(2) False 1 i2 by (auto simp: iocp_Initialize_def Let_def split: if_splits)
qed (use assms in \<open>simp add: iocp_Initialize_def\<close>)

section \<open>Runs of the server\<close>

text \<open>
  A run interleaves start-up, the user's calls, the resource collector and the completions of
  operations in flight, in any order and with any outcome of every operation. Shutdown ends it:
  \<open>StopService\<close> is treated by theorems of its own.
\<close>

inductive iocp_step :: "iocp_env \<Rightarrow> Json \<Rightarrow> iocp \<Rightarrow> iocp \<Rightarrow> bool" for env cfg where
  init: "iocp_Initialize env cfg s = Inr (ok, s') \<Longrightarrow> iocp_step env cfg s s'"
| start: "iocp_step env cfg s (GTStartService s)"
| complete: "(k, b) \<in> set (inflight s) \<Longrightarrow> need_wait s \<Longrightarrow>
    c_key ev = Some k \<Longrightarrow> c_overlapped ev = Some b \<Longrightarrow>
    GetCompletionPortEventStatus env cfg ev (s\<lparr>inflight := remove1 (k, b) (inflight s)\<rparr>) = Inr s' \<Longrightarrow>
    iocp_step env cfg s s'"
| send: "SendDataUserInterface env c data len s = Inr s' \<Longrightarrow> iocp_step env cfg s s'"
| collect: "ResourceCollector (ie_res env) (res s) = Inr r \<Longrightarrow> iocp_step env cfg s (s\<lparr>res := r\<rparr>)"

inductive iocp_reachable :: "iocp_env \<Rightarrow> Json \<Rightarrow> iocp \<Rightarrow> bool" for env cfg where
  start: "iocp_reachable env cfg iocp_init"
| step: "iocp_reachable env cfg s \<Longrightarrow> iocp_step env cfg s s' \<Longrightarrow> iocp_reachable env cfg s'"

lemma core_upd [simp]:
  "core_inv (s\<lparr>inflight := x\<rparr>) = core_inv s" "buf_live b (s\<lparr>inflight := x\<rparr>) = buf_live b s"
  "ctx_live c (s\<lparr>inflight := x\<rparr>) = ctx_live c s"
  by (simp_all add: core_inv_def buf_live_def live_ctxs_def bufs_of_def ctx_live_def)

lemma get_buffer_frame:
  "get_buffer env s = (p, s') \<Longrightarrow> iocp_pool s' = iocp_pool s \<and> inflight s' = inflight s \<and> assoc s' = assoc s"
  by (auto simp: get_buffer_def split: prod.splits)

lemma get_buffer_need_wait: "get_buffer env s = (p, s') \<Longrightarrow> need_wait s' = need_wait s"
  by (auto simp: get_buffer_def split: prod.splits)

lemma submit_inflight:
  "inflight (submit h b s) = inflight s @ (case assoc s h of None \<Rightarrow> [] | Some k \<Rightarrow> [(k, b)])"
  by (simp add: submit_def split: option.splits)

lemma PostWrite_raw_shape:
  assumes "PostWriteRequestEvent_raw env c b s = Inr s'"
  shows "\<exists>h n. s' = os (WSASend h b n) s \<or> s' = submit h b (os (WSASend h b n) s)"
proof -
  obtain h where "sock_val (context_socket c s) s = Inr h"
    using assms by (auto simp: PostWriteRequestEvent_raw_def PostWriteRequestEvent_def bindR_eq_Inr
        split: if_splits)
  then show ?thesis
    using assms by (simp add: PostWriteRequestEvent_raw_def PostWriteRequestEvent_def Let_def
        split: if_split_asm) blast+
qed

text \<open>Sending before there is an accept key leaves nothing pending.\<close>

lemma SendData_shell:
  assumes "SendDataUserInterface env c data len s = Inr s'"
  shows "before_key s \<Longrightarrow> accept_key s' = accept_key s \<Longrightarrow> before_key s'"
proof -
  obtain p s1 where g: "get_buffer env s = (p, s1)" by fastforce
  note f = get_buffer_frame [OF g]
  have w: "assoc s' = assoc x \<and> ((\<forall>h. assoc x h = None) \<longrightarrow> inflight s' = inflight x)"
    if "PostWriteRequestEvent_raw env c b x = Inr s'" for b x
    using PostWrite_raw_shape [OF that] by (auto simp: submit_inflight)
  have "(\<forall>h. assoc s h = None) \<longrightarrow> assoc s' = assoc s \<and> inflight s' = inflight s"
  proof (cases p)
    case None
    then show ?thesis using assms f by (simp add: SendDataUserInterface_def g)
  next
    case (Some b)
    then obtain blk where "PostWriteRequestEvent_raw env c b
        (on_bufs (\<lambda>m. m\<lparr>blocks := (blocks m)(blk \<mapsto> take (unat len) data)\<rparr>)
          (on_bufs (\<lambda>m. snd (AllocateIOBufferBySize b len m)) s1)) = Inr s'"
      using assms by (auto simp: SendDataUserInterface_def g Let_def split: option.splits if_splits)
    then show ?thesis using w f by fastforce
  qed
  then show "before_key s \<Longrightarrow> accept_key s' = accept_key s \<Longrightarrow> before_key s'"
    by (auto simp: before_key_def)
qed

lemma iocp_step_inv: "iocp_step env cfg s s' \<Longrightarrow> init_inv s \<Longrightarrow> init_inv s'"
proof (induction rule: iocp_step.induct)
  case (init s ok s')
  then show ?case using iocp_Initialize_inv by blast
next
  case (start s)
  then show ?case by (simp add: GTStartService_def init_inv_def core_inv_def before_key_def)
next
  case (complete k b s ev s')
  let ?s = "s\<lparr>inflight := remove1 (k, b) (inflight s)\<rparr>"
  have ak: "accept_key s \<noteq> None"
    using complete.hyps(1) complete.prems by (auto simp: init_inv_def before_key_def)
  have c: "core_inv ?s" using complete.prems by (simp add: init_inv_def)
  have ok: "step_ok ?s s'"
    using GetCompletionPortEventStatus_ok [OF c, of env cfg ev] ak complete.hyps(5) by auto
  have "init_inv ?s" using complete.prems ak by (auto simp: init_inv_def before_key_def)
  moreover have "accept_key s' \<noteq> None" using ok ak by (simp add: step_ok_def)
  ultimately show ?case by (intro step_ok_init_inv [OF _ ok]) (auto simp: before_key_def)
next
  case (send c data len s s')
  have c: "core_inv s" using send.prems by (simp add: init_inv_def)
  have u1: "unat len \<le> length data"
    using SendData_ok(1) [OF c, of data len env] send.hyps by (cases "length data < unat len") auto
  then have u2: "ctx_live c s"
    using SendData_ok(2) [OF c u1, of c env] send.hyps by (cases "ctx_live c s") auto
  then have ok: "step_ok s s'" using SendData_ok(3) [OF c u1 u2, of env] send.hyps by auto
  then have "accept_key s' = accept_key s" by (simp add: step_ok_def)
  then show ?case
    using step_ok_init_inv [OF send.prems ok] SendData_shell [OF send.hyps] send.prems
    by (simp add: init_inv_def)
next
  case (collect s r)
  have rc: "rcore (res s)" using collect.prems core_invD(1) by (simp add: init_inv_def)
  note R = rcore_ResourceCollector [OF rc collect.hyps]
  then show ?case using collect.prems by (auto simp: init_inv_def core_inv_def before_key_def)
qed

lemma init_inv_init: "init_inv iocp_init"
proof -
  have "pool_inv (iocp_pool iocp_init)" using pool_inv_init by (simp add: iocp_init_def)
  moreover have "before_key iocp_init" by (simp add: before_key_def iocp_init_def)
  moreover have "os_log iocp_init = []" by (simp add: iocp_init_def)
  ultimately show ?thesis using core_inv_init by (simp add: init_inv_def)
qed

lemma iocp_reachable_inv: "iocp_reachable env cfg s \<Longrightarrow> init_inv s"
  by (induction rule: iocp_reachable.induct) (auto intro: init_inv_init iocp_step_inv)

section \<open>What the handlers do\<close>

lemma PostRead_log:
  assumes "PostReadRequestEvent env c b s = Inr s'"
  shows "\<exists>h. sock_val (context_socket c s) s = Inr h \<and> os_log s' = os_log s @ [WSARecv h b] \<and>
     key_ptr_cache (res s') = key_ptr_cache (res s) \<and> rm_socks (res s') = rm_socks (res s) \<and>
     ctxs (res s') = ctxs (res s) \<and> client_num s' = client_num s"
  using assms
  by (auto simp: PostReadRequestEvent_def bindR_eq_Inr Let_def frame_simps on_res_def os_def submit_def
      split: if_splits option.splits)

lemma PostAnotherRead_log:
  assumes r: "rcore (res s)" and run: "PostAnotherReadRequest env c s = Inr s'"
  shows "\<exists>h b. sock_val (context_socket c s) s = Inr h \<and> os_log s' = os_log s @ [WSARecv h b]"
proof -
  obtain b s1 where g: "get_buffer env s = (Some b, s1)" "ctxs (res s1) = ctxs (res s)"
      "os_log s1 = os_log s" "rm_socks (res s1) = rm_socks (res s)"
    using get_buffer_ok [OF r] by blast
  let ?sk = "context_socket c (on_bufs (SetIOBufferEventType b IO_EVENT_READ) s1)"
  let ?s3 = "on_bufs (SetIOBufferSocket b ?sk) (on_bufs (SetIOBufferEventType b IO_EVENT_READ) s1)"
  let ?s5 = "on_res (AddIOContext2Cache c b) (on_res (SetContextSocketAddr c (context_addr c ?s3)) ?s3)"
  have "PostReadRequestEvent env c b ?s5 = Inr s'"
    using run by (simp add: PostAnotherReadRequest_def g(1) Let_def)
  from PostRead_log [OF this] obtain h
    where h: "sock_val (context_socket c ?s5) ?s5 = Inr h" "os_log s' = os_log s @ [WSARecv h b]"
    using g(3) by auto
  have "context_socket c ?s5 = context_socket c s"
    using g(2) by (cases "ctxs (res s) c")
      (auto simp: context_socket_def AddIOContext2Cache_def SetContextSocketAddr_def ctxs_upd_ctx)
  moreover have "rm_socks (res ?s5) = rm_socks (res s)"
    using g(4) by (simp add: AddIOContext2Cache_def SetContextSocketAddr_def frame_simps)
  ultimately have "sock_val (context_socket c ?s5) ?s5 = sock_val (context_socket c s) s"
    using sock_val_cong [of ?s5 s] by presburger
  then show ?thesis using h by simp
qed

text \<open>Posting an accept does not touch the connections, nor the type and the socket of any.\<close>

definition conn_id :: "addr \<Rightarrow> iocp \<Rightarrow> (SOCKET_TYPE \<times> addr option) option" where
  "conn_id c s = map_option (\<lambda>x. (sock_type x, socket_shared_ptr x)) (ctxs (res s) c)"

lemma get_keys:
  "get_buffer env s = (p, s') \<Longrightarrow> rcore (res s) \<Longrightarrow> key_ptr_cache (res s') = key_ptr_cache (res s) \<and>
     client_num s' = client_num s \<and> ctxs (res s') = ctxs (res s)"
  "get_socket env cfg s = (p, s') \<Longrightarrow> key_ptr_cache (res s') = key_ptr_cache (res s) \<and>
     client_num s' = client_num s \<and> ctxs (res s') = ctxs (res s)"
  by (auto simp: get_buffer_def GetIOContextBuffer_def get_socket_def GetCachedSocket_def split: prod.splits)

lemma try_accept_keys:
  assumes "core_inv s" and "try_accept env cfg s = Inr (d, s')"
  shows "key_ptr_cache (res s') = key_ptr_cache (res s) \<and> client_num s' = client_num s \<and>
     (\<forall>k. conn_id k s' = conn_id k s)"
proof -
  obtain p s1 where g: "get_buffer env s = (p, s1)" by fastforce
  note k1 = get_keys(1) [OF g core_invD(1) [OF assms(1)]]
  show ?thesis
  proof (cases p)
    case None
    then show ?thesis using assms(2) g k1 by (auto simp: try_accept_def conn_id_def)
  next
    case (Some b)
    obtain sp s3 where q: "get_socket env cfg (on_bufs (SetIOBufferEventType b IO_EVENT_ACCEPT) s1) = (sp, s3)"
      by fastforce
    have k3: "key_ptr_cache (res s3) = key_ptr_cache (res s) \<and> client_num s3 = client_num s \<and>
        ctxs (res s3) = ctxs (res s)"
      using get_keys(2) [OF q] k1 by (simp add: on_bufs_def on_res_def)
    show ?thesis
      using assms(2) k3
      by (auto simp: try_accept_def g Some q Let_def bindR_eq_Inr frame_simps AddIOContext2Cache_def conn_id_def
          ctxs_upd_ctx option.map_comp comp_def split: option.splits if_splits)
  qed
qed

lemma PostAnotherAccept_keys:
  assumes "core_inv s" and "accept_key s \<noteq> None" and "PostAnotherAcceptEvent env cfg s = Inr s'"
  shows "key_ptr_cache (res s') = key_ptr_cache (res s) \<and> client_num s' = client_num s \<and>
     (\<forall>k. conn_id k s' = conn_id k s)"
proof -
  obtain ak where ak: "accept_key s = Some ak" using assms(2) by blast
  obtain d s1 where 1: "try_accept env cfg s = Inr (d, s1)" "step_ok s s1"
    using try_accept_ok [OF assms(1) ak] by blast
  note k1 = try_accept_keys [OF assms(1) 1(1)]
  show ?thesis
  proof (cases d)
    case True
    then show ?thesis using assms(3) 1(1) k1 by (simp add: PostAnotherAcceptEvent_def)
  next
    case False
    then obtain d2 where "try_accept env cfg s1 = Inr (d2, s')"
      using assms(3) 1(1) by (auto simp: PostAnotherAcceptEvent_def bindR_eq_Inr)
    from try_accept_keys [OF step_ok_inv [OF assms(1) 1(2)] this] k1 show ?thesis by simp
  qed
qed

lemma ProcessAccept_keys:
  assumes r: "rcore (res s)" and ok: "sock_ok (rm_socks (res s)) (GetClientSocketPtr b (bufs_of s))"
    and run: "ProcessAcceptEvent env b s = Inr s'"
  shows "\<exists>c x. ctxs (res s) c = None \<and> um_keys (key_ptr_cache (res s')) = insert c (um_keys (key_ptr_cache (res s))) \<and>
     c \<notin> um_keys (key_ptr_cache (res s)) \<and> client_num s' = client_num s \<and>
     ctxs (res s') c = Some x \<and> sock_type x = ACCEPTED_SOCKET \<and>
     socket_shared_ptr x = GetClientSocketPtr b (bufs_of s)"
proof -
  let ?sp = "GetClientSocketPtr b (bufs_of s)"
  obtain c r1 where c: "CreateNewSocketContext (ie_res env) ?sp ACCEPTED_SOCKET (res s) = (c, r1)"
    by fastforce
  have i: "rm_inv (res s)" using r by (simp add: rcore_def)
  note C = CreateNewSocketContext_props [OF i c]
  have r1: "rcore (res (s\<lparr>res := r1\<rparr>))" using rcore_Create(1) [OF r ok c] by simp
  obtain ob s2 where g: "get_buffer env (s\<lparr>res := r1\<rparr>) = (Some ob, s2)" "ctxs (res s2) = ctxs r1"
      "key_ptr_cache (res s2) = key_ptr_cache r1"
    using get_buffer_ok [OF r1] by fastforce
  have cl: "client_num s2 = client_num s" using get_keys(1) [OF g(1) r1] by simp
  let ?t = "on_bufs (SetIOBufferEventType ob IO_EVENT_READ) s2"
  let ?s4 = "on_bufs (SetIOBufferSocket ob (GetClientSocketPtr b (bufs_of ?t))) ?t"
  let ?s5 = "on_res (SetContextSocketAddr c (Some (ie_remote env (call_no s)))) ?s4"
  let ?s6 = "on_res (AddIOContext2Cache c ob) ?s5"
  obtain ok s7 where 7: "BindSocketToCompletionPort env (context_socket c ?s6) c ?s6 = Inr (ok, s7)"
      "(if \<not> ok then Inr s7 else PostReadRequestEvent env c ob s7) = Inr s'"
    using run by (auto simp: ProcessAcceptEvent_def c g(1) Let_def bindR_eq_Inr split: if_splits)
  have 8: "res s7 = res ?s6" "client_num s7 = client_num ?s6"
    using 7(1) by (auto simp: BindSocketToCompletionPort_def bindR_eq_Inr Let_def)
  have 9: "key_ptr_cache (res s') = key_ptr_cache (res s7)" "ctxs (res s') = ctxs (res s7)"
    "client_num s' = client_num s7"
    using 7(2) PostRead_log [of env c ob s7 s'] by (auto split: if_splits)
  have x: "ctxs (res ?s6) c = map_option
      (\<lambda>x. x\<lparr>socket_addr := Some (ie_remote env (call_no s)), socket_io_buffer_cache := um_insert ob ob (socket_io_buffer_cache x)\<rparr>)
      (ctxs (res s2) c)"
    by (cases "ctxs (res s2) c") (auto simp: AddIOContext2Cache_def SetContextSocketAddr_def ctxs_upd_ctx)
  have "key_ptr_cache (res ?s6) = key_ptr_cache r1"
    using g(3) by (simp add: AddIOContext2Cache_def SetContextSocketAddr_def frame_simps)
  then show ?thesis
    using C x 8 9 g(2) cl by (intro exI [of _ c]) (auto simp: GT_SocketConetxt_def)
qed

lemma ReleaseUsed_keys:
  "key_ptr_cache (ReleaseUsedIOContext env c b r) = key_ptr_cache r"
  by (simp add: ReleaseUsedIOContext_def Let_def frame_simps split: option.splits)

lemma ReleaseUsed_conn_id: "conn_id k (on_res (ReleaseUsedIOContext env c b) s) = conn_id k s"
  by (auto simp: conn_id_def ReleaseUsedIOContext_def Let_def frame_simps ctxs_upd_ctx option.map_comp comp_def
      split: option.splits)

text \<open>A completed accept adds one connection, of the accepted type and with the socket the buffer holds.\<close>

lemma dispatch_accept_table:
  assumes inv: "core_inv s" and acc: "accept_key s \<noteq> None" and b: "bufs (bufs_of s) b \<noteq> None"
    and e: "GetIOEventType b (bufs_of s) = IO_EVENT_ACCEPT"
    and run: "dispatch_event env cfg True n c b s = Inr s'"
  shows "\<exists>k. ctxs (res s) k = None \<and> k \<notin> um_keys (key_ptr_cache (res s)) \<and>
     um_keys (key_ptr_cache (res s')) = insert k (um_keys (key_ptr_cache (res s))) \<and>
     client_num s' = client_num s + 1 \<and> conn_id k s' = Some (ACCEPTED_SOCKET, GetClientSocketPtr b (bufs_of s))"
proof -
  have r: "rcore (res s)" by (rule core_invD [OF inv])
  let ?s1 = "s\<lparr>client_num := client_num s + 1\<rparr>"
  let ?s2 = "if n \<noteq> 0 then call_back IO_EVENT_READ c b n ?s1 else ?s1"
  have same: "bufs_of ?s2 = bufs_of s" "res ?s2 = res s" "client_num ?s2 = client_num s + 1"
    by (auto simp: call_back_def bufs_of_def os_def)
  obtain s3 s4 where 3: "ProcessAcceptEvent env b ?s2 = Inr s3" "PostAnotherAcceptEvent env cfg s3 = Inr s4"
      "s' = on_res (ReleaseUsedIOContext (ie_res env) c b) s4"
    using run e by (auto simp: dispatch_event_def Let_def bindR_eq_Inr)
  have 2: "step_ok s ?s2" using r by (intro step_ok_res) (auto simp: call_back_def)
  have c2: "core_inv ?s2" by (rule step_ok_inv [OF inv 2])
  have r2: "rcore (res ?s2)" by (rule core_invD [OF c2])
  have so: "sock_ok (rm_socks (res ?s2)) (GetClientSocketPtr b (bufs_of ?s2))"
    using b e r unfolding same by (auto simp: GetIOEventType_def GetClientSocketPtr_def rcore_def bufs_typed_def bufs_of_def)
  obtain k where k: "ctxs (res ?s2) k = None" "k \<notin> um_keys (key_ptr_cache (res ?s2))"
      "um_keys (key_ptr_cache (res s3)) = insert k (um_keys (key_ptr_cache (res ?s2)))" "client_num s3 = client_num ?s2"
      "conn_id k s3 = Some (ACCEPTED_SOCKET, GetClientSocketPtr b (bufs_of ?s2))"
    using ProcessAccept_keys [OF r2 so 3(1)] by (auto simp: conn_id_def)
  have sa: "sockaddrs_func ?s2" using inv acc by (auto simp: core_inv_def call_back_def)
  have b2: "bufs (bufs_of ?s2) b \<noteq> None" using b by (simp only: same) simp
  have ok3: "step_ok s s3"
    using step_ok_trans [OF 2] ProcessAccept_ok [OF c2 sa b2 so, of env] 3(1) by auto
  have "accept_key s3 \<noteq> None" using ok3 acc by (simp add: step_ok_def)
  note k4 = PostAnotherAccept_keys [OF step_ok_inv [OF inv ok3] this 3(2)]
  have "client_num s' = client_num s4" by (simp add: 3(3) on_res_def)
  moreover have "conn_id k s' = conn_id k s4" unfolding 3(3) by (rule ReleaseUsed_conn_id)
  ultimately show ?thesis using k k4 3(3) unfolding same by (auto simp: ReleaseUsed_keys)
qed

section \<open>Properties\<close>

text \<open>A small concrete environment and a state with one connection, for the instances below.\<close>

definition demo_cfg :: Json where
  "demo_cfg = JObject
     [(''io_buffer_cfg'', JObject [(''pre_allocate_size'', JInt 1), (''buffer_size'', JInt 128)]),
      (''socket_pool_cfg'', JObject [(''pre_allocate_socket_num'', JInt 1)])]"

definition demo_env :: iocp_env where
  "demo_env = \<lparr>ie_res = res_env0, ie_concurrency = 1, ie_WSAStartup = 0, ie_version = (2, 2),
     ie_bind = 0, ie_listen = 0, ie_AcceptEx_addr = True, ie_SockAddrs_addr = True,
     ie_new_port = 7, ie_ret = (\<lambda>_. 1), ie_err = (\<lambda>_. 0), ie_port = (\<lambda>_. 7),
     ie_remote = (\<lambda>_. \<lparr>sin_port = 80, sin_addr = 1\<rparr>), ie_thread_ends = (\<lambda>_. True)\<rparr>"

definition demo_state :: "IO_EVENT_TYPE \<Rightarrow> iocp" where
  "demo_state t = iocp_init
     \<lparr>res := res_init
        \<lparr>rm_bufs := buf_mgr_init
           \<lparr>bufs := [1 \<mapsto> \<lparr>io_socket_ptr = Some 2, io_wsa_buf = \<lparr>ws_len = 4, ws_buf = Some 1\<rparr>,
               io_buffer = Some 1, io_buffer_size = 4, io_event_type = t\<rparr>],
            next_buf := 2, blocks := [1 \<mapsto> [0, 0, 0, 0]], next_block := 2, io_buffer_in_use := [(1, 1)]\<rparr>,
         rm_socks := socket_pool_init
           \<lparr>socket_inuse_pool := [(2, 2)], sock_heap := [1 \<mapsto> 100, 2 \<mapsto> 101], next_sock := 3\<rparr>,
         ctxs := [1 \<mapsto> \<lparr>sock_type = LISTEN_SOCKET, socket_shared_ptr = Some 1, socket_addr = None,
                      socket_io_buffer_cache = [], time_control = 0, check_time = 1\<rparr>,
                  2 \<mapsto> \<lparr>sock_type = ACCEPTED_SOCKET, socket_shared_ptr = Some 2, socket_addr = None,
                      socket_io_buffer_cache = [(1, 1)], time_control = 0, check_time = 1\<rparr>],
         next_ctx := 3, key_ptr_cache := [(2, 2)], key_hash_set := [2]\<rparr>,
      listen_socket_ptr := Some 1, accept_key := Some 1, acceptex_func := True, sockaddrs_func := True\<rparr>"

lemma demo_state_inv:
  assumes "t \<noteq> IO_EVENT_WRITE"
  shows "core_inv (demo_state t)"
proof -
  let ?r = "res (demo_state t)"
  have "buf_inv (rm_bufs ?r)" "cache_zero (rm_bufs ?r)"
    by (auto simp: demo_state_def buf_inv_def buf_mgr_init_def wf_buffer_def um_ok_def um_self_def
        um_keys_def cache_zero_def split: if_splits)
  moreover have "sock_inv (rm_socks ?r)"
    by (auto simp: demo_state_def sock_inv_def socket_pool_init_def um_ok_def um_self_def um_keys_def
        split: if_splits)
  moreover have "keys_ok ?r"
    by (auto simp: demo_state_def keys_ok_def res_init_def um_ok_def um_self_def um_keys_def split: if_splits)
  moreover have "ctx_ok (rm_bufs ?r) x" if "ctxs ?r c = Some x" for c x
    using that by (auto simp: demo_state_def ctx_ok_def um_ok_def um_self_def um_keys_def split: if_splits)
  ultimately have "rm_inv ?r" by (simp add: rm_inv_def)
  moreover have "bufs_typed (rm_socks ?r) (rm_bufs ?r)" "ctxs_typed (rm_socks ?r) (ctxs ?r)"
    using assms
    by (auto simp: demo_state_def bufs_typed_def ctxs_typed_def sock_ok_def buf_mgr_init_def split: if_splits)
  ultimately show ?thesis
    by (auto simp: core_inv_def rcore_def) (auto simp: demo_state_def um_keys_def sock_ok_def)
qed

lemma demo_state_simps:
  "ctxs (res (demo_state t)) c \<noteq> None \<longleftrightarrow> c \<in> {1, 2}" "bufs (bufs_of (demo_state t)) 1 \<noteq> None"
  "accept_key (demo_state t) = Some 1" "GetIOEventType 1 (bufs_of (demo_state t)) = t"
  by (auto simp: demo_state_def bufs_of_def GetIOEventType_def)

text \<open>When initialisation succeeds.\<close>

lemma buf_Initialize_ok:
  assumes "buf_inv m" and "\<not> io_buffer_manager_inited m"
    and "0 < sint (GT_READ_CFG_INT cfg ''io_buffer_cfg'' ''pre_allocate_size'' 2000)"
  shows "fst (buf_Initialize cfg m)"
proof -
  let ?n = "GT_READ_CFG_INT cfg ''io_buffer_cfg'' ''pre_allocate_size'' 2000"
  let ?m = "m\<lparr>pre_allocate_size := int_to_size ?n,
     buffer_size := int_to_size (GT_READ_CFG_INT cfg ''io_buffer_cfg'' ''buffer_size'' (4 * 1024)),
     re_allocate_size := int_to_size (GT_READ_CFG_INT cfg ''io_buffer_cfg'' ''reallocate_size'' 1000)\<rparr>"
  have i: "buf_inv ?m" using assms(1) by (simp add: buf_inv_def wf_buffer_def)
  have "0 < unat (int_to_size ?n)" using assms(3) int_to_size_nonneg [of ?n] by simp
  then have "io_buffer_cache ((alloc_cached ^^ unat (int_to_size ?n)) ?m) \<noteq> []"
    using alloc_cached_n(4) [OF i, of "unat (int_to_size ?n)"] by fastforce
  then show ?thesis using assms(2) by (simp add: buf_Initialize_def PreAllocateSomeIOBuffer_def Let_def)
qed

lemma res_Initialize_succeeds:
  assumes "rm_inv r" and "0 < sint (GT_READ_CFG_INT cfg ''io_buffer_cfg'' ''pre_allocate_size'' 2000)"
    and "int_mult (GT_READ_CFG_INT cfg ''server_cfg'' ''out_date_control'' 120) 1000 = Inr od"
    and "int_mult (GT_READ_CFG_INT cfg ''server_cfg'' ''connect_check_interval'' 30000) 1000 = Inr ci"
  shows "\<exists>r'. res_Initialize env cfg r = Inr (True, r')"
proof -
  have "buf_inv (rm_bufs r)" using assms(1) by (simp add: rm_inv_def)
  then have "fst (buf_Initialize cfg (rm_bufs r))"
    using buf_Initialize_ok assms(2) by (cases "io_buffer_manager_inited (rm_bufs r)") (simp_all add: buf_Initialize_def)
  then show ?thesis
    using assms(3,4) by (auto simp: res_Initialize_def sock_Initilize_def split_beta Let_def)
qed

text \<open>The number of the call that binds the listening socket to the port.\<close>

definition port_call :: "iocp_env \<Rightarrow> Json \<Rightarrow> iocp \<Rightarrow> nat" where
  "port_call env cfg s = call_no s + (if listens env cfg s then 4 else 1)"

lemma init_body_outcome:
  assumes i: "init_inv s"
    and sys: "ie_WSAStartup env = 0" "ie_version env = (2, 2)" "ie_bind env = 0" "ie_listen env = 0"
      "ie_AcceptEx_addr env" "ie_SockAddrs_addr env" "ie_new_port env \<noteq> INVALID_HANDLE_VALUE"
    and cfg: "0 < sint (GT_READ_CFG_INT cfg ''io_buffer_cfg'' ''pre_allocate_size'' 2000)"
      "int_mult (GT_READ_CFG_INT cfg ''server_cfg'' ''out_date_control'' 120) 1000 = Inr od"
      "int_mult (GT_READ_CFG_INT cfg ''server_cfg'' ''connect_check_interval'' 30000) 1000 = Inr ci"
  shows "\<exists>s'. init_body env cfg s = Inr (ie_port env (port_call env cfg s) = ie_new_port env, s') \<and> init_inv s' \<and>
     iocp_pool s' = Start (n_threads env) (iocp_pool s) \<and> thread_pool_started s' \<and> port_call env cfg s < call_no s' \<and>
     (ie_port env (port_call env cfg s) = ie_new_port env \<longrightarrow> accept_key s' \<noteq> None)"
proof -
  obtain a sp where n: "new_socket (re_sock (ie_res env)) (rm_socks (res s)) = (a, sp)" by fastforce
  have "ie_bind env \<noteq> SOCKET_ERROR" "ie_listen env \<noteq> SOCKET_ERROR"
    using sys(3,4) by (simp_all add: SOCKET_ERROR_def)
  then obtain s1 where 1: "InitializeListenSocket env cfg s = Inr (True, s1)" and f: "iocp_pool s1 = iocp_pool s"
      and n1: "call_no s1 = port_call env cfg s"
    using InitializeListenSocket_run [OF n, of cfg] by (auto simp: port_call_def call_no_def)
  note L = InitializeListenSocket_inv [OF i 1]
  define s2 where "s2 = snd (GetAcceptEXFuncAddress env s1)"
  define s3 where "s3 = snd (GetAcceptExSockAddrsFuncAddress env s2)"
  note run = init_body_run [OF sys(1,2) 1 s2_def s3_def]
  note e = ext_funcs [OF s2_def s3_def]
  let ?s4 = "s3\<lparr>completion_port := ie_new_port env\<rparr>"
  have i4: "init_inv ?s4" using e(1,2) L(1) by (simp add: init_inv_def core_inv_def before_key_def)
  have a4: "acceptex_func ?s4" "sockaddrs_func ?s4" using e(3,7,8) sys(5,6) by simp_all
  have l4: "sock_ok (rm_socks (res ?s4)) (listen_socket_ptr ?s4)" using L(2) e(4,5) by simp
  have n4: "call_no ?s4 = port_call env cfg s"
    using n1 by (simp add: call_no_def s2_def s3_def GetAcceptEXFuncAddress_def GetAcceptExSockAddrsFuncAddress_def Let_def)
  have "core_inv ?s4" using i4 by (simp add: init_inv_def)
  then have "rm_inv (res ?s4)" by (rule core_invD)
  then obtain r1 where "res_Initialize (ie_res env) cfg (res ?s4) = Inr (True, r1)"
    using res_Initialize_succeeds [OF _ cfg] by blast
  from init_services_ok [OF i4 l4 a4 this] obtain ok s' where
    "init_services env cfg ?s4 = Inr (ok, s')" "init_inv s'" "iocp_pool s' = Start (n_threads env) (iocp_pool s)"
      "thread_pool_started s'" "ok \<longrightarrow> accept_key s' \<noteq> None"
      "ok = (ie_port env (port_call env cfg s) = ie_new_port env)" "port_call env cfg s < call_no s'"
    using n4 e(6) f by auto
  then show ?thesis using run a4 e(3) sys(7) by simp
qed

lemma init_success:
  assumes sys: "ie_WSAStartup env = 0" "ie_version env = (2, 2)" "ie_bind env = 0" "ie_listen env = 0"
      "ie_AcceptEx_addr env" "ie_SockAddrs_addr env"
    and port: "ie_new_port env \<noteq> INVALID_HANDLE_VALUE" "\<And>n. ie_port env n = ie_new_port env"
    and cfg: "0 < sint (GT_READ_CFG_INT cfg ''io_buffer_cfg'' ''pre_allocate_size'' 2000)"
      "int_mult (GT_READ_CFG_INT cfg ''server_cfg'' ''out_date_control'' 120) 1000 = Inr od"
      "int_mult (GT_READ_CFG_INT cfg ''server_cfg'' ''connect_check_interval'' 30000) 1000 = Inr ci"
  shows "\<exists>s. iocp_Initialize env cfg iocp_init = Inr (True, s) \<and> core_inv s \<and> is_inited s \<and>
     accept_key s \<noteq> None \<and> thread_pool_started s \<and> length (workpool (iocp_pool s)) = n_threads env"
proof -
  obtain s' where s': "init_body env cfg iocp_init = Inr (True, s')" "init_inv s'"
      "iocp_pool s' = Start (n_threads env) (iocp_pool iocp_init)" "thread_pool_started s'" "accept_key s' \<noteq> None"
    using init_body_outcome [OF init_inv_init sys port(1) cfg] port(2) by auto
  have "iocp_Initialize env cfg iocp_init = Inr (True, s'\<lparr>is_inited := True\<rparr>)"
    using s'(1) by (simp add: iocp_Initialize_def) (simp add: iocp_init_def)
  moreover have "core_inv (s'\<lparr>is_inited := True\<rparr>)" using s'(2) by (simp add: init_inv_def core_inv_def)
  moreover have "length (workpool (iocp_pool s')) = n_threads env"
    using s'(3) by (simp add: Start_length) (simp add: iocp_init_def pool_init_def)
  ultimately show ?thesis using s'(4,5) by simp
qed

lemma demo_cfg_simps:
  "GT_READ_CFG_INT demo_cfg ''io_buffer_cfg'' ''pre_allocate_size'' 2000 = 1"
  "GT_READ_CFG_INT demo_cfg ''server_cfg'' ''out_date_control'' 120 = 120"
  "GT_READ_CFG_INT demo_cfg ''server_cfg'' ''connect_check_interval'' 30000 = 30000"
  "int_mult 120 1000 = Inr 120000" "int_mult 30000 1000 = Inr 30000000"
  by (simp_all add: GT_READ_CFG_INT_def cfg_get_def member_def demo_cfg_def minInt_def maxInt_def int_mult_def)

lemma demo_reachable:
  "\<exists>s. iocp_reachable demo_env demo_cfg s \<and> accept_key s \<noteq> None \<and> thread_pool_started s \<and>
     workpool (iocp_pool s) \<noteq> [] \<and> iocp_Initialize demo_env demo_cfg iocp_init = Inr (True, s)"
proof -
  have "n_threads demo_env = 2" by (simp add: n_threads_def demo_env_def)
  then obtain s where "iocp_Initialize demo_env demo_cfg iocp_init = Inr (True, s)" "accept_key s \<noteq> None"
      "thread_pool_started s" "length (workpool (iocp_pool s)) = 2"
    using init_success [of demo_env demo_cfg 120000 30000000] demo_cfg_simps
    by (auto simp: demo_env_def INVALID_HANDLE_VALUE_def)
  moreover from this have "workpool (iocp_pool s) \<noteq> []" by auto
  ultimately show ?thesis using iocp_reachable.step [OF iocp_reachable.start iocp_step.init] by blast
qed

text \<open>C32: With a system that answers every request, a fresh server initialises: it ends up in a consistent
  state with an accept key of its own, and with two workers per hardware thread.\<close>

theorem initialise_success:
  assumes sys: "ie_WSAStartup env = 0" "ie_version env = (2, 2)" "ie_bind env = 0" "ie_listen env = 0"
      "ie_AcceptEx_addr env" "ie_SockAddrs_addr env"
    and port: "ie_new_port env \<noteq> INVALID_HANDLE_VALUE" "\<And>n. ie_port env n = ie_new_port env"
    and bufs: "0 < sint (GT_READ_CFG_INT cfg ''io_buffer_cfg'' ''pre_allocate_size'' 2000)"
    and times: "int_mult (GT_READ_CFG_INT cfg ''server_cfg'' ''out_date_control'' 120) 1000 = Inr od"
      "int_mult (GT_READ_CFG_INT cfg ''server_cfg'' ''connect_check_interval'' 30000) 1000 = Inr ci"
  shows "\<exists>s. iocp_Initialize env cfg iocp_init = Inr (True, s) \<and> core_inv s \<and> is_inited s \<and>
     accept_key s \<noteq> None \<and> thread_pool_started s \<and> length (workpool (iocp_pool s)) = n_threads env"
  using init_success [OF assms] .

theorem initialise_success_witness:
  "\<exists>s. iocp_Initialize demo_env demo_cfg iocp_init = Inr (True, s) \<and> accept_key s \<noteq> None \<and>
     length (workpool (iocp_pool s)) = 2"
proof -
  have "n_threads demo_env = 2" by (simp add: n_threads_def demo_env_def)
  then show ?thesis
    using initialise_success [of demo_env demo_cfg 120000 30000000] demo_cfg_simps
    by (auto simp: demo_env_def INVALID_HANDLE_VALUE_def)
qed

text \<open>With a datagram socket, or when the system has no socket to give, the listening socket is neither bound
  nor listening, and its initialisation reports success.\<close>

theorem unbound_listener:
  assumes "\<not> listens env cfg s"
  shows "\<exists>s'. InitializeListenSocket env cfg s = Inr (True, s') \<and>
     os_log s' = os_log s @ [WSASocket (GT_READ_CFG_BOOL cfg ''server_cfg'' ''enable_tcp_mode'' True)]"
proof -
  obtain a sp where "new_socket (re_sock (ie_res env)) (rm_socks (res s)) = (a, sp)" by fastforce
  then show ?thesis
    using assms by (auto simp: InitializeListenSocket_def CreateOverlappedSocket_def listen_on_def listens_def
        Let_def sock_val_def new_socket_def on_res_def os_def)
qed

theorem unbound_listener_witness:
  "\<exists>s'. InitializeListenSocket demo_env
       (JObject [(''server_cfg'', JObject [(''enable_tcp_mode'', JBool False)])]) iocp_init = Inr (True, s') \<and>
     os_log s' = [WSASocket False]"
proof -
  let ?c = "JObject [(''server_cfg'', JObject [(''enable_tcp_mode'', JBool False)])]"
  have "\<not> GT_READ_CFG_BOOL ?c ''server_cfg'' ''enable_tcp_mode'' True"
    by (simp add: GT_READ_CFG_BOOL_def cfg_get_def member_def)
  then show ?thesis
    using unbound_listener [of demo_env ?c iocp_init] by (simp add: listens_def) (simp add: iocp_init_def)
qed

text \<open>C1: In every state a run of the server reaches once its accept key exists, whatever completion the
  kernel reports, handling it is within the defined behaviour of C++ and leads to a state in
  order again, with one exception: the buffer of the operation has been freed in the meantime.
  So every completion is handled safely as long as buffers outlive their operations.\<close>

theorem completion_handler_safe:
  assumes "iocp_reachable env cfg s" and "accept_key s \<noteq> None" and "c_overlapped ev = Some b"
  shows "(\<exists>s'. GetCompletionPortEventStatus env cfg ev s = Inr s' \<and> core_inv s') \<or>
     (need_wait s \<and> \<not> buf_live b s \<and> GetCompletionPortEventStatus env cfg ev s = Inl UseAfterFree)"
proof -
  have c: "core_inv s" using iocp_reachable_inv [OF assms(1)] by (simp add: init_inv_def)
  from GetCompletionPortEventStatus_ok [OF c assms(2), of env cfg ev] show ?thesis
    using step_ok_inv [OF c] assms(3) by auto
qed

theorem completion_handler_safe_witness:
  "\<exists>s. accept_key s \<noteq> None \<and>
     (GetCompletionPortEventStatus demo_env demo_cfg
        \<lparr>c_ret = True, c_bytes = 3, c_key = Some 1, c_overlapped = Some 1\<rparr> s = Inl UseAfterFree \<or>
      (\<exists>s'. GetCompletionPortEventStatus demo_env demo_cfg
        \<lparr>c_ret = True, c_bytes = 3, c_key = Some 1, c_overlapped = Some 1\<rparr> s = Inr s' \<and> core_inv s'))"
proof -
  obtain s where "iocp_reachable demo_env demo_cfg s" "accept_key s \<noteq> None"
    using demo_reachable by blast
  from completion_handler_safe [OF this, of "\<lparr>c_ret = True, c_bytes = 3, c_key = Some 1, c_overlapped = Some 1\<rparr>" 1]
  show ?thesis using \<open>accept_key s \<noteq> None\<close> by auto
qed

text \<open>C2: In every reachable state the map of connections and the set the collector sweeps hold the same
  keys; each is the address of an existing context with a socket; the accept key is none of
  them; and every buffer that was given an event type has a socket.\<close>

theorem reachable_consistent:
  assumes "iocp_reachable env cfg s"
  shows "set (key_hash_set (res s)) = um_keys (key_ptr_cache (res s)) \<and>
     (\<forall>c \<in> um_keys (key_ptr_cache (res s)). GetCompletionKeyPtr c (res s) = Some c \<and>
        sock_ok (rm_socks (res s)) (context_socket c s)) \<and>
     (\<forall>ak. accept_key s = Some ak \<longrightarrow> ak \<notin> um_keys (key_ptr_cache (res s))) \<and>
     (\<forall>b. GetIOEventType b (bufs_of s) \<noteq> IO_EVENT_NULL \<longrightarrow>
        sock_ok (rm_socks (res s)) (GetClientSocketPtr b (bufs_of s)))"
proof -
  have c: "core_inv s" using iocp_reachable_inv [OF assms] by (simp add: init_inv_def)
  have r: "rcore (res s)" and i: "rm_inv (res s)" using core_invD [OF c] by auto
  have self: "um_self (key_ptr_cache (res s))"
    and ks: "set (key_hash_set (res s)) = um_keys (key_ptr_cache (res s))"
    and ex: "\<And>k. k \<in> um_keys (key_ptr_cache (res s)) \<Longrightarrow> ctxs (res s) k \<noteq> None"
    using i by (auto simp: rm_inv_def keys_ok_def)
  have "GetCompletionKeyPtr k (res s) = Some k" if "k \<in> um_keys (key_ptr_cache (res s))" for k
    using um_self_find_iff [OF self] that by (simp add: GetCompletionKeyPtr_def)
  moreover have "sock_ok (rm_socks (res s)) (GetClientSocketPtr b (bufs_of s))"
    if "GetIOEventType b (bufs_of s) \<noteq> IO_EVENT_NULL" for b
    using that r by (cases "bufs (bufs_of s) b")
      (auto simp: GetIOEventType_def GetClientSocketPtr_def rcore_def bufs_typed_def bufs_of_def)
  moreover have "\<forall>ak. accept_key s = Some ak \<longrightarrow> ak \<notin> um_keys (key_ptr_cache (res s))"
    using c by (simp add: core_inv_def)
  ultimately show ?thesis using ks context_socket_ok [OF r ex] by blast
qed

theorem reachable_consistent_witness:
  "\<exists>s. iocp_Initialize demo_env demo_cfg iocp_init = Inr (True, s) \<and>
     (\<forall>ak. accept_key s = Some ak \<longrightarrow> ak \<notin> um_keys (key_ptr_cache (res s)))"
proof -
  obtain s where "iocp_reachable demo_env demo_cfg s" "iocp_Initialize demo_env demo_cfg iocp_init = Inr (True, s)"
    using demo_reachable by blast
  with reachable_consistent [OF this(1)] show ?thesis by blast
qed

text \<open>No run of the server ever reports a write event to the user: every callback it makes is for a
  read event, also the one for a completed write.\<close>

theorem only_read_callbacks:
  assumes "iocp_reachable env cfg s" and "CallBack type c b n \<in> set (os_log s)"
  shows "type = IO_EVENT_READ"
proof -
  have "list_all read_callback (os_log s)"
    using iocp_reachable_inv [OF assms(1)] by (simp add: init_inv_def)
  then show ?thesis using assms(2) by (auto simp: list_all_iff)
qed

theorem only_read_callbacks_witness:
  "\<exists>s. iocp_Initialize demo_env demo_cfg iocp_init = Inr (True, s) \<and>
     \<not> (\<exists>c b n. CallBack IO_EVENT_WRITE c b n \<in> set (os_log s))"
proof -
  obtain s where "iocp_reachable demo_env demo_cfg s" "iocp_Initialize demo_env demo_cfg iocp_init = Inr (True, s)"
    using demo_reachable by blast
  with only_read_callbacks [OF this(1)] show ?thesis by blast
qed

lemma read_completion:
  assumes "core_inv s" and "ctxs (res s) c \<noteq> None" and "bufs (bufs_of s) b \<noteq> None"
    and "accept_key s \<noteq> None"
    and "GetIOEventType b (bufs_of s) = IO_EVENT_READ" and "n \<noteq> 0"
  shows "\<exists>s' h b'. dispatch_event env cfg True n c b s = Inr s' \<and> core_inv s' \<and>
     sock_val (context_socket c s) s = Inr h \<and>
     os_log s' = os_log s @ [CallBack IO_EVENT_READ c b n, WSARecv h b']"
proof -
  obtain s' where s': "dispatch_event env cfg True n c b s = Inr s'" "step_ok s s'"
    using dispatch_ok [OF assms(1,4,2,3)] by blast
  let ?s2 = "on_res (ResetTimer (ie_res env) c) (call_back IO_EVENT_READ c b n s)"
  obtain s3 where 3: "PostAnotherReadRequest env c ?s2 = Inr s3"
      "s' = on_res (ReleaseUsedIOContext (ie_res env) c b) s3"
    using s'(1) assms(5,6) by (auto simp: dispatch_event_def Let_def bindR_eq_Inr)
  have "rcore (res ?s2)"
    using rcore_ctx_ops(1) [OF core_invD(1) [OF assms(1)]] by (simp add: call_back_def)
  from PostAnotherRead_log [OF this 3(1)] obtain h b'
    where h: "sock_val (context_socket c ?s2) ?s2 = Inr h" "os_log s3 = os_log ?s2 @ [WSARecv h b']"
    by blast
  have "context_socket c ?s2 = context_socket c s"
    by (cases "ctxs (res s) c") (auto simp: context_socket_def ResetTimer_def ctxs_upd_ctx call_back_def)
  moreover have "rm_socks (res ?s2) = rm_socks (res s)"
    by (simp add: ResetTimer_def frame_simps call_back_def)
  ultimately have "sock_val (context_socket c s) s = Inr h"
    using h(1) sock_val_cong [of ?s2 s] by metis
  moreover have "os_log s' = os_log s @ [CallBack IO_EVENT_READ c b n, WSARecv h b']"
    using h(2) 3(2) by (simp add: call_back_def)
  ultimately show ?thesis using s' step_ok_inv [OF assms(1) s'(2)] by blast
qed

text \<open>C24: A completed read with data reports the data to the user once, with the connection, the buffer
  and the number of bytes, and then posts one further read on the same socket; it issues no
  other call, and the state stays in order.\<close>

theorem read_event:
  assumes "core_inv s" and "ctxs (res s) c \<noteq> None" and "bufs (bufs_of s) b \<noteq> None"
    and "accept_key s \<noteq> None"
    and "GetIOEventType b (bufs_of s) = IO_EVENT_READ" and "n \<noteq> 0"
  shows "\<exists>s' h b'. dispatch_event env cfg True n c b s = Inr s' \<and> core_inv s' \<and>
     sock_val (context_socket c s) s = Inr h \<and>
     os_log s' = os_log s @ [CallBack IO_EVENT_READ c b n, WSARecv h b']"
  using read_completion [OF assms] .

theorem read_event_witness:
  "\<exists>s' h b'. dispatch_event demo_env demo_cfg True 3 2 1 (demo_state IO_EVENT_READ) = Inr s' \<and>
     os_log s' = [CallBack IO_EVENT_READ 2 1 3, WSARecv h b']"
proof -
  have c: "core_inv (demo_state IO_EVENT_READ)" by (rule demo_state_inv) simp
  have "os_log (demo_state IO_EVENT_READ) = []" by (simp add: demo_state_def iocp_init_def)
  then show ?thesis
    using read_event [OF c, of 2 1 3 demo_env demo_cfg] demo_state_simps by fastforce
qed

text \<open>C23: A completed accept adds exactly one connection, under a key that was free, with the accepted
  socket and of the accepted type, and counts one client more.\<close>

theorem accept_event:
  assumes "core_inv s" and "ctxs (res s) c \<noteq> None" and "bufs (bufs_of s) b \<noteq> None"
    and "accept_key s \<noteq> None" and "GetIOEventType b (bufs_of s) = IO_EVENT_ACCEPT"
  shows "\<exists>s' k x. dispatch_event env cfg True n c b s = Inr s' \<and> core_inv s' \<and>
     k \<notin> um_keys (key_ptr_cache (res s)) \<and>
     um_keys (key_ptr_cache (res s')) = insert k (um_keys (key_ptr_cache (res s))) \<and>
     ctxs (res s') k = Some x \<and> sock_type x = ACCEPTED_SOCKET \<and>
     socket_shared_ptr x = GetClientSocketPtr b (bufs_of s) \<and> client_num s' = client_num s + 1"
proof -
  obtain s' where s': "dispatch_event env cfg True n c b s = Inr s'" "step_ok s s'"
    using dispatch_ok [OF assms(1,4,2,3)] by blast
  with dispatch_accept_table [OF assms(1,4,3,5) s'(1)] step_ok_inv [OF assms(1) s'(2)]
  show ?thesis by (auto simp: conn_id_def)
qed

theorem accept_event_witness:
  "\<exists>s' k. dispatch_event demo_env demo_cfg True 0 1 1 (demo_state IO_EVENT_ACCEPT) = Inr s' \<and>
     um_keys (key_ptr_cache (res s')) = {k, 2} \<and> k \<noteq> 2 \<and> client_num s' = 1"
proof -
  have c: "core_inv (demo_state IO_EVENT_ACCEPT)" by (rule demo_state_inv) simp
  have "um_keys (key_ptr_cache (res (demo_state IO_EVENT_ACCEPT))) = {2}"
    "client_num (demo_state IO_EVENT_ACCEPT) = 0"
    by (simp_all add: demo_state_def iocp_init_def um_keys_def)
  then show ?thesis
    using accept_event [OF c, of 1 1 demo_env demo_cfg 0] demo_state_simps by fastforce
qed

text \<open>C25: A read of zero bytes, with or without an error, is the end of the connection: it is removed
  from the map and from the sweep set, its socket is closed, and the user is told nothing.\<close>

theorem client_exit_event:
  assumes "core_inv s" and "ctxs (res s) c \<noteq> None" and "GetIOEventType b (bufs_of s) = IO_EVENT_READ"
  shows "\<exists>s' h. dispatch_event env cfg ret 0 c b s = Inr s' \<and> core_inv s' \<and>
     um_keys (key_ptr_cache (res s')) = um_keys (key_ptr_cache (res s)) - {c} \<and>
     set (key_hash_set (res s')) = um_keys (key_ptr_cache (res s)) - {c} \<and>
     sock_val (context_socket c s) s = Inr h \<and>
     closed_socks (rm_socks (res s')) = closed_socks (rm_socks (res s)) @ [h] \<and> os_log s' = os_log s"
proof -
  have r: "rcore (res s)" and i: "rm_inv (res s)" using core_invD [OF assms(1)] by auto
  let ?s' = "on_res (ReleaseContext (ie_res env) c) s"
  have run: "dispatch_event env cfg ret 0 c b s = Inr ?s'"
    using assms(3) by (simp add: dispatch_event_def Let_def ReleaseCompletionKey_def)
  obtain x where x: "ctxs (res s) c = Some x" using assms(2) by blast
  obtain a h where a: "socket_shared_ptr x = Some a" "sock_heap (rm_socks (res s)) a = Some h"
    using context_socket_ok [OF r assms(2)] x by (auto simp: context_socket_def sock_ok_def)
  have "rm_socks (ReleaseContext (ie_res env) c (res s)) =
      CloseSockAndPush2ReusedPool (Some a) (rm_socks (res s))"
    using x a(1) by (simp add: ReleaseContext_def Let_def frame_simps split: option.splits)
  then have "closed_socks (rm_socks (res ?s')) = closed_socks (rm_socks (res s)) @ [h]"
    using CloseSock_closed [OF a(2)] by simp
  moreover have "sock_val (context_socket c s) s = Inr h"
    using x a by (simp add: context_socket_def sock_val_def)
  moreover have "core_inv ?s'" by (rule step_ok_inv [OF assms(1) ReleaseContext_ok [OF r]])
  ultimately show ?thesis using run ReleaseContext_keys(1,2) [OF i assms(2)] by simp
qed
theorem client_exit_event_witness:
  "\<exists>s'. dispatch_event demo_env demo_cfg False 0 2 1 (demo_state IO_EVENT_READ) = Inr s' \<and>
     um_keys (key_ptr_cache (res s')) = {} \<and> closed_socks (rm_socks (res s')) = [101]"
proof -
  have c: "core_inv (demo_state IO_EVENT_READ)" by (rule demo_state_inv) simp
  have "um_keys (key_ptr_cache (res (demo_state IO_EVENT_READ))) = {2}"
    "closed_socks (rm_socks (res (demo_state IO_EVENT_READ))) = []"
    "sock_val (context_socket 2 (demo_state IO_EVENT_READ)) (demo_state IO_EVENT_READ) = Inr 101"
    by (simp_all add: demo_state_def iocp_init_def um_keys_def socket_pool_init_def context_socket_def sock_val_def)
  then show ?thesis
    using client_exit_event [OF c, of 2 1 demo_env demo_cfg False] demo_state_simps by fastforce
qed


text \<open>C38: A read that cannot be posted leaves its buffer with two owners, when the release recycles it:
  the buffer is idle, so that the next request can be given it, and the connection still has it
  in its own map.\<close>

theorem failed_read_two_owners:
  assumes "core_inv s" and "GetIOBufferPtr c b (res s) = Some b"
    and "ie_ret env (call_no s) = SOCKET_ERROR" and "ie_err env (call_no s) \<noteq> WSA_IO_PENDING"
    and "9 < buf_random (re_buf (ie_res env)) (buf_calls (bufs_of s))"
  shows "\<exists>s'. PostReadRequestEvent env c b s = Inr s' \<and> b \<in> set (io_buffer_cache (bufs_of s')) \<and>
     GetIOBufferPtr c b (res s') = Some b"
proof -
  have i: "rm_inv (res s)" and r: "rcore (res s)" using core_invD [OF assms(1)] by auto
  obtain x where x: "ctxs (res s) c = Some x" "um_find b (socket_io_buffer_cache x) = Some b"
    using assms(2) by (cases "ctxs (res s) c") (auto simp: GetIOBufferPtr_def GetIOBufferCache_def)
  obtain h where h: "sock_val (context_socket c s) s = Inr h"
    using sock_val_ok [OF context_socket_ok [OF r, of c]] x(1) by auto
  let ?s' = "on_res (res_ReleaseIOBuffer (ie_res env) (Some b)) (os (WSARecv h b) s)"
  have "PostReadRequestEvent env c b s = Inr ?s'"
    using h assms(3,4) by (simp add: PostReadRequestEvent_def Let_def)
  moreover have "b \<in> set (io_buffer_cache (bufs_of ?s'))"
    using Release_recycle [where env = "re_buf (ie_res env)" and m = "bufs_of s" and b = b, OF assms(5)]
    by (simp add: bufs_of_def res_ReleaseIOBuffer_def Let_def)
  moreover have "GetIOBufferPtr c b (res ?s') = Some b"
    using assms(2) by (simp add: GetIOBufferPtr_def GetIOBufferCache_def frame_simps)
  ultimately show ?thesis by blast
qed

theorem failed_read_two_owners_witness:
  "\<exists>s'. PostReadRequestEvent (demo_env\<lparr>ie_ret := (\<lambda>_. -1)\<rparr>) 2 1 (demo_state IO_EVENT_READ) = Inr s' \<and>
     1 \<in> set (io_buffer_cache (bufs_of s')) \<and> GetIOBufferPtr 2 1 (res s') = Some 1"
proof -
  have c: "core_inv (demo_state IO_EVENT_READ)" by (rule demo_state_inv) simp
  have "GetIOBufferPtr 2 1 (res (demo_state IO_EVENT_READ)) = Some 1"
    by (simp add: demo_state_def GetIOBufferPtr_def GetIOBufferCache_def um_find_def)
  then show ?thesis
    by (intro failed_read_two_owners [OF c])
      (simp_all add: demo_env_def SOCKET_ERROR_def WSA_IO_PENDING_def res_env0_def buf_env0_def)
qed

text \<open>C37: Sending is decided by two conditions on what the user passes: a block shorter than its stated
  length is read out of bounds, the key of a connection that is gone is used after it was freed. Otherwise
  there is exactly one call, on the socket of the connection, for a buffer whose one descriptor holds a copy of
  the \<open>len\<close> bytes; but the number of descriptors the call is told is the number of bytes.\<close>

theorem send_data:
  assumes "core_inv s"
  shows "(if length data < unat len then SendDataUserInterface env c data len s = Inl OutOfBounds
     else if \<not> ctx_live c s then SendDataUserInterface env c data len s = Inl UseAfterFree
     else (\<exists>s' h b blk x. SendDataUserInterface env c data len s = Inr s' \<and> core_inv s' \<and>
        sock_val (context_socket c s) s = Inr h \<and> os_log s' = os_log s @ [WSASend h b (ucast len)] \<and>
        bufs (bufs_of s') b = Some x \<and> io_wsa_buf x = \<lparr>ws_len = ucast len, ws_buf = Some blk\<rparr> \<and>
        blocks (bufs_of s') blk = Some (take (unat len) data)))"
proof (cases "unat len \<le> length data \<and> ctx_live c s")
  case True
  then show ?thesis using SendData_ok(3) [OF assms, of len data c env] step_ok_inv [OF assms] by fastforce
qed (use SendData_ok(1,2) [OF assms, where data = data and len = len] in \<open>auto simp: not_less\<close>)

theorem send_data_witness:
  "SendDataUserInterface demo_env 2 [] 1 (demo_state IO_EVENT_NULL) = Inl OutOfBounds \<and>
   SendDataUserInterface demo_env 3 [7] 1 (demo_state IO_EVENT_NULL) = Inl UseAfterFree \<and>
   (\<exists>s'. SendDataUserInterface demo_env 2 [7] 1 (demo_state IO_EVENT_NULL) = Inr s')"
proof -
  have c: "core_inv (demo_state IO_EVENT_NULL)" by (rule demo_state_inv) simp
  have l: "ctx_live 2 (demo_state IO_EVENT_NULL)" "\<not> ctx_live 3 (demo_state IO_EVENT_NULL)"
    by (simp_all add: ctx_live_def demo_state_def um_find_def)
  show ?thesis
    using send_data [OF c, of "[]" 1 demo_env 2] send_data [OF c, of "[7]" 1 demo_env 2]
      send_data [OF c, of "[7]" 1 demo_env 3] l by auto
qed

text \<open>The length offered to \<open>AcceptEx\<close> for the first data: the buffer size less the 64 bytes of the two
  addresses, computed in 64 bits and cut to 32. With a configured size below 64 it wraps to
  almost 4 GB, far beyond the buffer.\<close>

theorem accept_length:
  "unat (accept_len len) =
     (if 64 \<le> unat len then (unat len - 64) mod 2 ^ 32 else 2 ^ 32 - 64 + unat len)"
proof (cases "64 \<le> unat len")
  case True
  then have "unat (len - 64) = unat len - 64" by (simp add: unat_sub word_le_nat_alt)
  then show ?thesis using True by (simp add: accept_len_def unsigned_ucast_eq take_bit_eq_mod)
next
  case False
  have "unat len < 2 ^ 64" using unsigned_less [of len, where 'a = nat] by simp
  then have "unat (len - 64) = 2 ^ 64 - 64 + unat len"
    using False by (simp add: unat_sub_if_size word_size not_le word_le_nat_alt)
  moreover have "(2 ^ 64 - 64 + n) mod 2 ^ 32 = (2 ^ 32 - 64 + n :: nat)" if "n < 64" for n
  proof -
    have "(18446744073709551552 + n) mod 4294967296 =
        (18446744073709551552 mod 4294967296 + n) mod 4294967296"
      by (rule mod_add_left_eq [symmetric])
    then show ?thesis using that by simp
  qed
  ultimately show ?thesis using False by (simp add: accept_len_def unsigned_ucast_eq take_bit_eq_mod)
qed


lemma get_shell:
  "get_buffer env s = (p, s') \<Longrightarrow> os_log s' = os_log s \<and> inflight s' = inflight s \<and> accept_key s' = accept_key s"
  "get_socket env cfg s = (p, s') \<Longrightarrow> os_log s' = os_log s \<and> inflight s' = inflight s \<and> accept_key s' = accept_key s"
  by (auto simp: get_buffer_def get_socket_def split: prod.splits)

lemma exit_loop_no_key:
  "rcore (res s) \<Longrightarrow> accept_key s = None \<Longrightarrow> exit_loop env cfg (Suc n) s = Inl NullDeref"
proof -
  assume r: "rcore (res s)" and a: "accept_key s = None"
  obtain b s1 where g: "get_buffer env s = (Some b, s1)" using get_buffer_ok [OF r] by blast
  obtain sp s3 where q: "get_socket env cfg (on_bufs (SetIOBufferEventType b IO_EVENT_EXIT) s1) = (sp, s3)"
    by fastforce
  have "accept_key s3 = None" using get_shell(1) [OF g] get_shell(2) [OF q] a by simp
  then show ?thesis by (simp add: exit_turn_def g q Let_def)
qed

text \<open>C15: Stopping a server with an accept key posts as many exit events as one start makes workers, whatever the
  size of the pool, each for the accept key, and then joins the workers of the pool in order. It returns, with true
  and in a state in order, exactly when every worker it joins ends; otherwise it waits for ever.\<close>

theorem stop_service:
  assumes "iocp_reachable env cfg s" and "accept_key s = Some ak" and "thread_pool_started s"
  shows "if \<forall>a \<in> set (workpool (iocp_pool s)). ie_thread_ends env a
     then \<exists>s' bs. StopService env cfg s = Inr (True, s') \<and> core_inv s' \<and>
       length bs = n_threads env \<and>
       os_log s' = os_log s @ map (PostQueuedCompletionStatus ak) bs \<and>
       Stop (ie_thread_ends env) (iocp_pool s) = Inr (workpool (iocp_pool s), iocp_pool s')
     else StopService env cfg s = Inl NeverReturns"
proof -
  have i: "core_inv s" "pool_inv (iocp_pool s)"
    using iocp_reachable_inv [OF assms(1)] by (auto simp: init_inv_def)
  show ?thesis
    using StopService_ok [OF i(1) assms(2) i(2), of env cfg] StopService_hangs [OF i(1) assms(2) i(2) assms(3)] assms(3)
    by (auto 0 3)
qed

theorem stop_service_witness:
  "(\<exists>s s' bs. iocp_Initialize demo_env demo_cfg iocp_init = Inr (True, s) \<and>
     StopService demo_env demo_cfg s = Inr (True, s') \<and> length bs = n_threads demo_env \<and>
     os_log s' = os_log s @ map (PostQueuedCompletionStatus (the (accept_key s))) bs)"
proof -
  obtain s ak where s: "iocp_reachable demo_env demo_cfg s" "accept_key s = Some ak" "thread_pool_started s"
      "iocp_Initialize demo_env demo_cfg iocp_init = Inr (True, s)"
    using demo_reachable by blast
  have "\<forall>a \<in> set (workpool (iocp_pool s)). ie_thread_ends demo_env a" by (simp add: demo_env_def)
  with stop_service [OF s(1-3)] s(2,4) show ?thesis by force
qed

text \<open>Stopping a server that has no accept key yet, as the caller does after a failed start,
  dereferences the null key as soon as there is a worker to be told.\<close>

theorem stop_without_key:
  assumes "iocp_reachable env cfg s" and "accept_key s = None" and "0 < n_threads env"
  shows "StopService env cfg s = Inl NullDeref"
proof -
  have "rcore (res s)" using iocp_reachable_inv [OF assms(1)] core_invD(1) by (simp add: init_inv_def)
  then have "exit_loop env cfg (Suc (n_threads env - 1)) s = Inl NullDeref"
    using exit_loop_no_key assms(2) by blast
  then show ?thesis using assms(3) by (simp add: StopService_def PostExitEvent_def)
qed

theorem stop_without_key_witness: "StopService demo_env demo_cfg iocp_init = Inl NullDeref"
  by (rule stop_without_key [OF iocp_reachable.start])
    (simp_all add: iocp_init_def n_threads_def demo_env_def)

text \<open>A second stop walks the same list of workers, whose entries the first one deleted.\<close>

theorem stop_twice:
  assumes "iocp_reachable env cfg s" and "accept_key s = Some ak" and "thread_pool_started s"
    and "workpool (iocp_pool s) \<noteq> []" and "StopService env cfg s = Inr (ok, s')"
  shows "StopService env cfg s' = Inl UseAfterFree"
proof -
  have c: "core_inv s" and p: "pool_inv (iocp_pool s)"
    using iocp_reachable_inv [OF assms(1)] by (auto simp: init_inv_def)
  have s': "core_inv s'" "accept_key s' = Some ak" "thread_pool_started s'"
      "Stop (ie_thread_ends env) (iocp_pool s) = Inr (workpool (iocp_pool s), iocp_pool s')"
    using StopService_ok [OF c assms(2) p StopService_ends [OF c assms(2) p assms(3,5)], of cfg] assms(3,5) by auto
  have "Stop (ie_thread_ends env) (iocp_pool s') = Inl UseAfterFree" by (rule Stop_twice [OF p assms(4) s'(4)])
  then show ?thesis
    using exit_loop_ok [OF s'(1,2), of env cfg "n_threads env"] s'(3)
    by (auto simp: StopService_def PostExitEvent_def)
qed

theorem stop_twice_witness:
  "\<exists>s s'. StopService demo_env demo_cfg s = Inr (True, s') \<and>
     StopService demo_env demo_cfg s' = Inl UseAfterFree"
proof -
  obtain s ak where s: "iocp_reachable demo_env demo_cfg s" "accept_key s = Some ak" "thread_pool_started s"
      "workpool (iocp_pool s) \<noteq> []"
    using demo_reachable by blast
  have i: "init_inv s" by (rule iocp_reachable_inv [OF s(1)])
  obtain s' where "StopService demo_env demo_cfg s = Inr (True, s')"
    using StopService_ok [of s ak demo_env demo_cfg] i s(2) by (auto simp: init_inv_def demo_env_def)
  with stop_twice [OF s this] show ?thesis by blast
qed

end
