(* ===== verification/IOCP_Server.thy ===== *)
theory IOCP_Server
  imports IOCP_Core GT_Log
begin

text \<open>
  \<open>GT_ServerManager\<close>, which owns the configuration, the log and the user's callbacks around the
  IOCP back end, and the exported functions of \<open>GTIOCP.cpp\<close>. The record holds the members of the
  manager and the state of the three singletons it drives. A callback is a value of the type
  \<open>'cb\<close>; \<open>None\<close> is the null function pointer. Calls to the log other than the initialisation are
  left out: they only append lines.
\<close>

section \<open>State\<close>

record srv_env =
  se_fs :: "string \<Rightarrow> os_file option"
  se_parse :: "string \<Rightarrow> Json \<Rightarrow> bool \<times> Json"
  se_show_num :: "Json \<Rightarrow> string"
  se_folder :: string
  se_iocp :: iocp_env

record 'cb server =
  server_initted :: bool
  srv_cfg_path :: string
  srv_log_level :: GT_LOG_LEVEL
  srv_log_name :: string
  srv_max_logsize :: size_t
  read_call_back :: "'cb option"
  write_call_back :: "'cb option"
  dispatch_bound :: bool              \<comment> \<open>\<open>dispatch_event_func_\<close> refers to \<open>DispatchEvent\<close>\<close>
  srv_cfg :: cfg_state
  srv_log :: log_state
  srv_iocp :: iocp

definition server_init :: "'cb server" where
  "server_init = \<lparr>server_initted = False, srv_cfg_path = ''.//GTServer.cfg'',
     srv_log_level = GT_LOG_LEVEL_OFF, srv_log_name = ''GTServer'', srv_max_logsize = 50,
     read_call_back = None, write_call_back = None, dispatch_bound = False, srv_cfg = cfg_init,
     srv_log = log_init, srv_iocp = iocp_init\<rparr>"

section \<open>Start\<close>

text \<open>The size of a log file is kept in a \<open>size_t\<close> and handed on as an \<open>int\<close>.\<close>

definition InitLogAndCfgSrvice :: "srv_env \<Rightarrow> string \<Rightarrow> 'cb server \<Rightarrow> json_error + 'cb server" where
  "InitLogAndCfgSrvice env cfg_path s =
     (let c0 = snd (LoadCfg (se_fs env) (se_parse env) cfg_path (srv_cfg s))
      in case ReadStringCfg (se_show_num env) ''log_control'' ''log_name'' ''GT'' c0 of
           Inl e \<Rightarrow> Inl e
         | Inr (name, c1) \<Rightarrow>
             (case read_log_cfg (se_show_num env) c1 of
                Inl e \<Rightarrow> Inl e
              | Inr (level_str, n, c2) \<Rightarrow>
                  (let s1 = s\<lparr>srv_cfg_path := cfg_path, srv_cfg := c2, srv_log_name := name,
                              srv_log_level := LoglevelConvert level_str,
                              srv_max_logsize := int_to_size n\<rparr>
                   in Inr (s1\<lparr>srv_log := snd (GT_LogInitialize (se_folder env) (srv_log_name s1)
                                (srv_log_level s1) (ucast (srv_max_logsize s1)) (srv_log s1))\<rparr>))))"

definition server_Initialize :: "srv_env \<Rightarrow> string \<Rightarrow> 'cb server \<Rightarrow> srv_error + (bool \<times> 'cb server)" where
  "server_Initialize env cfg_path s =
     (if server_initted s then Inr (server_initted s, s)
      else
        (case InitLogAndCfgSrvice env cfg_path s of
           Inl e \<Rightarrow> Inl (Thrown e)
         | Inr s1 \<Rightarrow>
             (let s2 = s1\<lparr>dispatch_bound := True\<rparr>
              in case iocp_Initialize (se_iocp env) (cfg_root (srv_cfg s2)) (srv_iocp s2) of
                   Inl u \<Rightarrow> Inl (Undefined u)
                 | Inr (ok, i) \<Rightarrow>
                     (let s3 = s2\<lparr>srv_iocp := i, server_initted := ok\<rparr>
                      in Inr (server_initted s3, s3)))))"

section \<open>Callbacks\<close>

definition RegisterServerCallBack :: "IO_EVENT_TYPE \<Rightarrow> 'cb option \<Rightarrow> 'cb server \<Rightarrow> 'cb server" where
  "RegisterServerCallBack type func s =
     (case type of
        IO_EVENT_READ \<Rightarrow> s\<lparr>read_call_back := func\<rparr>
      | IO_EVENT_WRITE \<Rightarrow> s\<lparr>write_call_back := func\<rparr>
      | _ \<Rightarrow> s)"

definition UnRegisterServerCallBack :: "IO_EVENT_TYPE \<Rightarrow> 'cb server \<Rightarrow> 'cb server" where
  "UnRegisterServerCallBack type s =
     (case type of
        IO_EVENT_READ \<Rightarrow> s\<lparr>read_call_back := None\<rparr>
      | IO_EVENT_WRITE \<Rightarrow> s\<lparr>write_call_back := None\<rparr>
      | _ \<Rightarrow> s)"

text \<open>
  One invocation of a user function: the function, the connection, the address of the data and
  the length.
\<close>

type_synonym 'cb user_call = "'cb \<times> addr \<times> addr option \<times> dword"

definition wsa_data :: "addr \<Rightarrow> 'cb server \<Rightarrow> addr option" where
  "wsa_data b s = Option.bind (GetWsaBuf b (bufs_of (srv_iocp s))) ws_buf"

definition DispatchEvent :: "IO_EVENT_TYPE \<Rightarrow> addr \<Rightarrow> addr \<Rightarrow> dword \<Rightarrow> 'cb server \<Rightarrow> 'cb user_call list" where
  "DispatchEvent type c b len s =
     (case type of
        IO_EVENT_READ \<Rightarrow>
          (case read_call_back s of None \<Rightarrow> [] | Some f \<Rightarrow> [(f, c, wsa_data b s, len)])
      | IO_EVENT_WRITE \<Rightarrow>
          (case write_call_back s of None \<Rightarrow> [] | Some f \<Rightarrow> [(f, c, wsa_data b s, len)])
      | _ \<Rightarrow> [])"

text \<open>
  A worker's turn: one completion, with the callback bound to \<open>DispatchEvent\<close>. The callback is
  invoked while the buffer's descriptor is what it was when the completion arrived.
\<close>

fun deliver :: "'cb server \<Rightarrow> os_call \<Rightarrow> 'cb user_call list" where
  "deliver s (CallBack type c b n) = DispatchEvent type c b n s"
| "deliver s _ = []"

definition worker_turn ::
    "srv_env \<Rightarrow> completion \<Rightarrow> 'cb server \<Rightarrow> ('cb user_call list \<times> 'cb server) result" where
  "worker_turn env ev s =
     bindR (GetCompletionPortEventStatus (se_iocp env) (cfg_root (srv_cfg s)) ev (srv_iocp s)) (\<lambda>i.
       Inr (concat (map (deliver s) (drop (length (os_log (srv_iocp s))) (os_log i))), s\<lparr>srv_iocp := i\<rparr>))"

section \<open>Service\<close>

definition server_GTStartService :: "'cb server \<Rightarrow> 'cb server" where
  "server_GTStartService s = s\<lparr>srv_iocp := GTStartService (srv_iocp s)\<rparr>"

definition PostWriteEvent :: "srv_env \<Rightarrow> addr \<Rightarrow> byte list \<Rightarrow> size_t \<Rightarrow> 'cb server \<Rightarrow> 'cb server result" where
  "PostWriteEvent env completion_key data data_len s =
     bindR (SendDataUserInterface (se_iocp env) completion_key data data_len (srv_iocp s)) (\<lambda>i.
       Inr (s\<lparr>srv_iocp := i\<rparr>))"

definition server_StopService :: "srv_env \<Rightarrow> 'cb server \<Rightarrow> 'cb server result" where
  "server_StopService env s =
     bindR (StopService (se_iocp env) (cfg_root (srv_cfg s)) (srv_iocp s)) (\<lambda>(_, i).
       Inr (s\<lparr>srv_iocp := i\<rparr>))"

section \<open>The exported functions\<close>

definition GTIOCP_Initialize :: "srv_env \<Rightarrow> string \<Rightarrow> 'cb server \<Rightarrow> srv_error + (GT_ERROR_CODE \<times> 'cb server)" where
  "GTIOCP_Initialize env cfg_path s =
     (let retcode = GT_ERROR_FAILED
      in case server_Initialize env cfg_path s of
           Inl e \<Rightarrow> Inl e
         | Inr (ret, s1) \<Rightarrow> Inr (if ret then GT_ERROR_SUCCESS else retcode, s1))"

definition GTIOCP_StartService :: "'cb server \<Rightarrow> GT_ERROR_CODE \<times> 'cb server" where
  "GTIOCP_StartService s = (GT_ERROR_SUCCESS, server_GTStartService s)"

definition GTIOCP_RegisterEventCallBack ::
    "IO_EVENT_TYPE \<Rightarrow> 'cb option \<Rightarrow> 'cb server \<Rightarrow> GT_ERROR_CODE \<times> 'cb server" where
  "GTIOCP_RegisterEventCallBack type func s =
     (case type of
        IO_EVENT_READ \<Rightarrow> (GT_ERROR_SUCCESS, RegisterServerCallBack IO_EVENT_READ func s)
      | IO_EVENT_WRITE \<Rightarrow> (GT_ERROR_SUCCESS, RegisterServerCallBack IO_EVENT_WRITE func s)
      | _ \<Rightarrow> (GT_ERROR_SUCCESS, s))"

definition GTIOCP_UnRegisterEventCallBack :: "IO_EVENT_TYPE \<Rightarrow> 'cb server \<Rightarrow> GT_ERROR_CODE \<times> 'cb server" where
  "GTIOCP_UnRegisterEventCallBack type s =
     (case type of
        IO_EVENT_READ \<Rightarrow> (GT_ERROR_SUCCESS, UnRegisterServerCallBack IO_EVENT_READ s)
      | IO_EVENT_WRITE \<Rightarrow> (GT_ERROR_SUCCESS, UnRegisterServerCallBack IO_EVENT_WRITE s)
      | _ \<Rightarrow> (GT_ERROR_SUCCESS, s))"

text \<open>The message is logged as a C string first: a block without a zero byte is read past its end.\<close>

definition GTIOCP_WriteMessage :: "srv_env \<Rightarrow> addr \<Rightarrow> byte list \<Rightarrow> size_t \<Rightarrow> 'cb server \<Rightarrow> 'cb server result" where
  "GTIOCP_WriteMessage env completion_key data len s =
     (if 0 \<notin> set data then Inl OutOfBounds
      else PostWriteEvent env completion_key data len s)"

definition GTIOCP_Uninitialize :: "srv_env \<Rightarrow> 'cb server \<Rightarrow> (GT_ERROR_CODE \<times> 'cb server) result" where
  "GTIOCP_Uninitialize env s = bindR (server_StopService env s) (\<lambda>s1. Inr (GT_ERROR_SUCCESS, s1))"

section \<open>The table of callbacks\<close>

definition server_slot :: "IO_EVENT_TYPE \<Rightarrow> 'cb server \<Rightarrow> 'cb option" where
  "server_slot type s =
     (case type of
        IO_EVENT_READ \<Rightarrow> read_call_back s
      | IO_EVENT_WRITE \<Rightarrow> write_call_back s
      | _ \<Rightarrow> None)"

interpretation srv_cb: callback_table
    "\<lambda>t f s. snd (GTIOCP_RegisterEventCallBack t (Some f) s)"
    "\<lambda>t s. snd (GTIOCP_UnRegisterEventCallBack t s)" server_slot
    "\<lambda>t. t \<in> {IO_EVENT_READ, IO_EVENT_WRITE}"
  by unfold_locales
    (auto simp: server_slot_def GTIOCP_RegisterEventCallBack_def GTIOCP_UnRegisterEventCallBack_def
      RegisterServerCallBack_def UnRegisterServerCallBack_def split: IO_EVENT_TYPE.splits)

lemma callback_ops_frame [simp]:
  "srv_iocp (snd (GTIOCP_RegisterEventCallBack t f s)) = srv_iocp s"
  "srv_iocp (snd (GTIOCP_UnRegisterEventCallBack t s)) = srv_iocp s"
  "srv_cfg (snd (GTIOCP_RegisterEventCallBack t f s)) = srv_cfg s"
  "srv_cfg (snd (GTIOCP_UnRegisterEventCallBack t s)) = srv_cfg s"
  by (simp_all add: GTIOCP_RegisterEventCallBack_def GTIOCP_UnRegisterEventCallBack_def
      RegisterServerCallBack_def UnRegisterServerCallBack_def split: IO_EVENT_TYPE.splits)

lemma cb_step_frame [simp]:
  "srv_iocp (srv_cb.cb_step x s) = srv_iocp s" "srv_cfg (srv_cb.cb_step x s) = srv_cfg s"
  by (simp_all add: srv_cb.cb_step_def split: cb_op.splits)

lemma cb_steps_frame [simp]:
  "srv_iocp (fold srv_cb.cb_step ops s) = srv_iocp s" "srv_cfg (fold srv_cb.cb_step ops s) = srv_cfg s"
  by (induction ops arbitrary: s) simp_all

section \<open>Runs\<close>

text \<open>
  A run of the whole server: calls of the exported functions, turns of the workers and of the
  connection check, in any order.
\<close>

inductive srv_step :: "srv_env \<Rightarrow> 'cb server \<Rightarrow> 'cb server \<Rightarrow> bool" for env where
  initialize: "GTIOCP_Initialize env path s = Inr (e, s') \<Longrightarrow> srv_step env s s'"
| start: "srv_step env s (snd (GTIOCP_StartService s))"
| register: "srv_step env s (snd (GTIOCP_RegisterEventCallBack type func s))"
| unregister: "srv_step env s (snd (GTIOCP_UnRegisterEventCallBack type s))"
| send: "GTIOCP_WriteMessage env c data len s = Inr s' \<Longrightarrow> srv_step env s s'"
| turn: "(k, b) \<in> set (inflight (srv_iocp s)) \<Longrightarrow> need_wait (srv_iocp s) \<Longrightarrow>
    c_key ev = Some k \<Longrightarrow> c_overlapped ev = Some b \<Longrightarrow>
    worker_turn env ev (s\<lparr>srv_iocp := (srv_iocp s)\<lparr>inflight := remove1 (k, b) (inflight (srv_iocp s))\<rparr>\<rparr>)
      = Inr (calls, s') \<Longrightarrow> srv_step env s s'"
| collect: "ResourceCollector (ie_res (se_iocp env)) (res (srv_iocp s)) = Inr r \<Longrightarrow>
    srv_step env s (s\<lparr>srv_iocp := (srv_iocp s)\<lparr>res := r\<rparr>\<rparr>)"

inductive srv_reachable :: "srv_env \<Rightarrow> 'cb server \<Rightarrow> bool" for env where
  start: "srv_reachable env server_init"
| step: "srv_reachable env s \<Longrightarrow> srv_step env s s' \<Longrightarrow> srv_reachable env s'"

lemma InitLogAndCfgSrvice_iocp:
  "InitLogAndCfgSrvice env p s = Inr s' \<Longrightarrow>
   srv_iocp s' = srv_iocp s \<and> server_initted s' = server_initted s \<and>
   read_call_back s' = read_call_back s \<and> write_call_back s' = write_call_back s"
  by (auto simp: InitLogAndCfgSrvice_def Let_def split: sum.splits prod.splits)

lemma server_Initialize_iocp:
  assumes "server_Initialize env p s = Inr (ok, s')"
  shows "srv_iocp s' = srv_iocp s \<or>
     (\<exists>cfg b. iocp_Initialize (se_iocp env) cfg (srv_iocp s) = Inr (b, srv_iocp s'))"
  using assms
  by (auto simp: server_Initialize_def Let_def split: if_splits sum.splits prod.splits
      dest: InitLogAndCfgSrvice_iocp)

text \<open>Each step of the server is at most one step of the back end.\<close>

lemma srv_step_iocp:
  assumes "srv_step env s s'"
  shows "srv_iocp s' = srv_iocp s \<or> (\<exists>cfg. iocp_step (se_iocp env) cfg (srv_iocp s) (srv_iocp s'))"
  using assms
proof cases
  case (initialize path e)
  then have "\<exists>ok. server_Initialize env path s = Inr (ok, s')"
    by (auto simp: GTIOCP_Initialize_def Let_def split: sum.splits prod.splits)
  then show ?thesis using server_Initialize_iocp iocp_step.init by blast
next
  case start
  then show ?thesis
    using iocp_step.start by (auto simp: GTIOCP_StartService_def server_GTStartService_def)
next
  case (send c data len)
  then show ?thesis
    using iocp_step.send
    by (auto simp: GTIOCP_WriteMessage_def PostWriteEvent_def bindR_eq_Inr split: if_splits)
next
  case (turn k b ev calls)
  let ?i = "(srv_iocp s)\<lparr>inflight := remove1 (k, b) (inflight (srv_iocp s))\<rparr>"
  have "GetCompletionPortEventStatus (se_iocp env) (cfg_root (srv_cfg s)) ev ?i = Inr (srv_iocp s')"
    using turn(5) by (auto simp: worker_turn_def bindR_eq_Inr)
  then show ?thesis using iocp_step.complete [OF turn(1-4)] by blast
next
  case (collect r)
  then show ?thesis using iocp_step.collect by auto
qed simp_all

lemma srv_reachable_inv: "srv_reachable env s \<Longrightarrow> init_inv (srv_iocp s)"
proof (induction rule: srv_reachable.induct)
  case start
  show ?case by (simp add: server_init_def init_inv_init)
next
  case (step s s')
  then show ?case using srv_step_iocp iocp_step_inv by metis
qed

section \<open>Configuration of the log\<close>

lemma ucast_int_to_size [simp]: "(ucast (int_to_size n) :: cint) = n"
  unfolding int_to_size_def by transfer (simp add: take_bit_signed_take_bit)

text \<open>What starting the configuration and the log comes to.\<close>

lemma InitLogAndCfgSrvice_spec:
  assumes c: "c = snd (LoadCfg (se_fs env) (se_parse env) path (srv_cfg s))"
    and ok: "section_ok (cfg_root c) ''log_control''"
  shows "\<exists>s'. InitLogAndCfgSrvice env path s = Inr s' \<and>
     (\<forall>se k. cfg_get (cfg_root (srv_cfg s')) se k = cfg_get (cfg_root c) se k) \<and>
     srv_log s' = snd (GT_LogInitialize (se_folder env)
        (GT_READ_CFG_STRING (cfg_root c) ''log_control'' ''log_name'' ''GT'')
        (LoglevelConvert (GT_READ_CFG_STRING (cfg_root c) ''log_control'' ''log_level'' ''off''))
        (GT_READ_CFG_INT (cfg_root c) ''log_control'' ''max_log_size'' 50) (srv_log s))"
proof -
  let ?r = "\<lambda>c' :: cfg_state. (\<forall>se k. cfg_get (cfg_root c') se k = cfg_get (cfg_root c) se k) \<and>
     (\<forall>se. section_ok (cfg_root c') se = section_ok (cfg_root c) se)"
  obtain c1 where 1: "ReadStringCfg (se_show_num env) ''log_control'' ''log_name'' ''GT'' c =
      Inr (GT_READ_CFG_STRING (cfg_root c) ''log_control'' ''log_name'' ''GT'', c1)" "?r c1"
    using ReadString_pure [OF ok] by blast
  have g: "GT_READ_CFG_STRING (cfg_root c1) se k d = GT_READ_CFG_STRING (cfg_root c) se k d"
      "GT_READ_CFG_INT (cfg_root c1) se k i = GT_READ_CFG_INT (cfg_root c) se k i" for se k d i
    using 1(2) by (simp_all add: GT_READ_CFG_STRING_def GT_READ_CFG_INT_def)
  obtain c2 where 2: "read_log_cfg (se_show_num env) c1 =
      Inr (GT_READ_CFG_STRING (cfg_root c) ''log_control'' ''log_level'' ''off'',
           GT_READ_CFG_INT (cfg_root c) ''log_control'' ''max_log_size'' 50, c2)" "?r c2"
    using read_log_cfg_pure [of c1 "se_show_num env"] 1(2) ok by (auto simp: g)
  show ?thesis
    using 1(1) 2 by (simp add: InitLogAndCfgSrvice_def Let_def c [symmetric])
qed

lemma GT_LogInitialize_on:
  "\<not> is_log_initted s \<Longrightarrow>
   is_log_initted (snd (GT_LogInitialize folder n level z s)) \<longleftrightarrow>
     level \<noteq> GT_LOG_LEVEL_OFF \<and> 0 < sint z"
  by (auto simp: GT_LogInitialize_def invalid_level_iff Let_def not_le)

section \<open>Deliveries\<close>

lemma buf_live_owned:
  assumes "core_inv s" and "GetCompletionKeyPtr c (res s) = Some c" and "GetIOBufferPtr c b (res s) = Some b"
  shows "ctxs (res s) c \<noteq> None" and "bufs (bufs_of s) b \<noteq> None" and "buf_live b s"
proof -
  have i: "rm_inv (res s)" by (rule core_invD [OF assms(1)])
  have k: "c \<in> um_keys (key_ptr_cache (res s))" "(c, c) \<in> set (key_ptr_cache (res s))"
    using assms(2) by (auto simp: GetCompletionKeyPtr_def um_keys_iff dest: um_find_in)
  then show c: "ctxs (res s) c \<noteq> None" using i by (auto simp: rm_inv_def keys_ok_def)
  then obtain x where x: "ctxs (res s) c = Some x" by blast
  then have "b \<in> um_keys (socket_io_buffer_cache x)"
    using assms(3) by (auto simp: GetIOBufferPtr_def GetIOBufferCache_def um_keys_iff)
  then show b: "bufs (bufs_of s) b \<noteq> None"
    using i x by (auto simp: rm_inv_def ctx_ok_def bufs_of_def)
  have "c \<in> set (live_ctxs s)" using k(2) by (force simp: live_ctxs_def)
  then show "buf_live b s" using b assms(3) by (auto simp: buf_live_def list_ex_iff)
qed

lemma read_turn:
  assumes inv: "core_inv (srv_iocp s)" and key: "accept_key (srv_iocp s) \<noteq> None"
    and wait: "need_wait (srv_iocp s)" and n: "n \<noteq> 0"
    and c: "GetCompletionKeyPtr c (res (srv_iocp s)) = Some c"
    and b: "GetIOBufferPtr c b (res (srv_iocp s)) = Some b"
    and t: "GetIOEventType b (bufs_of (srv_iocp s)) = IO_EVENT_READ"
  shows "\<exists>s'. worker_turn env \<lparr>c_ret = True, c_bytes = n, c_key = Some c, c_overlapped = Some b\<rparr> s =
     Inr (DispatchEvent IO_EVENT_READ c b n s, s')"
proof -
  let ?i = "srv_iocp s" and ?cfg = "cfg_root (srv_cfg s)"
  note own = buf_live_owned [OF inv c b]
  obtain i h b' where i: "dispatch_event (se_iocp env) ?cfg True n c b ?i = Inr i"
      "os_log i = os_log ?i @ [CallBack IO_EVENT_READ c b n, WSARecv h b']"
    using read_completion [OF inv own(1,2) key t n] by blast
  have "find_owner c b ?i = Inr (Some c, Some b)"
    using c b t by (simp add: find_owner_def)
  then have "GetCompletionPortEventStatus (se_iocp env) ?cfg
      \<lparr>c_ret = True, c_bytes = n, c_key = Some c, c_overlapped = Some b\<rparr> ?i = Inr i"
    using wait own(3) t i(1) by (simp add: GetCompletionPortEventStatus_def handle_completion_def)
  then show ?thesis using i(2) by (simp add: worker_turn_def)
qed

text \<open>What is delivered goes to the function registered for reads.\<close>

lemma deliver_reads:
  "list_all read_callback cs \<Longrightarrow>
   (f, x) \<in> set (concat (map (deliver s) cs)) \<Longrightarrow> read_call_back s = Some f"
  by (induction cs) (auto simp: DispatchEvent_def elim!: read_callback.elims split: option.splits)

section \<open>Properties\<close>

definition demo_server :: "nat server" where
  "demo_server = server_init\<lparr>srv_iocp := demo_state IO_EVENT_READ\<rparr>"

lemma demo_server_inv: "core_inv (srv_iocp demo_server)"
  using demo_state_inv [of IO_EVENT_READ] by (simp add: demo_server_def)

lemma demo_server_facts:
  "accept_key (srv_iocp demo_server) \<noteq> None" "need_wait (srv_iocp demo_server)" "(3 :: dword) \<noteq> 0"
  "GetCompletionKeyPtr 2 (res (srv_iocp demo_server)) = Some 2"
  "GetIOBufferPtr 2 1 (res (srv_iocp demo_server)) = Some 1"
  "GetIOEventType 1 (bufs_of (srv_iocp demo_server)) = IO_EVENT_READ"
  by (simp_all add: demo_server_def demo_state_def iocp_init_def GetCompletionKeyPtr_def um_find_def
      GetIOBufferPtr_def GetIOBufferCache_def GetIOEventType_def bufs_of_def)

lemma demo_server_data: "wsa_data 1 demo_server = Some 1"
  by (simp add: wsa_data_def demo_server_def demo_state_def bufs_of_def GetWsaBuf_def)

definition demo_srv_env :: srv_env where
  "demo_srv_env = \<lparr>se_fs = (\<lambda>_. Some \<lparr>f_size = 1, f_data = ''x'', f_junk = ''''\<rparr>),
     se_parse = (\<lambda>_ _. (True, demo_cfg)), se_show_num = (\<lambda>_. ''''), se_folder = ''/'',
     se_iocp = demo_env\<rparr>"

text \<open>C14: After a function was registered for reads, and whatever else was registered or unregistered for
  other event types, a completed read with data calls exactly that function, once, with the
  connection, the address of the data in the buffer and the number of bytes.\<close>

theorem read_reaches_user:
  assumes "core_inv (srv_iocp s)" and "accept_key (srv_iocp s) \<noteq> None"
    and "need_wait (srv_iocp s)" and "n \<noteq> 0"
    and "GetCompletionKeyPtr c (res (srv_iocp s)) = Some c"
    and "GetIOBufferPtr c b (res (srv_iocp s)) = Some b"
    and "GetIOEventType b (bufs_of (srv_iocp s)) = IO_EVENT_READ"
    and "\<And>x. x \<in> set ops \<Longrightarrow> (case x of Register t _ \<Rightarrow> t | UnRegister t \<Rightarrow> t) \<noteq> IO_EVENT_READ"
  shows "\<exists>s'. worker_turn env \<lparr>c_ret = True, c_bytes = n, c_key = Some c, c_overlapped = Some b\<rparr>
     (fold srv_cb.cb_step ops (snd (GTIOCP_RegisterEventCallBack IO_EVENT_READ (Some f) s))) =
     Inr ([(f, c, wsa_data b s, n)], s')"
proof -
  let ?r = "snd (GTIOCP_RegisterEventCallBack IO_EVENT_READ (Some f) s)"
  let ?s = "fold srv_cb.cb_step ops ?r"
  have "server_slot IO_EVENT_READ ?s = server_slot IO_EVENT_READ ?r"
    using assms(8) by (rule srv_cb.other_types_untouched)
  also have "\<dots> = Some f" by (simp add: srv_cb.slot_reg)
  finally have "read_call_back ?s = Some f" by (simp add: server_slot_def)
  then have "DispatchEvent IO_EVENT_READ c b n ?s = [(f, c, wsa_data b s, n)]"
    by (simp add: DispatchEvent_def wsa_data_def)
  then show ?thesis using read_turn [of ?s n c b env] assms(1-7) by simp
qed

theorem read_reaches_user_witness:
  "\<exists>s'. worker_turn demo_srv_env
      \<lparr>c_ret = True, c_bytes = 3, c_key = Some 2, c_overlapped = Some 1\<rparr>
      (fold srv_cb.cb_step [Register IO_EVENT_WRITE 8, UnRegister IO_EVENT_WRITE]
        (snd (GTIOCP_RegisterEventCallBack IO_EVENT_READ (Some 7) demo_server))) =
     Inr ([(7, 2, Some 1, 3)], s')"
proof -
  have o: "(case x of Register t _ \<Rightarrow> t | UnRegister t \<Rightarrow> t) \<noteq> IO_EVENT_READ"
    if "x \<in> set [Register IO_EVENT_WRITE 8, UnRegister IO_EVENT_WRITE]" for x :: "(IO_EVENT_TYPE, nat) cb_op"
    using that by auto
  show ?thesis by (rule read_reaches_user [OF demo_server_inv demo_server_facts, unfolded demo_server_data]) (rule o)
qed

text \<open>In every state in order with an accept key, whatever completes, all calls a worker's turn makes
  into user code go to the function registered for reads; what is registered for writes is never
  called, also when a write completes.\<close>

theorem write_callback_unused:
  assumes "core_inv (srv_iocp s)" and "accept_key (srv_iocp s) \<noteq> None"
    and "worker_turn env ev s = Inr (calls, s')" and "(f, c, d, n) \<in> set calls"
  shows "read_call_back s = Some f"
proof -
  obtain j where j: "GetCompletionPortEventStatus (se_iocp env) (cfg_root (srv_cfg s)) ev (srv_iocp s) = Inr j"
      "calls = concat (map (deliver s) (drop (length (os_log (srv_iocp s))) (os_log j)))"
    using assms(3) by (auto simp: worker_turn_def bindR_eq_Inr)
  have "step_ok (srv_iocp s) j"
    using GetCompletionPortEventStatus_ok [OF assms(1,2), of "se_iocp env" "cfg_root (srv_cfg s)" ev] j(1)
    by auto
  then have "log_le (os_log (srv_iocp s)) (os_log j)" by (rule step_okD)
  then have "list_all read_callback (drop (length (os_log (srv_iocp s))) (os_log j))"
    by (auto simp: log_le_def)
  then show ?thesis using deliver_reads assms(4) j(2) by metis
qed

theorem write_callback_unused_witness:
  "\<exists>s'. worker_turn demo_srv_env \<lparr>c_ret = True, c_bytes = 3, c_key = Some 2, c_overlapped = Some 1\<rparr>
      (demo_server\<lparr>read_call_back := Some 7, write_call_back := Some 8\<rparr>) = Inr ([(7, 2, Some 1, 3)], s') \<and>
     read_call_back (demo_server\<lparr>read_call_back := Some 7, write_call_back := Some (8 :: nat)\<rparr>) = Some 7"
proof -
  let ?s = "demo_server\<lparr>read_call_back := Some 7, write_call_back := Some 8\<rparr>"
  let ?ev = "\<lparr>c_ret = True, c_bytes = 3, c_key = Some 2, c_overlapped = Some 1\<rparr>"
  have i: "core_inv (srv_iocp ?s)" "accept_key (srv_iocp ?s) \<noteq> None"
    using demo_server_inv demo_server_facts by simp_all
  have "DispatchEvent IO_EVENT_READ 2 1 3 ?s = [(7, 2, Some 1, 3)]"
    using demo_server_data by (simp add: DispatchEvent_def wsa_data_def)
  then obtain s' where s': "worker_turn demo_srv_env ?ev ?s = Inr ([(7, 2, Some 1, 3)], s')"
    using read_turn [of ?s 3 2 1 demo_srv_env] demo_server_inv demo_server_facts by auto
  then show ?thesis using write_callback_unused [OF i s'] by auto
qed

text \<open>C39: What the configuration says about the log is carried out: after the configuration and the log
  were started with a fresh log, the log is on exactly when the configured level is one of
  \<open>all\<close>, \<open>warn\<close> and \<open>error\<close> and the configured size is positive, and no setting another component
  reads later has changed.\<close>

theorem log_configuration:
  assumes "\<not> is_log_initted (srv_log s)"
    and "c = snd (LoadCfg (se_fs env) (se_parse env) path (srv_cfg s))"
    and "section_ok (cfg_root c) ''log_control''"
  shows "\<exists>s'. InitLogAndCfgSrvice env path s = Inr s' \<and>
     (\<forall>se k. cfg_get (cfg_root (srv_cfg s')) se k = cfg_get (cfg_root c) se k) \<and>
     (is_log_initted (srv_log s') \<longleftrightarrow>
        GT_READ_CFG_STRING (cfg_root c) ''log_control'' ''log_level'' ''off'' \<in> {''all'', ''warn'', ''error''} \<and>
        0 < sint (GT_READ_CFG_INT (cfg_root c) ''log_control'' ''max_log_size'' 50))"
proof -
  obtain s' where "InitLogAndCfgSrvice env path s = Inr s'"
      "\<forall>se k. cfg_get (cfg_root (srv_cfg s')) se k = cfg_get (cfg_root c) se k"
      "srv_log s' = snd (GT_LogInitialize (se_folder env)
        (GT_READ_CFG_STRING (cfg_root c) ''log_control'' ''log_name'' ''GT'')
        (LoglevelConvert (GT_READ_CFG_STRING (cfg_root c) ''log_control'' ''log_level'' ''off''))
        (GT_READ_CFG_INT (cfg_root c) ''log_control'' ''max_log_size'' 50) (srv_log s))"
    using InitLogAndCfgSrvice_spec [OF assms(2,3)] by blast
  then show ?thesis
    using GT_LogInitialize_on [OF assms(1)] LoglevelConvert_on by (intro exI [of _ s']) simp
qed

theorem log_configuration_witness:
  "\<exists>s'. InitLogAndCfgSrvice (demo_srv_env\<lparr>se_parse := (\<lambda>_ _. (True, JObject
         [(''log_control'', JObject [(''log_level'', JString ''warn''), (''max_log_size'', JInt 20)])]))\<rparr>)
       ''cfg'' server_init = Inr (s' :: nat server) \<and> is_log_initted (srv_log s')"
proof -
  let ?env = "demo_srv_env\<lparr>se_parse := (\<lambda>_ _. (True, JObject
         [(''log_control'', JObject [(''log_level'', JString ''warn''), (''max_log_size'', JInt 20)])]))\<rparr>"
  have r: "cfg_root (snd (LoadCfg (se_fs ?env) (se_parse ?env) ''cfg'' (srv_cfg server_init))) =
      JObject [(''log_control'', JObject [(''log_level'', JString ''warn''), (''max_log_size'', JInt 20)])]"
    by (simp add: LoadCfg_def demo_srv_env_def server_init_def cfg_init_def ReadFileContent_def Let_def)
  have "\<not> is_log_initted (srv_log (server_init :: nat server))"
    by (simp add: server_init_def log_init_def)
  from log_configuration [OF this refl, of ?env "''cfg''", unfolded r] show ?thesis
    by (auto simp: section_ok_def member_def GT_READ_CFG_STRING_def GT_READ_CFG_INT_def cfg_get_def
        minInt_def maxInt_def)
qed

lemma server_StopService_pool:
  assumes "init_inv (srv_iocp s)" and "server_StopService env s = Inr s'"
    and "thread_pool_started (srv_iocp s)" and "accept_key (srv_iocp s) \<noteq> None"
  shows "\<forall>a \<in> set (workpool (iocp_pool (srv_iocp s'))). tuples (iocp_pool (srv_iocp s')) a = None"
    and "server_initted s' = server_initted s"
proof -
  obtain i ok where i: "StopService (se_iocp env) (cfg_root (srv_cfg s)) (srv_iocp s) = Inr (ok, i)"
      "s' = s\<lparr>srv_iocp := i\<rparr>"
    using assms(2) by (auto simp: server_StopService_def bindR_eq_Inr)
  have p: "pool_inv (iocp_pool (srv_iocp s))" using assms(1) by (simp add: init_inv_def)
  have c: "core_inv (srv_iocp s)" using assms(1) by (simp add: init_inv_def)
  obtain ak where ak: "accept_key (srv_iocp s) = Some ak" using assms(4) by blast
  note e = StopService_ends [OF c ak p assms(3) i(1)]
  obtain i' where "StopService (se_iocp env) (cfg_root (srv_cfg s)) (srv_iocp s) = Inr (True, i')"
      "Stop (ie_thread_ends (se_iocp env)) (iocp_pool (srv_iocp s)) = Inr (workpool (iocp_pool (srv_iocp s)), iocp_pool i')"
    using StopService_ok [OF c ak p e] assms(3) by blast
  then have "iocp_pool i = (iocp_pool (srv_iocp s))\<lparr>tuples := (\<lambda>a. if a \<in> set (workpool (iocp_pool (srv_iocp s)))
      then None else tuples (iocp_pool (srv_iocp s)) a)\<rparr>"
    using Stop_result [OF p, of "ie_thread_ends (se_iocp env)"] i(1) by (simp split: if_splits)
  then show "\<forall>a \<in> set (workpool (iocp_pool (srv_iocp s'))). tuples (iocp_pool (srv_iocp s')) a = None"
    using i(2) by simp
  show "server_initted s' = server_initted s" using i(2) by simp
qed

text \<open>The concrete server starts.\<close>

lemma demo_srv_start:
  "\<exists>s. GTIOCP_Initialize demo_srv_env ''cfg'' (server_init :: 'cb server) = Inr (GT_ERROR_SUCCESS, s) \<and>
     server_initted s \<and> accept_key (srv_iocp s) \<noteq> None \<and> thread_pool_started (srv_iocp s) \<and>
     length (workpool (iocp_pool (srv_iocp s))) = 2"
proof -
  let ?init = "server_init :: 'cb server" and ?c = "\<lparr>cfg_content = ''x'', cfg_root = demo_cfg, cfg_load = True\<rparr>"
  have c: "?c = snd (LoadCfg (se_fs demo_srv_env) (se_parse demo_srv_env) ''cfg'' (srv_cfg ?init))"
    by (simp add: LoadCfg_def demo_srv_env_def server_init_def cfg_init_def ReadFileContent_def Let_def)
  have "section_ok (cfg_root ?c) ''log_control''"
    by (simp add: section_ok_def member_def demo_cfg_def)
  from InitLogAndCfgSrvice_spec [OF c this] obtain s1 where
      1: "InitLogAndCfgSrvice demo_srv_env ''cfg'' ?init = Inr s1"
         "\<And>se k. cfg_get (cfg_root (srv_cfg s1)) se k = cfg_get demo_cfg se k"
    by auto
  have i1: "srv_iocp s1 = iocp_init" using InitLogAndCfgSrvice_iocp [OF 1(1)] by (simp add: server_init_def)
  have n: "n_threads demo_env = 2" by (simp add: n_threads_def demo_env_def)
  have cfg: "GT_READ_CFG_INT (cfg_root (srv_cfg s1)) se k d = GT_READ_CFG_INT demo_cfg se k d" for se k d
    using 1(2) by (simp add: GT_READ_CFG_INT_def)
  obtain i where i: "iocp_Initialize demo_env (cfg_root (srv_cfg s1)) iocp_init = Inr (True, i)"
      "accept_key i \<noteq> None" "thread_pool_started i" "length (workpool (iocp_pool i)) = 2"
    using init_success [of demo_env "cfg_root (srv_cfg s1)" 120000 30000000] demo_cfg_simps n
    by (auto simp: demo_env_def INVALID_HANDLE_VALUE_def cfg)
  let ?s = "s1\<lparr>dispatch_bound := True, srv_iocp := i, server_initted := True\<rparr>"
  have "server_initted ?init = False" by (simp add: server_init_def)
  moreover have "se_iocp demo_srv_env = demo_env" by (simp add: demo_srv_env_def)
  ultimately have "server_Initialize demo_srv_env ''cfg'' ?init = Inr (True, ?s)"
    using 1(1) i1 i(1) by (simp add: server_Initialize_def Let_def)
  then show ?thesis using i(2-4) by (intro exI [of _ ?s]) (simp add: GTIOCP_Initialize_def)
qed

text \<open>Uninitialising ends the workers but leaves the server marked as initialised: initialising it
  again, with whatever configuration, reports success and does nothing, although every worker the
  pool lists was joined and deleted.\<close>

theorem restart_has_no_workers:
  assumes "srv_reachable env s" and "server_initted s" and "thread_pool_started (srv_iocp s)"
    and "accept_key (srv_iocp s) \<noteq> None" and "GTIOCP_Uninitialize env s = Inr (code, s')"
  shows "GTIOCP_Initialize env' path s' = Inr (GT_ERROR_SUCCESS, s') \<and>
     (\<forall>a \<in> set (workpool (iocp_pool (srv_iocp s'))). tuples (iocp_pool (srv_iocp s')) a = None)"
proof -
  have "server_StopService env s = Inr s'"
    using assms(5) by (auto simp: GTIOCP_Uninitialize_def bindR_eq_Inr)
  from server_StopService_pool [OF srv_reachable_inv [OF assms(1)] this assms(3,4)] assms(2)
  show ?thesis by (simp add: GTIOCP_Initialize_def server_Initialize_def)
qed

theorem restart_has_no_workers_witness:
  "\<exists>s s'. GTIOCP_Initialize demo_srv_env ''cfg'' (server_init :: nat server) = Inr (GT_ERROR_SUCCESS, s) \<and>
     GTIOCP_Uninitialize demo_srv_env s = Inr (GT_ERROR_SUCCESS, s') \<and>
     GTIOCP_Initialize demo_srv_env ''cfg'' s' = Inr (GT_ERROR_SUCCESS, s')"
proof -
  obtain s where s: "GTIOCP_Initialize demo_srv_env ''cfg'' (server_init :: nat server) = Inr (GT_ERROR_SUCCESS, s)"
      "server_initted s" "accept_key (srv_iocp s) \<noteq> None" "thread_pool_started (srv_iocp s)"
    using demo_srv_start by blast
  have r: "srv_reachable demo_srv_env s"
    using srv_reachable.step [OF srv_reachable.start srv_step.initialize [OF s(1)]] .
  then have i: "init_inv (srv_iocp s)" by (rule srv_reachable_inv)
  obtain ak where ak: "accept_key (srv_iocp s) = Some ak" using s(3) by blast
  have "core_inv (srv_iocp s)" "pool_inv (iocp_pool (srv_iocp s))" using i by (simp_all add: init_inv_def)
  moreover have "ie_thread_ends (se_iocp demo_srv_env) a" for a by (simp add: demo_srv_env_def demo_env_def)
  ultimately obtain i where "StopService (se_iocp demo_srv_env) (cfg_root (srv_cfg s)) (srv_iocp s) = Inr (True, i)"
    using StopService_ok [OF _ ak] by blast
  then have u: "GTIOCP_Uninitialize demo_srv_env s = Inr (GT_ERROR_SUCCESS, s\<lparr>srv_iocp := i\<rparr>)"
    by (simp add: GTIOCP_Uninitialize_def server_StopService_def)
  show ?thesis using restart_has_no_workers [OF r s(2,4,3) u] s(1) u by blast
qed

end
