(* ===== verification/IOCP_Startup.thy ===== *)
theory IOCP_Startup
  imports IOCP_Core
begin

text \<open>
  What starting the IOCP back end does to its connections, which is nothing, and what it leaves pending: the
  first accepts, two for each hardware thread.
\<close>

section \<open>Initialisation\<close>

text \<open>\<open>quiet\<close> states agree on the connections and their count.\<close>

definition quiet :: "iocp \<Rightarrow> iocp \<Rightarrow> bool" where
  "quiet s s' = (key_ptr_cache (res s') = key_ptr_cache (res s) \<and> client_num s' = client_num s)"

lemma quiet_trans: "quiet s s1 \<Longrightarrow> quiet s1 s2 \<Longrightarrow> quiet s s2"
  by (simp add: quiet_def)

lemma quiet_refl [simp]: "quiet s s"
  by (simp add: quiet_def)

lemma BindSocket_shape:
  assumes "BindSocketToCompletionPort env p k s = Inr (ok, s')"
  shows "res s' = res s" "inflight s' = inflight s" "client_num s' = client_num s"
    "assoc s' h = Some x \<Longrightarrow> assoc s h = Some x \<or> x = k"
proof -
  obtain h' where "sock_val p s = Inr h'"
    using assms by (cases "sock_val p s") (simp_all add: BindSocketToCompletionPort_def)
  then have "s' = (if ok then (os (CreateIoCompletionPort h' k) s)\<lparr>assoc := (assoc s)(h' \<mapsto> k)\<rparr>
      else os (CreateIoCompletionPort h' k) s)"
    using assms by (cases "ie_port env (call_no s) = completion_port (os (CreateIoCompletionPort h' k) s)")
      (auto simp: BindSocketToCompletionPort_def Let_def os_def)
  then show "res s' = res s" "inflight s' = inflight s" "client_num s' = client_num s"
    "assoc s' h = Some x \<Longrightarrow> assoc s h = Some x \<or> x = k"
    by (simp_all split: if_split_asm)
qed

lemma repeat_accept_quiet:
  "core_inv s \<Longrightarrow> accept_key s \<noteq> None \<Longrightarrow> repeatR n (PostAnotherAcceptEvent env cfg) s = Inr s' \<Longrightarrow> quiet s s'"
proof (induction n arbitrary: s)
  case (Suc n)
  obtain s1 where 1: "PostAnotherAcceptEvent env cfg s = Inr s1" "step_ok s s1"
    using PostAnotherAccept_ok [OF Suc.prems(1,2)] by blast
  have "accept_key s1 \<noteq> None" using 1(2) Suc.prems(2) by (simp add: step_ok_def)
  then show ?case
    using Suc.IH [OF step_ok_inv [OF Suc.prems(1) 1(2)]] Suc.prems(3) 1(1)
      PostAnotherAccept_keys [OF Suc.prems(1,2) 1(1)] by (simp add: quiet_def)
qed simp

lemma listen_frame:
  assumes "InitializeListenSocket env cfg s = Inr (ok, s')"
  shows "inflight s' = inflight s" "is_inited s' = is_inited s" "quiet s s'"
proof -
  obtain a sp v l where s': "s' = s\<lparr>res := (res s)\<lparr>rm_socks := sp\<rparr>, listen_socket_ptr := Some a, serveraddr := v,
      os_log := os_log s @ l\<rparr>"
    using InitializeListenSocket_shape [OF assms] by blast
  show "inflight s' = inflight s" "is_inited s' = is_inited s" "quiet s s'"
    unfolding s' by (simp_all add: quiet_def)
qed

lemma bind_quiet: "BindSocketToCompletionPort env p k s = Inr (ok, s') \<Longrightarrow> quiet s s'"
  using BindSocket_shape [of env p k s ok s'] by (simp add: quiet_def)

lemma open_accept_quiet:
  assumes i: "init_inv s" and l: "sock_ok (rm_socks (res s)) (listen_socket_ptr s)"
    and a: "acceptex_func s" "sockaddrs_func s" and run: "open_accept env cfg s = Inr (ok, s')"
  shows "quiet s s'"
proof -
  have r: "rcore (res s)" using i core_invD(1) by (simp add: init_inv_def)
  let ?s3 = "s\<lparr>resource_worker_started := True\<rparr>"
  obtain ak r2 where k: "GetListenSocketCompletionKey (ie_res env) (listen_socket_ptr s) (res s) = (ak, r2)"
    by fastforce
  note K = rcore_Listen [OF r l k]
  have "rm_inv (res s)" using r by (simp add: rcore_def)
  note f = GetListenSocketCompletionKey_props(4) [OF this k]
  let ?s4 = "?s3\<lparr>res := SetSocketContexAddr ak (serveraddr ?s3) r2, accept_key := Some ak\<rparr>"
  have 4: "quiet s ?s4" using f by (simp add: quiet_def SetSocketContexAddr_def SetContextSocketAddr_def frame_simps)
  have rc4: "rcore (res ?s4)" using rcore_ctx_ops(2) [OF K(1)] by (simp add: SetSocketContexAddr_def)
  have c4: "core_inv ?s4"
    using rc4 K l a
    by (simp add: core_inv_def SetSocketContexAddr_def SetContextSocketAddr_def frame_simps ctxs_upd_ctx)
  have l4: "sock_ok (rm_socks (res ?s4)) (listen_socket_ptr ?s4)"
    using l K(4) by (simp add: SetSocketContexAddr_def SetContextSocketAddr_def frame_simps)
  obtain bound s5 where b: "BindSocketToCompletionPort env (listen_socket_ptr ?s4) ak ?s4 = Inr (bound, s5)"
      "step_ok ?s4 s5"
    using BindSocket_ok [OF rc4 l4] by blast
  have 5: "quiet s s5" by (rule quiet_trans [OF 4 bind_quiet [OF b(1)]])
  have c5: "core_inv s5" by (rule step_ok_inv [OF c4 b(2)])
  have a5: "accept_key s5 \<noteq> None" using b(2) by (simp add: step_ok_def)
  have "s' = s5 \<or> PrePostAcceptEvent env cfg s5 = Inr s'"
    using run k b(1) by (auto simp: open_accept_def Let_def bindR_eq_Inr split: if_splits)
  then show ?thesis
    using 5 quiet_trans [OF 5 repeat_accept_quiet [OF c5 a5]] by (auto simp: PrePostAcceptEvent_def)
qed

lemma init_services_quiet:
  assumes i: "init_inv s" and l: "sock_ok (rm_socks (res s)) (listen_socket_ptr s)"
    and a: "acceptex_func s" "sockaddrs_func s" and run: "init_services env cfg s = Inr (ok, s')"
  shows "quiet s s'"
proof -
  obtain ret r1 where r1: "res_Initialize (ie_res env) cfg (res s) = Inr (ret, r1)"
    using run by (auto simp: init_services_def Let_def InitThreadPool_def bindR_eq_Inr)
  have c: "core_inv s" using i by (simp add: init_inv_def)
  note R = rcore_Initialize [OF core_invD(1) [OF c] r1]
  let ?s2 = "(InitThreadPool env (s\<lparr>need_wait := False\<rparr>))\<lparr>res := r1\<rparr>"
  have l2: "sock_ok (rm_socks (res ?s2)) (listen_socket_ptr ?s2)"
    using sock_ok_mono [OF l R(2)] by (simp add: InitThreadPool_def)
  have i2: "init_inv ?s2"
    using i R l2 a Start_inv by (auto simp: init_inv_def core_inv_def InitThreadPool_def before_key_def)
  have a2: "acceptex_func ?s2" "sockaddrs_func ?s2" using a by (simp_all add: InitThreadPool_def)
  have 2: "quiet s ?s2"
    using R(4) by (simp add: quiet_def InitThreadPool_def)
  have "s' = ?s2 \<or> open_accept env cfg ?s2 = Inr (ok, s')"
    using run r1 by (auto simp: init_services_def Let_def InitThreadPool_def split: if_splits)
  then show ?thesis using 2 quiet_trans [OF 2 open_accept_quiet [OF i2 l2 a2]] by blast
qed

lemma init_body_quiet:
  assumes "init_inv s" and "init_body env cfg s = Inr (ok, s')"
  shows "quiet s s'"
proof (cases "ie_WSAStartup env \<noteq> 0 \<or> ie_version env \<noteq> (2, 2)")
  case True
  then have "s' = s" using assms(2) by (cases "ie_version env") (auto simp: init_body_def split: if_splits)
  then show ?thesis by simp
next
  case False
  then have sys: "ie_WSAStartup env = 0" "ie_version env = (2, 2)" by auto
  obtain ok1 s1 where 1: "InitializeListenSocket env cfg s = Inr (ok1, s1)"
    using assms(2) sys by (cases "InitializeListenSocket env cfg s") (auto simp: init_body_def)
  note L = InitializeListenSocket_inv [OF assms(1) 1]
  define s2 where "s2 = snd (GetAcceptEXFuncAddress env s1)"
  define s3 where "s3 = snd (GetAcceptExSockAddrsFuncAddress env s2)"
  note run = init_body_run [OF sys 1 s2_def s3_def]
  note e = ext_funcs [OF s2_def s3_def]
  let ?s4 = "s3\<lparr>completion_port := ie_new_port env\<rparr>"
  have i4: "init_inv ?s4" using e(1,2) L(1) by (simp add: init_inv_def core_inv_def before_key_def)
  have 2: "quiet s1 s2" "quiet s1 s3" "quiet s1 ?s4"
    by (simp_all add: s2_def s3_def GetAcceptEXFuncAddress_def GetAcceptExSockAddrsFuncAddress_def Let_def quiet_def)
  have 3: "quiet ?s4 s'" if "init_services env cfg ?s4 = Inr (ok, s')" "acceptex_func s2" "sockaddrs_func s3"
    using init_services_quiet [OF i4 _ _ _ that(1)] L(2) that(2,3) e by simp
  have "s' = s1 \<or> s' = s2 \<or> s' = s3 \<or> s' = ?s4 \<or> quiet ?s4 s'"
    using run assms(2) 3 by (auto split: if_splits)
  then show ?thesis
    using quiet_trans [OF listen_frame(3) [OF 1]] 2 quiet_trans [OF 2(3)] by auto
qed

lemma bind_inited: "BindSocketToCompletionPort env p k s = Inr (ok, s') \<Longrightarrow> is_inited s' = is_inited s"
  by (cases "sock_val p s") (auto simp: BindSocketToCompletionPort_def Let_def os_def split: if_split_asm)

lemma open_accept_failed: "open_accept env cfg s = Inr (False, s') \<Longrightarrow> is_inited s' = is_inited s"
  by (auto simp: open_accept_def Let_def bindR_eq_Inr dest!: bind_inited split: prod.splits if_splits)

lemma init_services_failed: "init_services env cfg s = Inr (False, s') \<Longrightarrow> is_inited s' = is_inited s"
  by (auto simp: init_services_def Let_def InitThreadPool_def bindR_eq_Inr dest!: open_accept_failed split: if_splits)

lemma init_body_failed: "init_body env cfg s = Inr (False, s') \<Longrightarrow> is_inited s' = is_inited s"
  by (auto simp: init_body_def Let_def bindR_eq_Inr GetAcceptEXFuncAddress_def GetAcceptExSockAddrsFuncAddress_def
      dest!: listen_frame(2) init_services_failed split: prod.splits if_splits)

lemma iocp_Initialize_effect:
  assumes "init_inv s" and "iocp_Initialize env cfg s = Inr (ok, s')"
  shows "client_num s' = client_num s \<and>
     key_ptr_cache (res s') = (if ok then key_ptr_cache (res s) else [])"
proof (cases "is_inited s")
  case True
  then show ?thesis using assms(2) by (simp add: iocp_Initialize_def)
next
  case False
  then obtain ret s1 where 1: "init_body env cfg s = Inr (ret, s1)"
    using assms(2) by (cases "init_body env cfg s") (auto simp: iocp_Initialize_def)
  show ?thesis
  proof (cases ret)
    case True
    then have "s' = s1\<lparr>is_inited := True\<rparr> \<and> ok" using assms(2) False 1 by (simp add: iocp_Initialize_def)
    then show ?thesis
      using init_body_quiet [OF assms(1) 1] by (auto simp: quiet_def)
  next
    case ret: False
    let ?s2 = "on_res res_Finalize (os WSACleanup s1)"
    have "is_inited ?s2 = False" using init_body_failed 1 ret False by (simp add: on_res_def os_def)
    then have "s' = ?s2 \<and> \<not> ok" using assms(2) False 1 ret by (simp add: iocp_Initialize_def Let_def)
    then show ?thesis
      using init_body_quiet [OF assms(1) 1]
      by (auto simp: quiet_def on_res_def os_def res_Finalize_frame)
  qed
qed

section \<open>The first accepts\<close>

text \<open>
  A system that takes every accept: each call succeeds, at once or, as is usual, later.
\<close>

definition takes_accepts :: "iocp_env \<Rightarrow> bool" where
  "takes_accepts env = (\<forall>n. ie_ret env n = 0 \<longrightarrow> ie_err env n = WSA_IO_PENDING)"

text \<open>\<open>accepting\<close>: the listening socket is bound to the port under the accept key.\<close>

definition accepting :: "addr \<Rightarrow> iocp \<Rightarrow> bool" where
  "accepting ak s =
     (accept_key s = Some ak \<and> (\<exists>lh. sock_val (listen_socket_ptr s) s = Inr lh \<and> assoc s lh = Some ak))"

lemma sock_val_mono: "sock_val p s = Inr h \<Longrightarrow> step_ok s s' \<Longrightarrow> sock_val p s' = Inr h"
  using step_okD(3) [of s s'] by (auto simp: sock_val_def heap_le_def split: option.splits)

lemma accepting_mono:
  assumes "accepting ak s" and "step_ok s s'" and "assoc s' = assoc s"
  shows "accepting ak s'"
  using assms sock_val_mono [OF _ assms(2)] unfolding accepting_def by (fastforce simp: step_ok_def)

lemma submit_assoc: "assoc s h = Some k \<Longrightarrow> submit h b s = s\<lparr>inflight := inflight s @ [(k, b)]\<rparr>"
  by (simp add: submit_def)

text \<open>An accept the system takes is in flight under the accept key, which keeps its buffer.\<close>

lemma try_accept_posts:
  assumes c: "core_inv s" and a: "accepting ak s" and ret: "takes_accepts env"
  shows "\<exists>b s'. try_accept env cfg s = Inr (True, s') \<and> step_ok s s' \<and> assoc s' = assoc s \<and>
     need_wait s' = need_wait s \<and> inflight s' = inflight s @ [(ak, b)] \<and> GetIOBufferPtr ak b (res s') = Some b \<and>
     GetIOEventType b (bufs_of s') = IO_EVENT_ACCEPT \<and>
     (\<forall>b'. GetIOBufferPtr ak b' (res s) = Some b' \<longrightarrow> GetIOBufferPtr ak b' (res s') = Some b')"
proof -
  have r: "rcore (res s)" by (rule core_invD [OF c])
  have ak: "accept_key s = Some ak" using a by (simp add: accepting_def)
  obtain b s1 sp s3 where p: "get_buffer env s = (Some b, s1)"
     "get_socket env cfg (on_bufs (SetIOBufferEventType b IO_EVENT_ACCEPT) s1) = (sp, s3)"
     "sock_ok (rm_socks (res s3)) sp"
     "step_ok s (on_res (AddIOContext2Cache ak b) (on_bufs (SetIOBufferSocket b sp) s3))"
     "GetClientSocketPtr b (bufs_of (on_res (AddIOContext2Cache ak b) (on_bufs (SetIOBufferSocket b sp) s3))) = sp"
    using prepare_ok [OF r, of IO_EVENT_ACCEPT] by blast
  let ?s5 = "on_res (AddIOContext2Cache ak b) (on_bufs (SetIOBufferSocket b sp) s3)"
  obtain d s' where run: "try_accept env cfg s = Inr (d, s')" "step_ok s s'"
    using try_accept_ok [OF c ak] by blast
  have f5: "inflight ?s5 = inflight s" "assoc ?s5 = assoc s" "need_wait ?s5 = need_wait s"
    using get_buffer_frame [OF p(1)] get_buffer_need_wait [OF p(1)] p(2)
    by (auto simp: get_socket_def on_bufs_def on_res_def split: prod.splits)
  have a5: "accepting ak ?s5" by (rule accepting_mono [OF a p(4) f5(2)])
  have ak5: "accept_key ?s5 = Some ak" using a5 by (simp add: accepting_def)
  obtain lh where lh: "sock_val (listen_socket_ptr ?s5) ?s5 = Inr lh" "assoc ?s5 lh = Some ak"
    using a5 by (auto simp: accepting_def)
  have fun5: "acceptex_func ?s5" using step_ok_inv [OF c p(4)] ak5 by (auto simp: core_inv_def)
  have "sock_ok (rm_socks (res ?s5)) sp" using p(3) by (simp add: AddIOContext2Cache_def frame_simps)
  then obtain ch where ch: "sock_val sp ?s5 = Inr ch" using sock_val_ok by blast
  obtain spa where spa: "sp = Some spa" using p(3) by (auto simp: sock_ok_def)
  let ?s6 = "os (AcceptEx lh ch b (accept_len (GetBufferSize b (bufs_of ?s5)))) ?s5"
  have taken: "(ie_ret env n = 0 \<and> WSA_IO_PENDING \<noteq> ie_err env n) = False" for n
    using ret by (auto simp: takes_accepts_def)
  have s': "d" "s' = submit lh b ?s6"
    using run(1) ak5 p(1,2,5) lh ch fun5 spa unfolding try_accept_def Let_def by (simp_all add: split_beta taken)
  have fl: "inflight s' = inflight s @ [(ak, b)]" "assoc s' = assoc s" "need_wait s' = need_wait s" "res s' = res ?s5"
    using lh(2) f5 by (simp_all add: s'(2) submit_def os_def)
  have cx: "ctxs (res s3) = ctxs (res s)"
    using p(1,2) by (auto simp: get_buffer_def GetIOContextBuffer_def get_socket_def GetCachedSocket_def split: prod.splits)
  obtain x where "ctxs (res s) ak = Some x" using c ak by (auto simp: core_inv_def)
  moreover from this have "um_self (socket_io_buffer_cache x)"
    using core_invD(2) [OF c] by (auto simp: rm_inv_def ctx_ok_def)
  moreover have "GetIOBufferPtr ak k ((res s3)\<lparr>rm_bufs := m\<rparr>) = GetIOBufferPtr ak k (res s)" for k m
    by (simp add: GetIOBufferPtr_def GetIOBufferCache_def cx)
  ultimately have "GetIOBufferPtr ak b (res s') = Some b"
    "\<And>b'. GetIOBufferPtr ak b' (res s) = Some b' \<Longrightarrow> GetIOBufferPtr ak b' (res s') = Some b'"
    using GetIOBufferPtr_Add [of "(res s3)\<lparr>rm_bufs := SetIOBufferSocket b sp (rm_bufs (res s3))\<rparr>" ak x] cx fl(4)
    by simp_all
  moreover have "GetIOEventType b (bufs_of s') = IO_EVENT_ACCEPT"
  proof -
    obtain t where t: "get_buffer env s = (Some b, t)" "bufs (bufs_of t) b \<noteq> None"
      using get_buffer_ok [OF r, of env] p(1) by auto
    have "bufs_of s3 = SetIOBufferEventType b IO_EVENT_ACCEPT (bufs_of s1)"
      using p(2) by (auto simp: get_socket_def GetCachedSocket_def bufs_of_def on_bufs_def on_res_def split: prod.splits)
    then have "bufs_of s' = SetIOBufferSocket b sp (SetIOBufferEventType b IO_EVENT_ACCEPT (bufs_of s1))"
      using fl(4) by (simp add: bufs_of_def AddIOContext2Cache_def frame_simps)
    then show ?thesis
      using t p(1) by (auto simp: GetIOEventType_def SetIOBufferSocket_def SetIOBufferEventType_def upd_buf_def)
  qed
  ultimately show ?thesis using run s'(1) fl by (intro exI [of _ b] exI [of _ s']) simp
qed

text \<open>\<open>held ak k\<close>: the last \<open>k\<close> operations in flight are accepts whose buffers the accept key holds.\<close>

definition held :: "addr \<Rightarrow> iocp \<Rightarrow> (addr \<times> addr) \<Rightarrow> bool" where
  "held ak s p = (fst p = ak \<and> GetIOBufferPtr ak (snd p) (res s) = Some (snd p))"

lemma repeat_accept_posts:
  "core_inv s \<Longrightarrow> accepting ak s \<Longrightarrow> takes_accepts env \<Longrightarrow>
   repeatR n (PostAnotherAcceptEvent env cfg) s = Inr s' \<Longrightarrow> list_all (held ak s) (inflight s) \<Longrightarrow>
   accepting ak s' \<and> core_inv s' \<and> need_wait s' = need_wait s \<and> length (inflight s') = length (inflight s) + n \<and>
   list_all (held ak s') (inflight s') \<and>
   (0 < n \<longrightarrow> GetIOEventType (snd (last (inflight s'))) (bufs_of s') = IO_EVENT_ACCEPT)"
proof (induction n arbitrary: s)
  case (Suc n)
  obtain b s1 where 1: "try_accept env cfg s = Inr (True, s1)" "step_ok s s1" "assoc s1 = assoc s"
      "need_wait s1 = need_wait s" "inflight s1 = inflight s @ [(ak, b)]" "GetIOBufferPtr ak b (res s1) = Some b"
      "GetIOEventType b (bufs_of s1) = IO_EVENT_ACCEPT"
      "\<And>b'. GetIOBufferPtr ak b' (res s) = Some b' \<Longrightarrow> GetIOBufferPtr ak b' (res s1) = Some b'"
    using try_accept_posts [OF Suc.prems(1,2), of env cfg] Suc.prems(3) by blast
  have c1: "core_inv s1" by (rule step_ok_inv [OF Suc.prems(1) 1(2)])
  have a1: "accepting ak s1" by (rule accepting_mono [OF Suc.prems(2) 1(2,3)])
  have "PostAnotherAcceptEvent env cfg s = Inr s1" using 1(1) by (simp add: PostAnotherAcceptEvent_def)
  then have run: "repeatR n (PostAnotherAcceptEvent env cfg) s1 = Inr s'" using Suc.prems(4) by simp
  have "list_all (held ak s1) (inflight s1)"
    using Suc.prems(5) 1(5,6,8) by (auto simp: held_def list_all_iff)
  then show ?case using Suc.IH [OF c1 a1 Suc.prems(3) run] 1(4,5,7) run by (cases n) simp_all
qed simp

lemma held_live:
  assumes "core_inv s" and "accept_key s = Some ak" and "held ak s (k, b)"
  shows "buf_live b s"
proof -
  have g: "GetIOBufferPtr ak b (res s) = Some b" using assms(3) by (simp add: held_def)
  then obtain x where x: "ctxs (res s) ak = Some x" "um_find b (socket_io_buffer_cache x) = Some b"
    by (cases "ctxs (res s) ak") (auto simp: GetIOBufferPtr_def GetIOBufferCache_def)
  then have "ctx_ok (rm_bufs (res s)) x" using core_invD(2) [OF assms(1)] by (auto simp: rm_inv_def)
  then have "bufs (bufs_of s) b \<noteq> None" using x(2) by (auto simp: ctx_ok_def bufs_of_def um_keys_iff)
  then show ?thesis using assms(2) g by (simp add: buf_live_def live_ctxs_def)
qed

text \<open>What a start-up that succeeds has gone through.\<close>

lemma open_accept_success:
  assumes i: "init_inv s" and l: "sock_ok (rm_socks (res s)) (listen_socket_ptr s)"
    and a: "acceptex_func s" "sockaddrs_func s" and run: "open_accept env cfg s = Inr (True, s')"
  shows "\<exists>ak s5. core_inv s5 \<and> accepting ak s5 \<and> inflight s5 = inflight s \<and>
     repeatR (n_threads env) (PostAnotherAcceptEvent env cfg) s5 = Inr s'"
proof -
  have r: "rcore (res s)" using i core_invD(1) by (simp add: init_inv_def)
  let ?s3 = "s\<lparr>resource_worker_started := True\<rparr>"
  obtain ak r2 where k: "GetListenSocketCompletionKey (ie_res env) (listen_socket_ptr s) (res s) = (ak, r2)"
    by fastforce
  note K = rcore_Listen [OF r l k]
  let ?s4 = "?s3\<lparr>res := SetSocketContexAddr ak (serveraddr ?s3) r2, accept_key := Some ak\<rparr>"
  have rc4: "rcore (res ?s4)" using rcore_ctx_ops(2) [OF K(1)] by (simp add: SetSocketContexAddr_def)
  have c4: "core_inv ?s4"
    using rc4 K l a
    by (simp add: core_inv_def SetSocketContexAddr_def SetContextSocketAddr_def frame_simps ctxs_upd_ctx)
  have l4: "sock_ok (rm_socks (res ?s4)) (listen_socket_ptr ?s4)"
    using l K(4) by (simp add: SetSocketContexAddr_def SetContextSocketAddr_def frame_simps)
  obtain lh where lh: "sock_val (listen_socket_ptr ?s4) ?s4 = Inr lh" using sock_val_ok [OF l4] by blast
  let ?s5 = "(os (CreateIoCompletionPort lh ak) ?s4)\<lparr>assoc := (assoc ?s4)(lh \<mapsto> ak)\<rparr>"
  obtain bound s5 where b: "BindSocketToCompletionPort env (listen_socket_ptr ?s4) ak ?s4 = Inr (bound, s5)"
      "step_ok ?s4 s5"
    using BindSocket_ok [OF rc4 l4] by blast
  have bound: bound using run k b(1) by (auto simp: open_accept_def Let_def split: if_splits)
  then have s5: "s5 = ?s5"
    using b(1) lh by (auto simp: BindSocketToCompletionPort_def Let_def os_def split: if_splits)
  have "sock_val (listen_socket_ptr s5) s5 = Inr lh"
    using sock_val_mono [OF lh b(2)] b(2) by (simp add: step_ok_def)
  moreover have "accept_key s5 = Some ak" using b(2) by (simp add: step_ok_def)
  ultimately have "accepting ak s5" by (simp add: accepting_def s5)
  moreover have "core_inv s5" by (rule step_ok_inv [OF c4 b(2)])
  moreover have "inflight s5 = inflight s" by (simp add: s5 os_def)
  moreover have "repeatR (n_threads env) (PostAnotherAcceptEvent env cfg) s5 = Inr s'"
    using run k b(1) bound by (auto simp: open_accept_def Let_def PrePostAcceptEvent_def bindR_eq_Inr)
  ultimately show ?thesis by blast
qed

lemma init_services_success:
  assumes i: "init_inv s" and l: "sock_ok (rm_socks (res s)) (listen_socket_ptr s)"
    and a: "acceptex_func s" "sockaddrs_func s" and run: "init_services env cfg s = Inr (True, s')"
  shows "\<exists>ak s5. core_inv s5 \<and> accepting ak s5 \<and> inflight s5 = inflight s \<and>
     repeatR (n_threads env) (PostAnotherAcceptEvent env cfg) s5 = Inr s'"
proof -
  obtain ret r1 where r1: "res_Initialize (ie_res env) cfg (res s) = Inr (ret, r1)"
    using run by (auto simp: init_services_def Let_def InitThreadPool_def bindR_eq_Inr)
  have c: "core_inv s" using i by (simp add: init_inv_def)
  note R = rcore_Initialize [OF core_invD(1) [OF c] r1]
  let ?s2 = "(InitThreadPool env (s\<lparr>need_wait := False\<rparr>))\<lparr>res := r1\<rparr>"
  have l2: "sock_ok (rm_socks (res ?s2)) (listen_socket_ptr ?s2)"
    using sock_ok_mono [OF l R(2)] by (simp add: InitThreadPool_def)
  have i2: "init_inv ?s2"
    using i R l2 a Start_inv by (auto simp: init_inv_def core_inv_def InitThreadPool_def before_key_def)
  have a2: "acceptex_func ?s2" "sockaddrs_func ?s2" using a by (simp_all add: InitThreadPool_def)
  have "open_accept env cfg ?s2 = Inr (True, s')"
    using run r1 by (auto simp: init_services_def Let_def InitThreadPool_def split: if_splits)
  from open_accept_success [OF i2 l2 a2 this] show ?thesis by (simp add: InitThreadPool_def)
qed

lemma ext_inflight:
  "inflight (snd (GetAcceptEXFuncAddress env s)) = inflight s"
  "inflight (snd (GetAcceptExSockAddrsFuncAddress env s)) = inflight s"
  by (simp_all add: GetAcceptEXFuncAddress_def GetAcceptExSockAddrsFuncAddress_def Let_def)

lemma Initialize_accepts:
  assumes "iocp_reachable env cfg s" and "accept_key s = None" and "\<not> is_inited s"
    and "iocp_Initialize env cfg s = Inr (True, s')" and "ie_new_port env \<noteq> INVALID_HANDLE_VALUE"
    and "takes_accepts env"
  shows "\<exists>ak. accepting ak s' \<and> length (inflight s') = n_threads env \<and>
     list_all (\<lambda>(k, b). k = ak \<and> GetIOBufferPtr ak b (res s') = Some b \<and> buf_live b s') (inflight s') \<and>
     (0 < n_threads env \<longrightarrow> GetIOEventType (snd (last (inflight s'))) (bufs_of s') = IO_EVENT_ACCEPT)"
proof -
  have i: "init_inv s" by (rule iocp_reachable_inv [OF assms(1)])
  obtain ret t where 1: "init_body env cfg s = Inr (ret, t)"
    using assms(3,4) by (cases "init_body env cfg s") (auto simp: iocp_Initialize_def)
  have "ret" using init_body_failed [of env cfg s t] assms(3,4) 1
    by (cases ret) (auto simp: iocp_Initialize_def Let_def on_res_def os_def)
  then have s': "s' = t\<lparr>is_inited := True\<rparr>" using assms(3,4) 1 by (simp add: iocp_Initialize_def)
  obtain ok1 s1 where l: "InitializeListenSocket env cfg s = Inr (ok1, s1)"
      and sys: "ie_WSAStartup env = 0" "ie_version env = (2, 2)"
    using 1 \<open>ret\<close> by (cases "ie_version env"; cases "InitializeListenSocket env cfg s")
      (auto simp: init_body_def split: if_splits)
  note L = InitializeListenSocket_inv [OF i l]
  define s2 where "s2 = snd (GetAcceptEXFuncAddress env s1)"
  define s3 where "s3 = snd (GetAcceptExSockAddrsFuncAddress env s2)"
  note run = init_body_run [OF sys l s2_def s3_def]
  note e = ext_funcs [OF s2_def s3_def]
  let ?s4 = "s3\<lparr>completion_port := ie_new_port env\<rparr>"
  have r4: "init_services env cfg ?s4 = Inr (True, t)" "acceptex_func ?s4" "sockaddrs_func ?s4"
    using run 1 \<open>ret\<close> assms(5) e(3) by (auto split: if_splits)
  have i4: "init_inv ?s4" using e(1,2) L(1) by (simp add: init_inv_def core_inv_def before_key_def)
  have l4: "sock_ok (rm_socks (res ?s4)) (listen_socket_ptr ?s4)" using L(2) e by simp
  obtain ak s5 where 5: "core_inv s5" "accepting ak s5" "inflight s5 = inflight ?s4"
      "repeatR (n_threads env) (PostAnotherAcceptEvent env cfg) s5 = Inr t"
    using init_services_success [OF i4 l4 r4(2,3,1)] by blast
  have "inflight s5 = []"
    using 5(3) listen_frame(1) [OF l] i assms(2) ext_inflight [of env] s2_def s3_def by (simp add: init_inv_def before_key_def)
  from repeat_accept_posts [OF 5(1,2) assms(6) 5(4)] this
  have p: "accepting ak t" "core_inv t" "length (inflight t) = n_threads env" "list_all (held ak t) (inflight t)"
      "0 < n_threads env \<longrightarrow> GetIOEventType (snd (last (inflight t))) (bufs_of t) = IO_EVENT_ACCEPT"
    by simp_all
  have "buf_live b t" if "(k, b) \<in> set (inflight t)" for k b
    using held_live [OF p(2), of ak k b] p(1,4) that by (auto simp: accepting_def list_all_iff)
  then have "list_all (\<lambda>(k, b). k = ak \<and> GetIOBufferPtr ak b (res t) = Some b \<and> buf_live b t) (inflight t)"
    using p(4) by (auto simp: list_all_iff held_def)
  moreover have "sock_val q (t\<lparr>is_inited := True\<rparr>) = sock_val q t" for q by (rule sock_val_cong) simp
  then have "accepting ak s'" using p(1) by (simp add: s' accepting_def)
  moreover have "buf_live b s' = buf_live b t" "res s' = res t" "inflight s' = inflight t" for b
    by (simp_all add: s' buf_live_def live_ctxs_def bufs_of_def)
  ultimately show ?thesis using p(3,5) by (intro exI [of _ ak]) (simp add: bufs_of_def)
qed

lemma demo_accepts:
  assumes "iocp_Initialize demo_env demo_cfg iocp_init = Inr (True, s)"
  shows "\<exists>ak. accepting ak s \<and> length (inflight s) = 2 \<and>
     list_all (\<lambda>(k, b). k = ak \<and> GetIOBufferPtr ak b (res s) = Some b \<and> buf_live b s) (inflight s) \<and>
     GetIOEventType (snd (last (inflight s))) (bufs_of s) = IO_EVENT_ACCEPT"
proof -
  have "n_threads demo_env = 2" by (simp add: n_threads_def demo_env_def)
  moreover have "ie_new_port demo_env \<noteq> INVALID_HANDLE_VALUE" "takes_accepts demo_env"
    by (simp_all add: demo_env_def INVALID_HANDLE_VALUE_def takes_accepts_def)
  moreover have "accept_key iocp_init = None" "\<not> is_inited iocp_init" by (simp_all add: iocp_init_def)
  ultimately show ?thesis using Initialize_accepts [OF iocp_reachable.start _ _ assms] by auto
qed

lemma demo_started:
  "\<exists>s ak. iocp_reachable demo_env demo_cfg s \<and> need_wait s \<and> length (inflight s) = 2 \<and> accepting ak s \<and>
     list_all (\<lambda>(k, b). k = ak \<and> GetIOBufferPtr ak b (res s) = Some b \<and> buf_live b s) (inflight s)"
proof -
  obtain s where s: "iocp_reachable demo_env demo_cfg s" "iocp_Initialize demo_env demo_cfg iocp_init = Inr (True, s)"
    using demo_reachable by blast
  obtain ak where a: "accepting ak s" "length (inflight s) = 2"
      "list_all (\<lambda>(k, b). k = ak \<and> GetIOBufferPtr ak b (res s) = Some b \<and> buf_live b s) (inflight s)"
    using demo_accepts [OF s(2)] by blast
  let ?s = "GTStartService s"
  have "iocp_reachable demo_env demo_cfg ?s" by (rule iocp_reachable.step [OF s(1) iocp_step.start])
  moreover have "need_wait ?s" "inflight ?s = inflight s" "res ?s = res s" "buf_live b ?s = buf_live b s" for b
    by (simp_all add: GTStartService_def buf_live_def live_ctxs_def bufs_of_def)
  moreover have "sock_val q ?s = sock_val q s" for q by (rule sock_val_cong) (simp add: GTStartService_def)
  then have "accepting ak ?s" using a(1) by (simp add: accepting_def GTStartService_def)
  ultimately show ?thesis using a(2,3) by (intro exI [of _ ?s] exI [of _ ak]) simp
qed

section \<open>Properties\<close>

text \<open>C17: After a start-up that succeeded, on a system that takes every accept, at once or by leaving it pending,
  exactly two accepts per hardware thread are in flight: each under the accept key, which holds its buffer, so
  that the buffer is alive.\<close>

theorem initial_accepts:
  assumes "iocp_reachable env cfg s" and "accept_key s = None" and "\<not> is_inited s"
    and "iocp_Initialize env cfg s = Inr (True, s')" and "ie_new_port env \<noteq> INVALID_HANDLE_VALUE"
    and "\<And>n. ie_ret env n = 0 \<Longrightarrow> ie_err env n = WSA_IO_PENDING"
  shows "\<exists>ak. accepting ak s' \<and> length (inflight s') = n_threads env \<and>
     list_all (\<lambda>(k, b). k = ak \<and> GetIOBufferPtr ak b (res s') = Some b \<and> buf_live b s') (inflight s')"
proof -
  have "takes_accepts env" using assms(6) by (simp add: takes_accepts_def)
  then show ?thesis using Initialize_accepts [OF assms(1-5)] by blast
qed

text \<open>A system that leaves every accept pending.\<close>

definition pending_env :: iocp_env where
  "pending_env = demo_env\<lparr>ie_ret := (\<lambda>_. 0), ie_err := (\<lambda>_. WSA_IO_PENDING)\<rparr>"

theorem initial_accepts_witness:
  "\<exists>s ak. iocp_Initialize pending_env demo_cfg iocp_init = Inr (True, s) \<and> accepting ak s \<and> length (inflight s) = 2"
proof -
  have p: "ie_new_port pending_env \<noteq> INVALID_HANDLE_VALUE" "n_threads pending_env = 2"
    by (simp_all add: pending_env_def demo_env_def INVALID_HANDLE_VALUE_def n_threads_def)
  obtain s where s: "iocp_Initialize pending_env demo_cfg iocp_init = Inr (True, s)"
    using init_success [of pending_env demo_cfg 120000 30000000] demo_cfg_simps p(1)
    by (auto simp: pending_env_def demo_env_def)
  moreover have "accept_key iocp_init = None" "\<not> is_inited iocp_init" by (simp_all add: iocp_init_def)
  ultimately show ?thesis
    using initial_accepts [OF iocp_reachable.start _ _ s p(1)] p(2) by (auto simp: pending_env_def)
qed

end
