(* ===== verification/IOCP_Refinement.thy ===== *)
theory IOCP_Refinement
  imports IOCP_Startup
begin

text \<open>
  An abstract specification of the IOCP back end, a table of connection keys changed by events, and the
  proof that every run refines it: \<open>table_change\<close> says what a completion means, \<open>table_step\<close> what the handlers
  then do to the map of connections and to the number of clients, \<open>refines\<close> is the simulation relation.
\<close>

section \<open>The table of connections\<close>

text \<open>
  The abstract back end is a table of connection keys, changed by three kinds of events. A sequence of
  events is \<open>legal\<close> when a new connection never has the key of one that is open, and only an open
  connection ends. The key of a connection that has ended may be used again.
\<close>

datatype conn_event = Connect addr | Disconnect addr | Reset

fun conn_do :: "conn_event \<Rightarrow> addr set \<Rightarrow> addr set" where
  "conn_do (Connect k) t = insert k t"
| "conn_do (Disconnect k) t = t - {k}"
| "conn_do Reset t = {}"

fun arrivals :: "conn_event list \<Rightarrow> nat" where
  "arrivals [] = 0"
| "arrivals (Connect k # es) = Suc (arrivals es)"
| "arrivals (_ # es) = arrivals es"

fun legal :: "addr set \<Rightarrow> conn_event list \<Rightarrow> bool" where
  "legal t [] = True"
| "legal t (Connect k # es) = (k \<notin> t \<and> legal (insert k t) es)"
| "legal t (Disconnect k # es) = (k \<in> t \<and> legal (t - {k}) es)"
| "legal t (Reset # es) = legal {} es"

lemma arrivals_append: "arrivals (es @ fs) = arrivals es + arrivals fs"
  by (induction es rule: arrivals.induct) auto

lemma legal_append: "legal t (es @ fs) \<longleftrightarrow> legal t es \<and> legal (fold conn_do es t) fs"
  by (induction t es rule: legal.induct) auto

lemma PostAnotherRead_quiet:
  assumes "rcore (res s)" and "PostAnotherReadRequest env c s = Inr s'"
  shows "quiet s s'"
proof -
  obtain b s1 where g: "get_buffer env s = (Some b, s1)" using get_buffer_ok [OF assms(1)] by blast
  let ?s2 = "on_bufs (SetIOBufferEventType b IO_EVENT_READ) s1"
  let ?s3 = "on_bufs (SetIOBufferSocket b (context_socket c ?s2)) ?s2"
  let ?s5 = "on_res (AddIOContext2Cache c b) (on_res (SetContextSocketAddr c (context_addr c ?s3)) ?s3)"
  have "PostReadRequestEvent env c b ?s5 = Inr s'"
    using assms(2) by (simp add: PostAnotherReadRequest_def g Let_def)
  from PostRead_log [OF this] get_keys(1) [OF g assms(1)] show ?thesis
    by (auto simp: quiet_def AddIOContext2Cache_def SetContextSocketAddr_def frame_simps on_res_def on_bufs_def)
qed

lemma SendData_quiet:
  assumes "core_inv s" and run: "SendDataUserInterface env k data len s = Inr s'"
  shows "quiet s s'"
proof -
  obtain b s1 where g: "get_buffer env s = (Some b, s1)"
    using get_buffer_ok [OF core_invD(1) [OF assms(1)]] by blast
  let ?s2 = "on_bufs (\<lambda>m. snd (AllocateIOBufferBySize b len m)) s1"
  obtain blk where blk: "PostWriteRequestEvent_raw env k b
      (on_bufs (\<lambda>m. m\<lparr>blocks := (blocks m)(blk \<mapsto> take (unat len) data)\<rparr>) ?s2) = Inr s'"
    using run g by (auto simp: SendDataUserInterface_def Let_def split: option.splits if_splits)
  show ?thesis
    using PostWrite_raw_shape [OF blk] get_keys(1) [OF g core_invD(1) [OF assms(1)]]
    by (auto simp: quiet_def on_bufs_def on_res_def os_def submit_def split: option.splits)
qed

text \<open>
  What a completion means for the table: an accept that succeeded on a buffer of the accept key is an
  arrival; a read of nothing on a buffer of a known connection is its end.
\<close>

datatype conn_change = Stays | Arrives | Leaves addr | Resets

definition table_change :: "completion \<Rightarrow> iocp \<Rightarrow> conn_change" where
  "table_change ev s =
     (case (c_overlapped ev, c_key ev) of
        (Some b, Some k) \<Rightarrow>
          (let type = GetIOEventType b (bufs_of s); holds = (\<lambda>c. GetIOBufferPtr c b (res s) \<noteq> None)
           in if type = IO_EVENT_ACCEPT then
                (if c_ret ev \<and> (case accept_key s of None \<Rightarrow> False | Some ak \<Rightarrow> holds ak) then Arrives else Stays)
              else if type = IO_EVENT_READ \<and> c_bytes ev = 0 \<and> k \<in> um_keys (key_ptr_cache (res s)) \<and> holds k
                then Leaves k else Stays)
      | _ \<Rightarrow> Stays)"

definition table_step :: "conn_change \<Rightarrow> iocp \<Rightarrow> iocp \<Rightarrow> bool" where
  "table_step ch s s' =
     (let t = um_keys (key_ptr_cache (res s)); t' = um_keys (key_ptr_cache (res s'))
      in case ch of
           Stays \<Rightarrow> t' = t \<and> client_num s' = client_num s
         | Arrives \<Rightarrow> (\<exists>k. k \<notin> t \<and> accept_key s \<noteq> Some k \<and> t' = insert k t) \<and>
             client_num s' = client_num s + 1
         | Leaves k \<Rightarrow> k \<in> t \<and> t' = t - {k} \<and> client_num s' = client_num s
         | Resets \<Rightarrow> t' = {} \<and> client_num s' = client_num s)"

lemma quiet_step: "quiet s s' \<Longrightarrow> table_step Stays s s'"
  by (simp add: quiet_def table_step_def)

lemma dispatch_quiet:
  assumes inv: "core_inv s" and "\<not> (ret \<and> GetIOEventType b (bufs_of s) = IO_EVENT_ACCEPT)"
    and "\<not> (GetIOEventType b (bufs_of s) = IO_EVENT_READ \<and> n = 0)"
    and run: "dispatch_event env cfg ret n c b s = Inr s'"
  shows "quiet s s'"
proof (cases "ret \<and> GetIOEventType b (bufs_of s) = IO_EVENT_READ \<and> n \<noteq> 0")
  case True
  let ?s2 = "on_res (ResetTimer (ie_res env) c) (call_back IO_EVENT_READ c b n s)"
  obtain s3 where 3: "PostAnotherReadRequest env c ?s2 = Inr s3"
      "s' = on_res (ReleaseUsedIOContext (ie_res env) c b) s3"
    using run True by (auto simp: dispatch_event_def Let_def bindR_eq_Inr)
  have "rcore (res ?s2)" using rcore_ctx_ops(1) [OF core_invD(1) [OF inv]] by (simp add: call_back_def)
  from PostAnotherRead_quiet [OF this 3(1)] show ?thesis
    by (simp add: quiet_def 3(2) on_res_def call_back_def os_def ReleaseUsed_keys ResetTimer_def frame_simps)
next
  case False
  then consider "s' = s\<lparr>need_wait := False\<rparr>"
    | "s' = on_res (ReleaseUsedIOContext (ie_res env) c b)
         (call_back IO_EVENT_READ c b n (on_res (ResetTimer (ie_res env) c) s))"
    | "s' = on_res (res_ReleaseIOBuffer (ie_res env) (Some b)) s"
    using run assms(2,3) by (simp add: dispatch_event_def Let_def split: if_split_asm)
  then show ?thesis
    by cases (simp_all add: quiet_def call_back_def on_res_def os_def ReleaseUsed_keys ResetTimer_def
        res_ReleaseIOBuffer_def frame_simps)
qed

lemma dispatch_table:
  assumes inv: "core_inv s" and acc: "accept_key s \<noteq> None" and c: "ctxs (res s) c \<noteq> None"
    and b: "bufs (bufs_of s) b \<noteq> None" and run: "dispatch_event env cfg ret n c b s = Inr s'"
  shows "ret \<Longrightarrow> GetIOEventType b (bufs_of s) = IO_EVENT_ACCEPT \<Longrightarrow> table_step Arrives s s'"
    and "GetIOEventType b (bufs_of s) = IO_EVENT_READ \<Longrightarrow> n = 0 \<Longrightarrow> c \<in> um_keys (key_ptr_cache (res s)) \<Longrightarrow>
      table_step (Leaves c) s s'"
proof -
  show "table_step Arrives s s'" if r: "ret" and e: "GetIOEventType b (bufs_of s) = IO_EVENT_ACCEPT"
  proof -
    obtain k where k: "ctxs (res s) k = None" "k \<notin> um_keys (key_ptr_cache (res s))" "client_num s' = client_num s + 1"
        "um_keys (key_ptr_cache (res s')) = insert k (um_keys (key_ptr_cache (res s)))"
      using dispatch_accept_table [OF inv acc b e] run r by metis
    moreover have "accept_key s \<noteq> Some k" using k(1) inv by (auto simp: core_inv_def)
    ultimately show ?thesis unfolding table_step_def Let_def k(3,4) by auto
  qed
  show "table_step (Leaves c) s s'"
    if "GetIOEventType b (bufs_of s) = IO_EVENT_READ" "n = 0" "c \<in> um_keys (key_ptr_cache (res s))"
  proof -
    have "s' = on_res (ReleaseContext (ie_res env) c) s"
      using run that by (simp add: dispatch_event_def Let_def ReleaseCompletionKey_def)
    then show ?thesis
      using ReleaseContext_keys(1) [OF core_invD(2) [OF inv] c] that(3) by (simp add: table_step_def on_res_def)
  qed
qed

lemma find_owner_change:
  assumes inv: "core_inv s" and own: "find_owner k b s = Inr (Some c, Some b)" and ev: "c_overlapped ev = Some b" "c_key ev = Some k"
  shows "table_change ev s =
     (if GetIOEventType b (bufs_of s) = IO_EVENT_ACCEPT \<and> c_ret ev then Arrives
      else if GetIOEventType b (bufs_of s) = IO_EVENT_READ \<and> c_bytes ev = 0 then Leaves c else Stays)"
    and "GetIOEventType b (bufs_of s) = IO_EVENT_READ \<Longrightarrow> c \<in> um_keys (key_ptr_cache (res s))"
proof -
  have self: "um_self (key_ptr_cache (res s))" using core_invD(2) [OF inv] by (simp add: rm_inv_def keys_ok_def)
  have "c = k \<and> c \<in> um_keys (key_ptr_cache (res s)) \<and> GetIOBufferPtr k b (res s) = Some b"
    if "GetIOEventType b (bufs_of s) = IO_EVENT_READ"
  proof -
    have g: "um_find k (key_ptr_cache (res s)) = Some c" "GetIOBufferPtr c b (res s) = Some b"
      using own that by (simp_all add: find_owner_def GetCompletionKeyPtr_def split: option.split_asm)
    then show ?thesis using um_self_find [OF self g(1)] by (simp add: um_keys_iff)
  qed
  moreover have "accept_key s = Some c \<and> GetIOBufferPtr c b (res s) = Some b"
    if "GetIOEventType b (bufs_of s) = IO_EVENT_ACCEPT"
    using own that by (auto simp: find_owner_def split: option.splits)
  ultimately show "table_change ev s =
     (if GetIOEventType b (bufs_of s) = IO_EVENT_ACCEPT \<and> c_ret ev then Arrives
      else if GetIOEventType b (bufs_of s) = IO_EVENT_READ \<and> c_bytes ev = 0 then Leaves c else Stays)"
    and "GetIOEventType b (bufs_of s) = IO_EVENT_READ \<Longrightarrow> c \<in> um_keys (key_ptr_cache (res s))"
    using ev by (auto simp: table_change_def Let_def)
qed

lemma table_change_owner:
  assumes inv: "core_inv s" and acc: "accept_key s \<noteq> None" and ch: "table_change ev s \<noteq> Stays"
  shows "\<exists>b k c. c_overlapped ev = Some b \<and> c_key ev = Some k \<and> GetIOEventType b (bufs_of s) \<noteq> IO_EVENT_NULL \<and>
     find_owner k b s = Inr (Some c, Some b)"
proof -
  obtain b k where ev: "c_overlapped ev = Some b" "c_key ev = Some k"
    using ch by (auto simp: table_change_def split: option.splits)
  let ?t = "GetIOEventType b (bufs_of s)"
  have t: "?t \<noteq> IO_EVENT_NULL" using ch ev by (auto simp: table_change_def Let_def split: if_splits)
  obtain kp bp where o: "find_owner k b s = Inr (kp, bp)" "\<And>b'. bp = Some b' \<Longrightarrow> kp \<noteq> None \<and> b' = b"
    using find_owner_ok [OF inv acc, of k b] by metis
  have self: "um_self (key_ptr_cache (res s))" using core_invD(2) [OF inv] by (simp add: rm_inv_def keys_ok_def)
  have "bp \<noteq> None"
  proof (cases "?t = IO_EVENT_ACCEPT")
    case True
    then show ?thesis
      using ch ev o(1) acc by (auto simp: table_change_def Let_def find_owner_def split: option.split_asm if_split_asm)
  next
    case False
    then have r: "?t = IO_EVENT_READ" "k \<in> um_keys (key_ptr_cache (res s))" "GetIOBufferPtr k b (res s) \<noteq> None"
      using ch ev by (auto simp: table_change_def Let_def split: if_split_asm)
    then show ?thesis
      using o(1) um_self_find_iff [OF self, of k] by (auto simp: find_owner_def GetCompletionKeyPtr_def)
  qed
  then show ?thesis using ev t o by auto
qed

lemma handler_table:
  assumes inv: "core_inv s" and acc: "accept_key s \<noteq> None" and w: "need_wait s"
    and run: "GetCompletionPortEventStatus env cfg ev s = Inr s'"
  shows "table_step (table_change ev s) s s'"
proof -
  have run: "handle_completion env cfg ev s = Inr s'" using run w by (simp add: GetCompletionPortEventStatus_def)
  show ?thesis
  proof (cases "table_change ev s = Stays")
    case stays: True
    show ?thesis
      using inv acc
    proof (cases rule: handle_completion_cases [where env = env and cfg = cfg and ev = ev])
      case ignored
      then show ?thesis using run unfolding stays by (intro quiet_step) (simp add: quiet_def)
    next
      case (owned b k c)
      have "\<not> (c_ret ev \<and> GetIOEventType b (bufs_of s) = IO_EVENT_ACCEPT)"
        "\<not> (GetIOEventType b (bufs_of s) = IO_EVENT_READ \<and> c_bytes ev = 0)"
        using stays find_owner_change(1) [OF inv owned(5,1,2)] by (auto split: if_splits)
      then show ?thesis
        unfolding stays by (intro quiet_step dispatch_quiet [OF inv _ _ run [unfolded owned(6)]])
    qed (use run in simp)
  next
    case False
    obtain b k c where o: "c_overlapped ev = Some b" "c_key ev = Some k"
        "GetIOEventType b (bufs_of s) \<noteq> IO_EVENT_NULL" "find_owner k b s = Inr (Some c, Some b)"
      using table_change_owner [OF inv acc False] by blast
    have l: "ctxs (res s) c \<noteq> None" "bufs (bufs_of s) b \<noteq> None"
      using find_owner_ok [OF inv acc, of k b] o(4) by auto
    have "dispatch_event env cfg (c_ret ev) (c_bytes ev) c b s = Inr s'"
      using run o by (auto simp: handle_completion_def split: if_splits)
    note D = dispatch_table [OF inv acc l this]
    show ?thesis using False find_owner_change [OF inv o(4,1,2)] D by (auto split: if_splits)
  qed
qed

text \<open>The runs again, with what each step means for the table.\<close>

inductive iocp_trace :: "iocp_env \<Rightarrow> Json \<Rightarrow> conn_change list \<Rightarrow> iocp \<Rightarrow> bool" for env cfg where
  start: "iocp_trace env cfg [] iocp_init"
| init: "iocp_trace env cfg cs s \<Longrightarrow> iocp_Initialize env cfg s = Inr (ok, s') \<Longrightarrow>
    iocp_trace env cfg (cs @ [if ok then Stays else Resets]) s'"
| complete: "iocp_trace env cfg cs s \<Longrightarrow> (k, b) \<in> set (inflight s) \<Longrightarrow> need_wait s \<Longrightarrow>
    c_key ev = Some k \<Longrightarrow> c_overlapped ev = Some b \<Longrightarrow>
    GetCompletionPortEventStatus env cfg ev (s\<lparr>inflight := remove1 (k, b) (inflight s)\<rparr>) = Inr s' \<Longrightarrow>
    iocp_trace env cfg (cs @ [table_change ev s]) s'"
| service: "iocp_trace env cfg cs s \<Longrightarrow> iocp_trace env cfg (cs @ [Stays]) (GTStartService s)"
| send: "iocp_trace env cfg cs s \<Longrightarrow> SendDataUserInterface env c data len s = Inr s' \<Longrightarrow>
    iocp_trace env cfg (cs @ [Stays]) s'"
| collect: "iocp_trace env cfg cs s \<Longrightarrow> ResourceCollector (ie_res env) (res s) = Inr r \<Longrightarrow>
    iocp_trace env cfg (cs @ [Stays]) (s\<lparr>res := r\<rparr>)"

lemma trace_reachable: "iocp_trace env cfg cs s \<Longrightarrow> iocp_reachable env cfg s"
proof (induction rule: iocp_trace.induct)
  case (complete cs s k b ev s')
  show ?case by (rule iocp_reachable.step [OF complete.IH iocp_step.complete [OF complete.hyps(2-6)]])
qed (blast intro: iocp_reachable.intros iocp_step.init iocp_step.start iocp_step.send iocp_step.collect)+

fun change_of :: "conn_event \<Rightarrow> conn_change" where
  "change_of (Connect k) = Arrives"
| "change_of (Disconnect k) = Leaves k"
| "change_of Reset = Resets"

definition refines :: "conn_change list \<Rightarrow> iocp \<Rightarrow> conn_event list \<Rightarrow> bool" where
  "refines cs s es =
     (map change_of es = filter (\<lambda>c. c \<noteq> Stays) cs \<and> legal {} es \<and>
      um_keys (key_ptr_cache (res s)) = fold conn_do es {} \<and> client_num s = of_nat (arrivals es))"

lemma refines_step:
  assumes r: "refines cs s es" and t: "table_step ch s s'"
  shows "\<exists>es'. refines (cs @ [ch]) s' es'"
proof (cases ch)
  case Stays
  then show ?thesis using r t by (auto simp: refines_def table_step_def Let_def)
next
  case Arrives
  then obtain k where "k \<notin> um_keys (key_ptr_cache (res s))" "client_num s' = client_num s + 1"
      "um_keys (key_ptr_cache (res s')) = insert k (um_keys (key_ptr_cache (res s)))"
    using t by (auto simp: table_step_def Let_def)
  then have "refines (cs @ [ch]) s' (es @ [Connect k])"
    using r by (simp add: refines_def Arrives legal_append arrivals_append)
  then show ?thesis by blast
next
  case (Leaves k)
  then have "refines (cs @ [ch]) s' (es @ [Disconnect k])"
    using r t by (auto simp: refines_def legal_append arrivals_append table_step_def Let_def)
  then show ?thesis by blast
next
  case Resets
  then have "refines (cs @ [ch]) s' (es @ [Reset])"
    using r t by (auto simp: refines_def legal_append arrivals_append table_step_def Let_def)
  then show ?thesis by blast
qed

lemma table_change_inflight [simp]: "table_change ev (s\<lparr>inflight := x\<rparr>) = table_change ev s"
  by (cases "c_overlapped ev"; cases "c_key ev"; cases "accept_key s")
    (simp_all add: table_change_def bufs_of_def Let_def)

lemma table_step_inflight [simp]: "table_step ch (s\<lparr>inflight := x\<rparr>) s' = table_step ch s s'"
  by (cases ch) (simp_all add: table_step_def)

lemma trace_refines: "iocp_trace env cfg cs s \<Longrightarrow> \<exists>es. refines cs s es"
proof (induction rule: iocp_trace.induct)
  case start
  show ?case by (intro exI [of _ "[]"]) (simp add: refines_def iocp_init_def res_init_def um_keys_def)
next
  case (init cs s ok s')
  note E = iocp_Initialize_effect [OF iocp_reachable_inv [OF trace_reachable [OF init.hyps(1)]] init.hyps(2)]
  then have "table_step (if ok then Stays else Resets) s s'" by (simp add: table_step_def um_keys_def)
  then show ?case using refines_step init.IH E by blast
next
  case (complete cs s k b ev s')
  let ?s = "s\<lparr>inflight := remove1 (k, b) (inflight s)\<rparr>"
  have inv: "init_inv s" by (rule iocp_reachable_inv [OF trace_reachable [OF complete.hyps(1)]])
  have ak: "accept_key ?s \<noteq> None" using complete.hyps(2) inv by (auto simp: init_inv_def before_key_def)
  have c: "core_inv ?s" using inv by (simp add: init_inv_def)
  have "table_step (table_change ev s) s s'" using handler_table [OF c ak _ complete.hyps(6)] complete.hyps(3) by simp
  then show ?case using refines_step complete.IH by blast
next
  case (service cs s)
  have "quiet s (GTStartService s)" by (simp add: GTStartService_def quiet_def)
  then show ?case using refines_step [OF _ quiet_step] service.IH by blast
next
  case (send cs s c data len s')
  have c: "core_inv s"
    using iocp_reachable_inv [OF trace_reachable [OF send.hyps(1)]] by (simp add: init_inv_def)
  show ?case
    using refines_step [OF _ quiet_step [OF SendData_quiet [OF c send.hyps(2)]]] send.IH by blast
next
  case (collect cs s r)
  have "rcore (res s)"
    using iocp_reachable_inv [OF trace_reachable [OF collect.hyps(1)]] core_invD(1) by (simp add: init_inv_def)
  note R = rcore_ResourceCollector [OF this collect.hyps(2)]
  have "quiet s (s\<lparr>res := r\<rparr>)" using R(4) by (simp add: quiet_def)
  then show ?case using refines_step [OF _ quiet_step] collect.IH by blast
qed

lemma arrivals_count: "arrivals es = count_list (map change_of es) Arrives"
  by (induction es rule: arrivals.induct) auto

lemma count_filter: "P x \<Longrightarrow> count_list (filter P cs) x = count_list cs x"
  by (induction cs) auto

section \<open>Properties\<close>
text \<open>C5: Every run of the IOCP back end refines the abstract table of connections. For the sequence of what the
  completions of a run mean, there is a legal sequence of events of the table, event for event, after which it holds
  exactly the keys the code's map holds. An arrival opens one connection under a key that no open connection has; only
  open connections end, and their keys may come back; and the number of clients counts the arrivals, modulo the
  width of its type.\<close>

theorem connections_refine_table:
  assumes "iocp_trace env cfg cs s"
  shows "\<exists>es. map change_of es = filter (\<lambda>c. c \<noteq> Stays) cs \<and> legal {} es \<and>
     um_keys (key_ptr_cache (res s)) = fold conn_do es {} \<and>
     client_num s = of_nat (count_list cs Arrives)"
proof -
  obtain es where es: "map change_of es = filter (\<lambda>c. c \<noteq> Stays) cs" "legal {} es"
      "um_keys (key_ptr_cache (res s)) = fold conn_do es {}" "client_num s = of_nat (arrivals es)"
    using trace_refines [OF assms] by (auto simp: refines_def)
  have "arrivals es = count_list cs Arrives"
    using count_filter [of "\<lambda>c. c \<noteq> Stays" Arrives cs] by (simp add: arrivals_count es(1))
  then show ?thesis using es by (intro exI [of _ es]) simp
qed

text \<open>A run in which the server starts and its first accept completes.\<close>

lemma demo_arrival: "\<exists>s. iocp_trace demo_env demo_cfg [Stays, Stays, Arrives] s"
proof -
  obtain s where s: "iocp_Initialize demo_env demo_cfg iocp_init = Inr (True, s)"
    using demo_reachable by blast
  obtain ak where a: "accepting ak s" "length (inflight s) = 2"
      "list_all (\<lambda>(k, b). k = ak \<and> GetIOBufferPtr ak b (res s) = Some b \<and> buf_live b s) (inflight s)"
      "GetIOEventType (snd (last (inflight s))) (bufs_of s) = IO_EVENT_ACCEPT"
    using demo_accepts [OF s] by blast
  have l: "last (inflight s) \<in> set (inflight s)" using a(2) by (intro last_in_set) auto
  let ?s = "GTStartService s"
  have t: "iocp_trace demo_env demo_cfg ([] @ [if True then Stays else Resets]) s"
    by (rule iocp_trace.init [OF iocp_trace.start s])
  have 2: "iocp_trace demo_env demo_cfg (([] @ [if True then Stays else Resets]) @ [Stays]) ?s"
    by (rule iocp_trace.service [OF t])
  obtain b where b: "(ak, b) \<in> set (inflight s)" "GetIOBufferPtr ak b (res s) = Some b" "buf_live b s"
      "GetIOEventType b (bufs_of s) = IO_EVENT_ACCEPT"
    using a(3,4) l by (cases "last (inflight s)") (auto simp: list_all_iff)
  let ?ev = "\<lparr>c_ret = True, c_bytes = 0, c_key = Some ak, c_overlapped = Some b\<rparr>"
  let ?t = "?s\<lparr>inflight := remove1 (ak, b) (inflight ?s)\<rparr>"
  have f: "res ?s = res s" "inflight ?s = inflight s" "need_wait ?s" "accept_key ?s = Some ak" "bufs_of ?s = bufs_of s"
      "buf_live b ?s = buf_live b s"
    using a(1) by (simp_all add: GTStartService_def accepting_def bufs_of_def buf_live_def live_ctxs_def)
  have "core_inv ?s" using iocp_reachable_inv [OF trace_reachable [OF 2]] by (simp add: init_inv_def)
  then have "core_inv ?t" "accept_key ?t \<noteq> None" using f(4) by simp_all
  from GetCompletionPortEventStatus_ok [OF this, of demo_env demo_cfg ?ev] obtain s' where
    "GetCompletionPortEventStatus demo_env demo_cfg ?ev ?t = Inr s'"
    using b(3) f(6) by auto
  moreover have "(ak, b) \<in> set (inflight ?s)" using b(1) f(2) by simp
  ultimately have "iocp_trace demo_env demo_cfg
      ((([] @ [if True then Stays else Resets]) @ [Stays]) @ [table_change ?ev ?s]) s'"
    using iocp_trace.complete [OF 2 _ f(3), of ak b ?ev s'] by simp
  moreover have "table_change ?ev ?s = Arrives" using b f by (simp add: table_change_def)
  ultimately have "iocp_trace demo_env demo_cfg [Stays, Stays, Arrives] s'" by simp
  then show ?thesis by blast
qed

theorem connections_refine_table_witness:
  "\<exists>s k. iocp_trace demo_env demo_cfg [Stays, Stays, Arrives] s \<and>
     um_keys (key_ptr_cache (res s)) = {k} \<and> client_num s = 1"
proof -
  obtain s where s: "iocp_trace demo_env demo_cfg [Stays, Stays, Arrives] s" using demo_arrival by blast
  from connections_refine_table [OF this] obtain es where es: "map change_of es = [Arrives]"
      "um_keys (key_ptr_cache (res s)) = fold conn_do es {}" "client_num s = 1"
    by (elim exE conjE) simp
  obtain e where "es = [e]" "change_of e = Arrives" using es(1) by auto
  then obtain k where "es = [Connect k]" by (cases e) simp_all
  then show ?thesis using s es(2,3) by auto
qed

end
