(* ===== verification/IOCP_Send.thy ===== *)
theory IOCP_Send
  imports IOCP_Core
begin

text \<open>
  What becomes of the buffer of a write. \<open>SendDataUserInterface\<close> neither gives the buffer an event
  type nor enters it into the map of the connection, so its completion finds no owner for it.
\<close>

section \<open>Completions without an owner\<close>

lemma ignored_completion:
  assumes acc: "accept_key s \<noteq> None" and live: "buf_live b s" and ev: "c_overlapped ev = Some b"
    and none: "\<And>k. GetIOBufferPtr k b (res s) = None"
  shows "GetCompletionPortEventStatus env cfg ev s = Inr s"
proof (cases "c_key ev")
  case (Some ck)
  obtain ak where "accept_key s = Some ak" using acc by blast
  then have "\<exists>kp. find_owner ck b s = Inr (kp, None)"
    using none by (simp add: find_owner_def Let_def split: option.split)
  then show ?thesis
    using live ev Some by (auto simp: GetCompletionPortEventStatus_def handle_completion_def split: option.split)
qed (simp add: GetCompletionPortEventStatus_def handle_completion_def ev)

lemma GetIOBufferPtr_exists:
  assumes "core_inv s" and "GetIOBufferPtr k b (res s) = Some b'"
  shows "bufs (bufs_of s) b \<noteq> None"
proof -
  obtain x where x: "ctxs (res s) k = Some x" "um_find b (socket_io_buffer_cache x) = Some b'"
    using assms(2) by (cases "ctxs (res s) k") (auto simp: GetIOBufferPtr_def GetIOBufferCache_def)
  then have "ctx_ok (rm_bufs (res s)) x" using core_invD(2) [OF assms(1)] by (auto simp: rm_inv_def)
  then show ?thesis using x(2) by (auto simp: ctx_ok_def bufs_of_def um_keys_iff)
qed

section \<open>Property\<close>

text \<open>C13: A write that succeeds is never reported and its buffer never comes back. As long as no idle buffer is
  still in the map of a connection, the buffer a send takes is in no map, so that its completion, with whatever
  result, number of bytes and key, changes nothing: no callback is made, no timer is reset, and the buffer stays
  recorded as handed out.\<close>

theorem sent_buffer_leaks:
  assumes inv: "core_inv s" and "accept_key s \<noteq> None" and "unat len \<le> length data" and "ctx_live c s"
    and idle: "\<And>k b. b \<in> set (io_buffer_cache (bufs_of s)) \<Longrightarrow> GetIOBufferPtr k b (res s) = None"
  shows "\<exists>s' h b. SendDataUserInterface env c data len s = Inr s' \<and>
     os_log s' = os_log s @ [WSASend h b (ucast len)] \<and> b \<in> um_keys (io_buffer_in_use (bufs_of s')) \<and>
     (\<forall>ev q. c_overlapped ev = Some b \<longrightarrow>
        GetCompletionPortEventStatus env cfg ev (s'\<lparr>inflight := q\<rparr>) = Inr (s'\<lparr>inflight := q\<rparr>))"
proof -
  obtain s' h b x where S: "SendDataUserInterface env c data len s = Inr s'" "step_ok s s'"
      "os_log s' = os_log s @ [WSASend h b (ucast len)]" "bufs (bufs_of s') b = Some x"
      "b \<in> set (io_buffer_cache (bufs_of s)) \<or> bufs (bufs_of s) b = None"
      "b \<in> um_keys (io_buffer_in_use (bufs_of s'))" "ctxs (res s') = ctxs (res s)"
    using SendData_ok(3) [OF inv assms(3,4), of env] by blast
  have "GetIOBufferPtr k b (res s) = None" for k
    using S(5) idle GetIOBufferPtr_exists [OF inv, of k b] by (cases "GetIOBufferPtr k b (res s)") auto
  then have none: "GetIOBufferPtr k b (res s') = None" for k
    using S(7) by (simp add: GetIOBufferPtr_def GetIOBufferCache_def)
  have "accept_key s' \<noteq> None" using S(2) assms(2) by (simp add: step_ok_def)
  moreover have "buf_live b (s'\<lparr>inflight := q\<rparr>)" for q
    using S(4,6) by (simp add: buf_live_def um_keys_iff) (simp add: bufs_of_def)
  ultimately have "GetCompletionPortEventStatus env cfg ev (s'\<lparr>inflight := q\<rparr>) = Inr (s'\<lparr>inflight := q\<rparr>)"
    if "c_overlapped ev = Some b" for ev q
    using that none by (intro ignored_completion) auto
  then show ?thesis using S(1,3,6) by blast
qed

theorem sent_buffer_leaks_witness:
  "\<exists>s' h b. SendDataUserInterface demo_env 2 [7] 1 (demo_state IO_EVENT_NULL) = Inr s' \<and>
     os_log s' = [WSASend h b 1] \<and>
     GetCompletionPortEventStatus demo_env demo_cfg
       \<lparr>c_ret = True, c_bytes = 1, c_key = Some 2, c_overlapped = Some b\<rparr> s' = Inr s'"
proof -
  let ?s = "demo_state IO_EVENT_NULL"
  have "core_inv ?s" by (rule demo_state_inv) simp
  moreover have "accept_key ?s \<noteq> None" "ctx_live 2 ?s" "io_buffer_cache (bufs_of ?s) = []" "os_log ?s = []"
    by (simp_all add: demo_state_def ctx_live_def um_find_def bufs_of_def buf_mgr_init_def iocp_init_def)
  ultimately obtain s' h b where "SendDataUserInterface demo_env 2 [7] 1 ?s = Inr s'" "os_log s' = [WSASend h b 1]"
      "\<And>ev q. c_overlapped ev = Some b \<Longrightarrow>
        GetCompletionPortEventStatus demo_env demo_cfg ev (s'\<lparr>inflight := q\<rparr>) = Inr (s'\<lparr>inflight := q\<rparr>)"
    using sent_buffer_leaks [of ?s 1 "[7]" 2 demo_env demo_cfg] by auto
  moreover have "s'\<lparr>inflight := inflight s'\<rparr> = s'" by simp
  ultimately show ?thesis by (metis completion.select_convs(4))
qed

end
