(* ===== verification/IOCP_Shutdown.thy ===== *)
theory IOCP_Shutdown
  imports IOCP_Startup
begin

text \<open>
  Stopping the IOCP back end with its threads running. \<open>StopService\<close> of \<open>IOCP_Core\<close> is the
  sequence of what the stopping thread does; here its steps interleave with those of the workers,
  each of which runs \<open>LongTimeWorker_\<close> with \<open>GetCompletionPortEventStatus\<close> as its function. In
  \<open>shut_run\<close> the only completions are the exit packets: no operation of a client ends meanwhile. In
  \<open>busy_run\<close> operations of clients end too. The kernel hands out packets in the order in which they
  were queued, to any worker that waits for one.
\<close>

section \<open>The threads\<close>

text \<open>
  Where a worker is: before the test of its \<open>end_thread_\<close>, before the test of the flag at the
  head of \<open>GetCompletionPortEventStatus\<close>, inside \<open>GetQueuedCompletionStatus\<close>, or returned. The
  stopping thread is in the loop of \<open>PostExitEvent_\<close>, with a number of turns left, at the head of
  the loop of \<open>Stop\<close>, or in \<open>join\<close>.
\<close>

datatype worker_pc = Looping | Calling | Blocked | Gone

datatype stopper_pc = Posting nat | Stopping "addr list" | Joining addr "addr list"

record shutdown =
  sd_iocp :: iocp
  sd_packets :: "(addr \<times> addr) list"
  sd_worker :: "addr \<Rightarrow> worker_pc"
  sd_stopper :: stopper_pc

definition stop_init :: "iocp_env \<Rightarrow> iocp \<Rightarrow> (addr \<Rightarrow> worker_pc) \<Rightarrow> shutdown" where
  "stop_init env s w = \<lparr>sd_iocp = s, sd_packets = [], sd_worker = w, sd_stopper = Posting (n_threads env)\<rparr>"

definition set_pc :: "addr \<Rightarrow> worker_pc \<Rightarrow> shutdown \<Rightarrow> shutdown" where
  "set_pc a pc x = x\<lparr>sd_worker := (sd_worker x)(a := pc)\<rparr>"

definition on_tuple :: "addr \<Rightarrow> Thread_Tuple option \<Rightarrow> iocp \<Rightarrow> iocp" where
  "on_tuple a t s = s\<lparr>iocp_pool := (iocp_pool s)\<lparr>tuples := (tuples (iocp_pool s))(a := t)\<rparr>\<rparr>"

text \<open>The steps of a worker; \<open>None\<close> is a step the worker is not at, or that does not return yet.\<close>

definition loop_test :: "addr \<Rightarrow> shutdown \<Rightarrow> shutdown result option" where
  "loop_test a x =
     (if sd_worker x a \<noteq> Looping then None
      else Some (case tuples (iocp_pool (sd_iocp x)) a of
                   None \<Rightarrow> Inl UseAfterFree
                 | Some t \<Rightarrow> Inr (set_pc a (if end_thread t then Gone else Calling) x)))"

definition call_test :: "addr \<Rightarrow> shutdown \<Rightarrow> shutdown result option" where
  "call_test a x =
     (if sd_worker x a \<noteq> Calling then None
      else Some (Inr (set_pc a (if need_wait (sd_iocp x) then Blocked else Looping) x)))"

definition packet_event :: "addr \<times> addr \<Rightarrow> completion" where
  "packet_event p = \<lparr>c_ret = True, c_bytes = 0, c_key = Some (fst p), c_overlapped = Some (snd p)\<rparr>"

definition dequeue :: "iocp_env \<Rightarrow> Json \<Rightarrow> addr \<Rightarrow> shutdown \<Rightarrow> shutdown result option" where
  "dequeue env cfg a x =
     (if sd_worker x a \<noteq> Blocked then None
      else (case sd_packets x of
              [] \<Rightarrow> None
            | p # ps \<Rightarrow>
                (let s = (sd_iocp x)\<lparr>inflight := remove1 p (inflight (sd_iocp x))\<rparr>
                 in Some (bindR (handle_completion env cfg (packet_event p) s) (\<lambda>s'.
                      Inr (set_pc a Looping (x\<lparr>sd_iocp := s', sd_packets := ps\<rparr>)))))))"

text \<open>The steps of \<open>StopService\<close> up to the end of \<open>Stop\<close>.\<close>

definition post_turn :: "iocp_env \<Rightarrow> Json \<Rightarrow> shutdown \<Rightarrow> shutdown result option" where
  "post_turn env cfg x =
     (case sd_stopper x of
        Posting (Suc k) \<Rightarrow>
          Some (bindR (exit_turn env cfg (sd_iocp x)) (\<lambda>(returned, s').
            Inr (x\<lparr>sd_iocp := s',
                   sd_packets := sd_packets x @ drop (length (inflight (sd_iocp x))) (inflight s'),
                   sd_stopper := Posting (if returned then 0 else k)\<rparr>)))
      | _ \<Rightarrow> None)"

definition post_end :: "shutdown \<Rightarrow> shutdown result option" where
  "post_end x =
     (case sd_stopper x of
        Posting 0 \<Rightarrow>
          Some (Inr (x\<lparr>sd_stopper := Stopping (if thread_pool_started (sd_iocp x)
                                              then workpool (iocp_pool (sd_iocp x)) else [])\<rparr>))
      | _ \<Rightarrow> None)"

definition set_end :: "shutdown \<Rightarrow> shutdown result option" where
  "set_end x =
     (case sd_stopper x of
        Stopping (a # as) \<Rightarrow>
          Some (case tuples (iocp_pool (sd_iocp x)) a of
                  None \<Rightarrow> Inl UseAfterFree
                | Some t \<Rightarrow> Inr (x\<lparr>sd_iocp := on_tuple a (Some (t\<lparr>end_thread := True\<rparr>)) (sd_iocp x),
                                  sd_stopper := Joining a as\<rparr>))
      | _ \<Rightarrow> None)"

definition join_worker :: "shutdown \<Rightarrow> shutdown result option" where
  "join_worker x =
     (case sd_stopper x of
        Joining a as \<Rightarrow>
          (case tuples (iocp_pool (sd_iocp x)) a of
             None \<Rightarrow> Some (Inl UseAfterFree)
           | Some t \<Rightarrow>
               if joinable t \<and> sd_worker x a \<noteq> Gone then None
               else Some (Inr (x\<lparr>sd_iocp := on_tuple a None (sd_iocp x), sd_stopper := Stopping as\<rparr>)))
      | _ \<Rightarrow> None)"

datatype thread_action = LoopTest addr | CallTest addr | Dequeue addr | PostTurn | PostEnd | SetEnd | Join

fun thread_step :: "iocp_env \<Rightarrow> Json \<Rightarrow> thread_action \<Rightarrow> shutdown \<Rightarrow> shutdown result option" where
  "thread_step env cfg (LoopTest a) x = loop_test a x"
| "thread_step env cfg (CallTest a) x = call_test a x"
| "thread_step env cfg (Dequeue a) x = dequeue env cfg a x"
| "thread_step env cfg PostTurn x = post_turn env cfg x"
| "thread_step env cfg PostEnd x = post_end x"
| "thread_step env cfg SetEnd x = set_end x"
| "thread_step env cfg Join x = join_worker x"

definition stopped :: "shutdown \<Rightarrow> bool" where
  "stopped x = (sd_stopper x = Stopping [])"

text \<open>
  A worker that has not been told to end and need not wait goes round its loop: such a turn is
  idle. A run counts the steps that are not.
\<close>

definition ended :: "addr \<Rightarrow> shutdown \<Rightarrow> bool" where
  "ended a x = (case tuples (iocp_pool (sd_iocp x)) a of None \<Rightarrow> True | Some t \<Rightarrow> end_thread t)"

fun idle :: "thread_action \<Rightarrow> shutdown \<Rightarrow> bool" where
  "idle (LoopTest a) x = (\<not> need_wait (sd_iocp x) \<and> \<not> ended a x)"
| "idle (CallTest a) x = (\<not> need_wait (sd_iocp x) \<and> \<not> ended a x)"
| "idle _ x = False"

inductive shut_run :: "iocp_env \<Rightarrow> Json \<Rightarrow> shutdown \<Rightarrow> nat \<Rightarrow> shutdown \<Rightarrow> bool" for env cfg x where
  start: "shut_run env cfg x 0 x"
| step: "shut_run env cfg x n y \<Longrightarrow> thread_step env cfg act y = Some (Inr z) \<Longrightarrow>
    shut_run env cfg x (if idle act y then n else Suc n) z"

section \<open>What the steps do\<close>

lemma exit_packet_frame [simp]:
  "exit_packet (s\<lparr>need_wait := w\<rparr>) = exit_packet s" "exit_packet (s\<lparr>inflight := q\<rparr>) = exit_packet s"
  "exit_packet (s\<lparr>os_log := l\<rparr>) = exit_packet s" "exit_packet (on_tuple a t s) = exit_packet s"
  by (simp_all add: fun_eq_iff exit_packet_def bufs_of_def on_tuple_def)

lemma core_frame [simp]:
  "core_inv (s\<lparr>need_wait := w\<rparr>) = core_inv s" "core_inv (s\<lparr>os_log := l\<rparr>) = core_inv s"
  "core_inv (on_tuple a t s) = core_inv s"
  by (simp_all add: core_inv_def on_tuple_def)

lemma on_tuple_simps [simp]:
  "accept_key (on_tuple a t s) = accept_key s" "need_wait (on_tuple a t s) = need_wait s"
  "thread_pool_started (on_tuple a t s) = thread_pool_started s"
  "iocp_pool (on_tuple a t s) = (iocp_pool s)\<lparr>tuples := (tuples (iocp_pool s))(a := t)\<rparr>"
  by (simp_all add: on_tuple_def)

lemma set_pc_simps [simp]:
  "sd_iocp (set_pc a pc x) = sd_iocp x" "sd_packets (set_pc a pc x) = sd_packets x"
  "sd_stopper (set_pc a pc x) = sd_stopper x" "sd_worker (set_pc a pc x) = (sd_worker x)(a := pc)"
  by (simp_all add: set_pc_def)

text \<open>
  The two steps of a call are \<open>GetCompletionPortEventStatus\<close> with the completion the worker gets,
  and \<open>StopService\<close> alone is the steps of the stopping thread.
\<close>

lemma call_steps:
  assumes "sd_worker x a = Calling" and "sd_packets x = p # ps"
  shows "need_wait (sd_iocp x) \<Longrightarrow>
     call_test a x = Some (Inr (set_pc a Blocked x)) \<and>
     dequeue env cfg a (set_pc a Blocked x) =
       Some (bindR (GetCompletionPortEventStatus env cfg (packet_event p)
           ((sd_iocp x)\<lparr>inflight := remove1 p (inflight (sd_iocp x))\<rparr>))
         (\<lambda>s'. Inr (set_pc a Looping (x\<lparr>sd_iocp := s', sd_packets := ps\<rparr>))))"
    and "\<not> need_wait (sd_iocp x) \<Longrightarrow>
     call_test a x = Some (bindR (GetCompletionPortEventStatus env cfg ev (sd_iocp x))
       (\<lambda>s'. Inr (set_pc a Looping (x\<lparr>sd_iocp := s'\<rparr>))))"
  using assms by (simp_all add: call_test_def dequeue_def GetCompletionPortEventStatus_def set_pc_def)

text \<open>Handling an exit packet clears the flag and does nothing else.\<close>

lemma handle_exit:
  assumes "core_inv s" and "exit_packet s p"
  shows "handle_completion env cfg (packet_event p) s = Inr (s\<lparr>need_wait := False\<rparr>)"
proof -
  obtain k b where p: "p = (k, b)" by fastforce
  have e: "accept_key s = Some k" "GetIOBufferPtr k b (res s) = Some b" "GetIOEventType b (bufs_of s) = IO_EVENT_EXIT"
    using assms(2) by (simp_all add: exit_packet_def p)
  have "buf_live b s" using held_live [OF assms(1) e(1), of k b] e(2) by (simp add: held_def)
  then show ?thesis
    using e by (simp add: handle_completion_def packet_event_def p find_owner_def dispatch_event_def)
qed

text \<open>Posting does not read the flag, the threads or what is in flight.\<close>

definition core_of :: "iocp \<Rightarrow> iocp" where
  "core_of s = s\<lparr>need_wait := False, inflight := [], iocp_pool := pool_init\<rparr>"

lemma exit_turn_core:
  assumes "core_of s = core_of t"
  shows "map_sum id (map_prod id core_of) (exit_turn env cfg s) =
     map_sum id (map_prod id core_of) (exit_turn env cfg t)"
proof -
  have "t = (core_of s)\<lparr>need_wait := need_wait t, inflight := inflight t, iocp_pool := iocp_pool t\<rparr>"
    by (simp add: assms) (simp add: core_of_def)
  then obtain w q p where t: "t = s\<lparr>need_wait := w, inflight := q, iocp_pool := p\<rparr>"
    by (simp add: core_of_def)
  obtain bp r1 where g: "GetIOContextBuffer (ie_res env) (res s) = (bp, r1)" by fastforce
  show ?thesis
  proof (cases bp)
    case (Some b)
    obtain sp r3 where "GetCachedSocket (ie_res env) cfg
        (r1\<lparr>rm_bufs := SetIOBufferEventType b IO_EVENT_EXIT (rm_bufs r1)\<rparr>) = (sp, r3)"
      by fastforce
    then show ?thesis
      unfolding t by (cases "accept_key s")
        (simp_all add: exit_turn_def get_buffer_def get_socket_def g Some on_bufs_def on_res_def os_def core_of_def)
  qed (simp add: t exit_turn_def get_buffer_def g core_of_def)
qed

lemma exit_loop_core:
  "core_of s = core_of t \<Longrightarrow>
   map_sum id core_of (exit_loop env cfg n s) = map_sum id core_of (exit_loop env cfg n t)"
proof (induction n arbitrary: s t)
  case (Suc n)
  note T = exit_turn_core [OF Suc.prems, of env cfg]
  show ?case
  proof (cases "exit_turn env cfg s")
    case (Inl e)
    then show ?thesis using T by (cases "exit_turn env cfg t") simp_all
  next
    case (Inr ds)
    then obtain d s1 t1 where 1: "exit_turn env cfg s = Inr (d, s1)" "exit_turn env cfg t = Inr (d, t1)"
        "core_of s1 = core_of t1"
      using T by (cases ds; cases "exit_turn env cfg t") auto
    then show ?thesis using Suc.IH [OF 1(3)] by simp
  qed
qed simp

section \<open>The invariant of the threads\<close>

text \<open>
  \<open>unjoined\<close> are the workers \<open>Stop\<close> has not joined yet. \<open>stop_inv\<close>: the packets that are queued
  are exit packets with live buffers; every worker that has not returned is unjoined, has its
  entry, and has been told to end only if the stopping thread waits for it. \<open>stop_ref\<close>: what
  the stopping thread still has to do leads where \<open>StopService\<close> leads, run alone from \<open>s0\<close>.
\<close>

definition unjoined :: "shutdown \<Rightarrow> addr list" where
  "unjoined x =
     (case sd_stopper x of
        Posting k \<Rightarrow> workpool (iocp_pool (sd_iocp x)) | Stopping as \<Rightarrow> as | Joining a as \<Rightarrow> a # as)"

definition turns_left :: "shutdown \<Rightarrow> nat" where
  "turns_left x = (case sd_stopper x of Posting k \<Rightarrow> k | _ \<Rightarrow> 0)"

definition told :: "stopper_pc \<Rightarrow> addr \<Rightarrow> bool" where
  "told st a = (case st of Joining b as \<Rightarrow> a = b | _ \<Rightarrow> False)"

definition stop_inv :: "shutdown \<Rightarrow> bool" where
  "stop_inv x =
     (core_inv (sd_iocp x) \<and> accept_key (sd_iocp x) \<noteq> None \<and> thread_pool_started (sd_iocp x) \<and>
      list_all (exit_packet (sd_iocp x)) (sd_packets x) \<and>
      (\<forall>a. sd_worker x a \<noteq> Gone \<longrightarrow> a \<in> set (unjoined x)) \<and> distinct (unjoined x) \<and>
      (\<forall>a \<in> set (unjoined x). \<exists>t. tuples (iocp_pool (sd_iocp x)) a = Some t \<and> joinable t \<and>
         end_thread t = told (sd_stopper x) a))"

definition stop_ref :: "iocp_env \<Rightarrow> Json \<Rightarrow> iocp \<Rightarrow> shutdown \<Rightarrow> bool" where
  "stop_ref env cfg s0 x =
     ((\<exists>p. Stop (\<lambda>_. True) (iocp_pool s0) = Inr (workpool (iocp_pool s0), p) \<and>
         stop_loop (\<lambda>_. True) (unjoined x) (iocp_pool (sd_iocp x)) = Inr (unjoined x, p)) \<and>
      map_sum id core_of (exit_loop env cfg (turns_left x) (sd_iocp x)) =
        map_sum id core_of (PostExitEvent env cfg s0))"

definition posted_state :: "os_call \<Rightarrow> addr \<times> addr \<Rightarrow> res_mgr \<Rightarrow> iocp \<Rightarrow> iocp" where
  "posted_state q b r s = s\<lparr>res := r, os_log := os_log s @ [q], inflight := inflight s @ [b]\<rparr>"

lemma exit_turn_posts:
  assumes "stop_inv x"
  shows "\<exists>q b r'. exit_turn env cfg (sd_iocp x) = Inr (False, posted_state q b r' (sd_iocp x)) \<and>
     step_ok (sd_iocp x) ((sd_iocp x)\<lparr>res := r'\<rparr>) \<and> exit_packet (posted_state q b r' (sd_iocp x)) b \<and>
     (\<forall>p. exit_packet (sd_iocp x) p \<longrightarrow> exit_packet (posted_state q b r' (sd_iocp x)) p)"
proof -
  obtain ak where ak: "accept_key (sd_iocp x) = Some ak" "core_inv (sd_iocp x)"
    using assms by (auto simp: stop_inv_def)
  show ?thesis using exit_turn_ok [OF ak(2,1), of env cfg] unfolding posted_state_def exit_packet_frame by blast
qed

text \<open>The steps a state in order takes, one case for each kind; none of them is undefined.\<close>

lemma thread_step_cases:
  assumes inv: "stop_inv x" and step: "thread_step env cfg act x = Some r"
  obtains
    (test) a where "act = LoopTest a" "sd_worker x a = Looping" "a \<in> set (unjoined x)"
      "ended a x = told (sd_stopper x) a" "r = Inr (set_pc a (if ended a x then Gone else Calling) x)"
  | (call) a where "act = CallTest a" "sd_worker x a = Calling" "a \<in> set (unjoined x)"
      "ended a x = told (sd_stopper x) a" "r = Inr (set_pc a (if need_wait (sd_iocp x) then Blocked else Looping) x)"
  | (packet) a p ps where "act = Dequeue a" "sd_worker x a = Blocked" "a \<in> set (unjoined x)" "sd_packets x = p # ps"
      "r = Inr (set_pc a Looping (x\<lparr>sd_iocp :=
        (sd_iocp x)\<lparr>inflight := remove1 p (inflight (sd_iocp x)), need_wait := False\<rparr>, sd_packets := ps\<rparr>))"
  | (post) k q b r' where "act = PostTurn" "sd_stopper x = Posting (Suc k)"
      "exit_turn env cfg (sd_iocp x) = Inr (False, posted_state q b r' (sd_iocp x))"
      "step_ok (sd_iocp x) ((sd_iocp x)\<lparr>res := r'\<rparr>)" "exit_packet (posted_state q b r' (sd_iocp x)) b"
      "\<And>p. exit_packet (sd_iocp x) p \<Longrightarrow> exit_packet (posted_state q b r' (sd_iocp x)) p"
      "r = Inr (x\<lparr>sd_iocp := posted_state q b r' (sd_iocp x), sd_packets := sd_packets x @ [b], sd_stopper := Posting k\<rparr>)"
  | (posted) "act = PostEnd" "sd_stopper x = Posting 0"
      "r = Inr (x\<lparr>sd_stopper := Stopping (workpool (iocp_pool (sd_iocp x)))\<rparr>)"
  | (tell) a as t where "act = SetEnd" "sd_stopper x = Stopping (a # as)" "tuples (iocp_pool (sd_iocp x)) a = Some t"
      "r = Inr (x\<lparr>sd_iocp := on_tuple a (Some (t\<lparr>end_thread := True\<rparr>)) (sd_iocp x), sd_stopper := Joining a as\<rparr>)"
  | (join) a as where "act = Join" "sd_stopper x = Joining a as" "sd_worker x a = Gone"
      "r = Inr (x\<lparr>sd_iocp := on_tuple a None (sd_iocp x), sd_stopper := Stopping as\<rparr>)"
proof -
  have w: "a \<in> set (unjoined x) \<and> (\<exists>t. tuples (iocp_pool (sd_iocp x)) a = Some t \<and> end_thread t = ended a x) \<and>
      ended a x = told (sd_stopper x) a" if "sd_worker x a \<noteq> Gone" for a
    using inv that by (fastforce simp: stop_inv_def ended_def)
  show thesis
  proof (cases act)
    case (LoopTest a)
    then show ?thesis using step w [of a] by (intro test [of a]) (auto simp: loop_test_def split: if_splits)
  next
    case (CallTest a)
    then show ?thesis using step w [of a] by (intro call [of a]) (auto simp: call_test_def split: if_splits)
  next
    case (Dequeue a)
    then obtain p ps where p: "sd_packets x = p # ps" "sd_worker x a = Blocked"
      using step by (auto simp: dequeue_def split: if_splits list.splits)
    have "handle_completion env cfg (packet_event p) ((sd_iocp x)\<lparr>inflight := q\<rparr>) =
        Inr ((sd_iocp x)\<lparr>inflight := q, need_wait := False\<rparr>)" for q
      using inv p(1) by (intro handle_exit) (auto simp: stop_inv_def)
    then show ?thesis using Dequeue step p w [of a] by (intro packet [of a p ps]) (auto simp: dequeue_def)
  next
    case PostTurn
    then obtain k where k: "sd_stopper x = Posting (Suc k)"
      using step by (auto simp: post_turn_def split: stopper_pc.splits nat.splits)
    from exit_turn_posts [OF inv, of env cfg] obtain q b r' where
      "exit_turn env cfg (sd_iocp x) = Inr (False, posted_state q b r' (sd_iocp x))"
      "step_ok (sd_iocp x) ((sd_iocp x)\<lparr>res := r'\<rparr>)" "exit_packet (posted_state q b r' (sd_iocp x)) b"
      "\<And>p. exit_packet (sd_iocp x) p \<Longrightarrow> exit_packet (posted_state q b r' (sd_iocp x)) p"
      by blast
    then show ?thesis
      using step PostTurn k by (intro post [of k q b r']) (auto simp: post_turn_def posted_state_def)
  next
    case PostEnd
    then show ?thesis
      using step inv by (intro posted) (auto simp: post_end_def stop_inv_def split: stopper_pc.splits nat.splits)
  next
    case SetEnd
    then obtain a as where a: "sd_stopper x = Stopping (a # as)"
      using step by (auto simp: set_end_def split: stopper_pc.splits list.splits)
    then obtain t where "tuples (iocp_pool (sd_iocp x)) a = Some t"
      using inv by (auto simp: stop_inv_def unjoined_def)
    then show ?thesis using SetEnd a step by (intro tell [of a as t]) (auto simp: set_end_def)
  next
    case Join
    then obtain a as where a: "sd_stopper x = Joining a as"
      using step by (auto simp: join_worker_def split: stopper_pc.splits)
    then obtain t where "tuples (iocp_pool (sd_iocp x)) a = Some t" "joinable t"
      using inv by (auto simp: stop_inv_def unjoined_def)
    then show ?thesis using Join a step by (intro join [of a as]) (auto simp: join_worker_def split: if_splits)
  qed
qed

lemma unjoined_worker [simp]:
  "unjoined (set_pc a pc x) = unjoined x" "turns_left (set_pc a pc x) = turns_left x"
  "unjoined (x\<lparr>sd_iocp := (sd_iocp x)\<lparr>inflight := q, need_wait := w\<rparr>, sd_packets := ps\<rparr>) = unjoined x"
  "turns_left (x\<lparr>sd_iocp := s, sd_packets := ps\<rparr>) = turns_left x"
  by (simp_all add: unjoined_def turns_left_def split: stopper_pc.split)

lemma stop_inv_set_pc: "stop_inv x \<Longrightarrow> a \<in> set (unjoined x) \<Longrightarrow> stop_inv (set_pc a pc x)"
  by (simp add: stop_inv_def)

lemma thread_step_inv:
  assumes inv: "stop_inv x" and step: "thread_step env cfg act x = Some r"
  shows "\<exists>y. r = Inr y \<and> stop_inv y"
  using inv step
proof (cases rule: thread_step_cases)
  case (test a)
  then show ?thesis using inv stop_inv_set_pc by simp
next
  case (call a)
  then show ?thesis using inv stop_inv_set_pc by simp
next
  case (packet a p ps)
  have "stop_inv (x\<lparr>sd_iocp := (sd_iocp x)\<lparr>inflight := remove1 p (inflight (sd_iocp x)), need_wait := False\<rparr>,
      sd_packets := ps\<rparr>)"
    using inv packet(4) by (simp add: stop_inv_def)
  then show ?thesis using packet(3,5) stop_inv_set_pc by simp
next
  case (post k q b r')
  have c: "core_inv (posted_state q b r' (sd_iocp x))"
    using step_ok_inv [OF _ post(4)] inv by (simp add: stop_inv_def posted_state_def)
  have "list_all (exit_packet (posted_state q b r' (sd_iocp x))) (sd_packets x @ [b])"
    using inv post(5,6) by (auto simp: stop_inv_def list_all_iff)
  then show ?thesis
    using inv c post(2,7) by (simp add: stop_inv_def unjoined_def told_def) (simp add: posted_state_def)
next
  case (join a as)
  then show ?thesis using inv by (auto simp: stop_inv_def unjoined_def told_def)
qed (use inv in \<open>auto simp: stop_inv_def unjoined_def told_def\<close>)

lemma thread_step_ref:
  assumes inv: "stop_inv x" and ref: "stop_ref env cfg s0 x" and step: "thread_step env cfg act x = Some (Inr y)"
  shows "stop_ref env cfg s0 y"
  using inv step
proof (cases rule: thread_step_cases)
  case (packet a p ps)
  let ?s = "(sd_iocp x)\<lparr>inflight := remove1 p (inflight (sd_iocp x)), need_wait := False\<rparr>"
  have "map_sum id core_of (exit_loop env cfg n ?s) = map_sum id core_of (exit_loop env cfg n (sd_iocp x))" for n
    by (rule exit_loop_core) (simp add: core_of_def)
  then show ?thesis using ref packet(5) by (simp add: stop_ref_def)
next
  case (post k q b r')
  then show ?thesis
    using ref by (simp add: stop_ref_def unjoined_def turns_left_def) (simp add: posted_state_def)
next
  case (tell a as t)
  have "core_of (on_tuple b u s) = core_of s" for b u s by (simp add: core_of_def on_tuple_def)
  then show ?thesis
    using ref tell by (simp add: stop_ref_def unjoined_def turns_left_def)
next
  case (join a as)
  have c: "core_of (on_tuple b u s) = core_of s" for b u s by (simp add: core_of_def on_tuple_def)
  obtain t where "tuples (iocp_pool (sd_iocp x)) a = Some t" "joinable t"
    using inv join(2) by (auto simp: stop_inv_def unjoined_def)
  then show ?thesis
    using ref join by (auto simp: stop_ref_def unjoined_def turns_left_def bindR_eq_Inr c)
next
  case posted
  then show ?thesis using ref by (simp add: stop_ref_def unjoined_def turns_left_def)
qed (use ref in \<open>simp_all add: stop_ref_def\<close>)

section \<open>Enough packets\<close>

text \<open>
  While the flag is set, every worker that has not returned may come to wait for a packet; once it
  is cleared only those that wait already do.
\<close>

definition blocked :: "shutdown \<Rightarrow> addr set" where
  "blocked x = {a. sd_worker x a = Blocked}"

definition running :: "shutdown \<Rightarrow> addr set" where
  "running x = {a. sd_worker x a \<noteq> Gone}"

definition packets_left :: "shutdown \<Rightarrow> nat" where
  "packets_left x = length (sd_packets x) + turns_left x"

definition enough :: "shutdown \<Rightarrow> bool" where
  "enough x =
     (card (blocked x) \<le> packets_left x \<and> (need_wait (sd_iocp x) \<longrightarrow> card (running x) \<le> packets_left x))"

lemma running_finite:
  assumes "stop_inv x"
  shows "finite (running x)" "running x \<subseteq> set (unjoined x)" "blocked x \<subseteq> running x"
proof -
  show "running x \<subseteq> set (unjoined x)" using assms by (auto simp: running_def stop_inv_def)
  then show "finite (running x)" by (rule finite_subset) simp
  show "blocked x \<subseteq> running x" by (auto simp: blocked_def running_def)
qed

lemma set_pc_sets [simp]:
  "blocked (set_pc a pc x) = (if pc = Blocked then insert a (blocked x) else blocked x - {a})"
  "running (set_pc a pc x) = (if pc = Gone then running x - {a} else insert a (running x))"
  by (auto simp: blocked_def running_def)

lemma threads_only [simp]:
  "blocked (x\<lparr>sd_iocp := s\<rparr>) = blocked x" "running (x\<lparr>sd_iocp := s\<rparr>) = running x"
  "blocked (x\<lparr>sd_packets := ps\<rparr>) = blocked x" "running (x\<lparr>sd_packets := ps\<rparr>) = running x"
  "blocked (x\<lparr>sd_stopper := st\<rparr>) = blocked x" "running (x\<lparr>sd_stopper := st\<rparr>) = running x"
  by (simp_all add: blocked_def running_def)

lemma packets_left_set_pc [simp]: "packets_left (set_pc a pc x) = packets_left x"
  by (simp add: packets_left_def)

lemma enough_step:
  assumes inv: "stop_inv x" and e: "enough x" and step: "thread_step env cfg act x = Some (Inr y)"
  shows "enough y"
  using inv step
proof (cases rule: thread_step_cases)
  case (test a)
  have "blocked x - {a} = blocked x" using test(2) by (simp add: blocked_def)
  moreover have "insert a (running x) = running x" using test(2) by (auto simp: running_def)
  moreover have "card (running x - {a}) \<le> card (running x)" by (rule card_Diff1_le)
  ultimately show ?thesis using e test(5) by (auto simp: enough_def)
next
  case (call a)
  have "blocked x - {a} = blocked x" using call(2) by (simp add: blocked_def)
  moreover have r: "insert a (running x) = running x" using call(2) by (auto simp: running_def)
  moreover have "card (insert a (blocked x)) \<le> card (running x)"
    using running_finite [OF inv] r by (intro card_mono) auto
  ultimately show ?thesis using e call(5) by (auto simp: enough_def)
next
  case (packet a p ps)
  have "a \<in> blocked x" using packet(2) by (simp add: blocked_def)
  moreover have "finite (blocked x)" using running_finite [OF inv] finite_subset by blast
  ultimately have "Suc (card (blocked x - {a})) = card (blocked x)" by (intro card_Suc_Diff1)
  then show ?thesis using e packet(4,5) by (simp add: enough_def packets_left_def)
next
  case (post k q b r')
  then show ?thesis
    using e by (simp add: enough_def packets_left_def turns_left_def) (simp add: posted_state_def)
qed (use e in \<open>auto simp: enough_def packets_left_def turns_left_def\<close>)

section \<open>How much is left to do\<close>

definition pc_weight :: "shutdown \<Rightarrow> addr \<Rightarrow> nat" where
  "pc_weight x a =
     (case sd_worker x a of
        Gone \<Rightarrow> 0
      | Blocked \<Rightarrow> if need_wait (sd_iocp x) then 1 else 3
      | Calling \<Rightarrow> if need_wait (sd_iocp x) \<or> ended a x then 2 else 3
      | Looping \<Rightarrow> if \<not> need_wait (sd_iocp x) \<and> ended a x then 1 else 3)"

fun stopper_weight :: "nat \<Rightarrow> stopper_pc \<Rightarrow> nat" where
  "stopper_weight n (Posting k) = 2 * k + 2 * n + 1"
| "stopper_weight n (Stopping as) = 2 * length as"
| "stopper_weight n (Joining a as) = 2 * length as + 1"

definition work :: "addr set \<Rightarrow> shutdown \<Rightarrow> nat" where
  "work V x =
     (if need_wait (sd_iocp x) then 4 * card V else 0) + sum (pc_weight x) V + length (sd_packets x) +
     stopper_weight (card V) (sd_stopper x)"

lemma sum_one:
  fixes f g :: "'a \<Rightarrow> nat"
  assumes "finite V" and "a \<in> V" and "\<And>b. b \<noteq> a \<Longrightarrow> f b = g b"
  shows "sum f V + g a = sum g V + f a"
proof -
  have "sum f (V - {a}) = sum g (V - {a})" using assms(3) by (intro sum.cong) auto
  then show ?thesis using assms(1,2) by (simp add: sum.remove [of V a])
qed

lemma ended_frame [simp]:
  "ended a (set_pc b pc x) = ended a x" "ended a (x\<lparr>sd_packets := ps\<rparr>) = ended a x"
  "ended a (x\<lparr>sd_stopper := st\<rparr>) = ended a x"
  "ended a (x\<lparr>sd_iocp := (sd_iocp x)\<lparr>inflight := q, need_wait := w\<rparr>\<rparr>) = ended a x"
  "ended a (x\<lparr>sd_iocp := posted_state c p r (sd_iocp x)\<rparr>) = ended a x"
  by (simp_all add: ended_def posted_state_def)

lemma pc_weight_le: "pc_weight x a \<le> 3"
  by (simp add: pc_weight_def split: worker_pc.split)

lemma work_set_pc:
  assumes "finite V" and "a \<in> V" and "pc_weight (set_pc a pc x) a + k \<le> pc_weight x a"
  shows "work V (set_pc a pc x) + k \<le> work V x"
proof -
  have "sum (pc_weight (set_pc a pc x)) V + pc_weight x a = sum (pc_weight x) V + pc_weight (set_pc a pc x) a"
    using assms(1,2) by (intro sum_one) (auto simp: pc_weight_def)
  then show ?thesis using assms(3) by (simp add: work_def)
qed

lemma work_step:
  assumes inv: "stop_inv x" and V: "finite V" "set (unjoined x) \<subseteq> V"
    and step: "thread_step env cfg act x = Some (Inr y)"
  shows "work V y + (if idle act x then 0 else 1) \<le> work V x"
  using inv step
proof (cases rule: thread_step_cases)
  case (test a)
  have w: "pc_weight y a + (if idle act x then 0 else 1) \<le> pc_weight x a"
    using test(1,2,5) by (auto simp: pc_weight_def)
  obtain pc where y: "y = set_pc a pc x" using test(5) by simp
  show ?thesis unfolding y by (rule work_set_pc [OF V(1)]) (use w y V(2) test(3) in auto)
next
  case (call a)
  have w: "pc_weight y a + (if idle act x then 0 else 1) \<le> pc_weight x a"
    using call(1,2,5) by (auto simp: pc_weight_def)
  obtain pc where y: "y = set_pc a pc x" using call(5) by simp
  show ?thesis unfolding y by (rule work_set_pc [OF V(1)]) (use w y V(2) call(3) in auto)
next
  case (packet a p ps)
  have y: "\<not> need_wait (sd_iocp y)" using packet(5) by simp
  have "sum (pc_weight y) V \<le> (if need_wait (sd_iocp x) then 4 * card V else 0) + sum (pc_weight x) V"
  proof (cases "need_wait (sd_iocp x)")
    case True
    have "sum (pc_weight y) V \<le> card V * 3" using pc_weight_le sum_bounded_above [of V "pc_weight y" 3] by simp
    then show ?thesis using True by simp
  next
    case False
    have "pc_weight y b \<le> pc_weight x b" for b
      using packet(2,5) False by (auto simp: pc_weight_def split: worker_pc.split)
    then show ?thesis by (simp add: sum_mono le_add2 trans_le_add2)
  qed
  then show ?thesis using packet(1,4,5) y by (simp add: work_def)
next
  case (post k q b r')
  have "pc_weight y = pc_weight x"
    using post(7) by (auto simp: fun_eq_iff pc_weight_def posted_state_def ended_def)
  then show ?thesis using post(1,2,7) by (simp add: work_def) (simp add: posted_state_def)
next
  case posted
  have "length (workpool (iocp_pool (sd_iocp x))) \<le> card V"
    using inv V posted(2) card_mono [OF V] distinct_card [of "unjoined x"] by (simp add: stop_inv_def unjoined_def)
  moreover have "pc_weight y = pc_weight x" using posted(3) by (auto simp: fun_eq_iff pc_weight_def)
  ultimately show ?thesis using posted by (simp add: work_def)
next
  case (tell a as t)
  have "pc_weight y b \<le> pc_weight x b" for b
    using tell(3,4) by (auto simp: pc_weight_def ended_def split: worker_pc.split)
  then have "sum (pc_weight y) V \<le> sum (pc_weight x) V" by (rule sum_mono)
  then show ?thesis using tell by (simp add: work_def)
next
  case (join a as)
  have "pc_weight y b = pc_weight x b" for b
    using join(3,4) by (auto simp: pc_weight_def ended_def split: worker_pc.split)
  then have "pc_weight y = pc_weight x" by (simp add: fun_eq_iff)
  then show ?thesis using join by (simp add: work_def)
qed

section \<open>Runs\<close>

lemma unjoined_step:
  assumes inv: "stop_inv x" and step: "thread_step env cfg act x = Some (Inr y)"
  shows "set (unjoined y) \<subseteq> set (unjoined x)"
  using inv step
proof (cases rule: thread_step_cases)
  case (post k q b r')
  then show ?thesis by (simp add: unjoined_def) (simp add: posted_state_def)
next
  case posted
  then show ?thesis by (simp add: unjoined_def)
next
  case (tell a as t)
  then show ?thesis by (simp add: unjoined_def)
next
  case (join a as)
  then show ?thesis by (auto simp: unjoined_def)
qed simp_all

lemma shut_run_inv:
  assumes "shut_run env cfg x n y" and "stop_inv x" and "finite V" and "set (unjoined x) \<subseteq> V"
  shows "stop_inv y \<and> set (unjoined y) \<subseteq> V \<and> n + work V y \<le> work V x \<and>
     (enough x \<longrightarrow> enough y) \<and> (stop_ref env cfg s0 x \<longrightarrow> stop_ref env cfg s0 y)"
  using assms
proof (induction rule: shut_run.induct)
  case (step n y act z)
  then have y: "stop_inv y" "set (unjoined y) \<subseteq> V" "n + work V y \<le> work V x" "enough x \<longrightarrow> enough y"
      "stop_ref env cfg s0 x \<longrightarrow> stop_ref env cfg s0 y"
    by blast+
  note go = step.hyps(2)
  have "(if idle act y then n else Suc n) + work V z \<le> work V x"
    using work_step [OF y(1) step.prems(2) y(2) go] y(3) by (simp split: if_splits)
  then show ?case
    using thread_step_inv [OF y(1) go] unjoined_step [OF y(1) go] enough_step [OF y(1) _ go]
      thread_step_ref [OF y(1) _ go] y by blast
qed simp

text \<open>As long as \<open>Stop\<close> has not returned some thread can do something, and does not go round in vain.\<close>

lemma progress:
  assumes inv: "stop_inv x" and e: "enough x" and go: "\<not> stopped x"
  shows "\<exists>act y. \<not> idle act x \<and> thread_step env cfg act x = Some (Inr y)"
proof -
  have "\<exists>act r. \<not> idle act x \<and> thread_step env cfg act x = Some r"
  proof (cases "sd_stopper x")
    case (Posting k)
    then show ?thesis
      by (cases k) (auto intro: exI [of _ PostEnd] exI [of _ PostTurn] simp: post_turn_def post_end_def)
  next
    case (Stopping as)
    then obtain a as' where "as = a # as'" using go by (cases as) (auto simp: stopped_def)
    then show ?thesis using Stopping by (intro exI [of _ SetEnd]) (simp add: set_end_def)
  next
    case (Joining a as)
    obtain t where t: "tuples (iocp_pool (sd_iocp x)) a = Some t" "end_thread t"
      using inv Joining by (auto simp: stop_inv_def unjoined_def told_def)
    show ?thesis
    proof (cases "sd_worker x a")
      case Looping
      then show ?thesis using t by (intro exI [of _ "LoopTest a"]) (simp add: loop_test_def ended_def)
    next
      case Calling
      then show ?thesis using t by (intro exI [of _ "CallTest a"]) (simp add: call_test_def ended_def)
    next
      case Gone
      then show ?thesis using t Joining by (intro exI [of _ Join]) (simp add: join_worker_def)
    next
      case Blocked
      then have "a \<in> blocked x" by (simp add: blocked_def)
      moreover have "finite (blocked x)" using running_finite [OF inv] finite_subset by blast
      ultimately have "0 < card (blocked x)" using card_gt_0_iff by blast
      then obtain p ps where "sd_packets x = p # ps"
        using e Joining by (cases "sd_packets x") (auto simp: enough_def packets_left_def turns_left_def)
      then show ?thesis using Blocked by (intro exI [of _ "Dequeue a"]) (simp add: dequeue_def)
    qed
  qed
  then show ?thesis using thread_step_inv [OF inv] by blast
qed

text \<open>The state in which \<open>StopService\<close> is called.\<close>

lemma stop_init_inv:
  assumes "init_inv s" and "accept_key s = Some ak" and "thread_pool_started s"
    and "\<And>a. w a \<noteq> Gone \<Longrightarrow> a \<in> set (workpool (iocp_pool s))"
  shows "stop_inv (stop_init env s w)" "stop_ref env cfg s (stop_init env s w)"
    and "unjoined (stop_init env s w) = workpool (iocp_pool s)"
proof -
  have c: "core_inv s" "pool_inv (iocp_pool s)"
    using assms(1) by (auto simp: init_inv_def)
  show u: "unjoined (stop_init env s w) = workpool (iocp_pool s)"
    by (simp add: unjoined_def stop_init_def)
  show "stop_inv (stop_init env s w)"
    using c assms(2-4) u by (auto simp: stop_inv_def pool_inv_def told_def) (auto simp: stop_init_def)
  show "stop_ref env cfg s (stop_init env s w)"
    using Stop_result [OF c(2), of "\<lambda>_. True"] u
    by (simp add: stop_ref_def Stop_def) (simp add: stop_init_def turns_left_def PostExitEvent_def)
qed

lemma stop_init_enough:
  assumes "stop_inv (stop_init env s w)" and "length (workpool (iocp_pool s)) \<le> n_threads env"
  shows "enough (stop_init env s w)"
proof -
  let ?x = "stop_init env s w"
  have "running ?x \<subseteq> set (workpool (iocp_pool s))"
    using running_finite(2) [OF assms(1)] by (simp add: unjoined_def stop_init_def)
  then have "card (running ?x) \<le> length (workpool (iocp_pool s))"
    using card_mono [of "set (workpool (iocp_pool s))"] card_length le_trans by blast
  moreover have "card (blocked ?x) \<le> card (running ?x)"
    using running_finite [OF assms(1)] by (intro card_mono)
  ultimately show ?thesis
    using assms(2) by (simp add: enough_def packets_left_def turns_left_def) (simp add: stop_init_def)
qed

lemma shut_run_trans:
  "shut_run env cfg y m z \<Longrightarrow> shut_run env cfg x n y \<Longrightarrow> \<exists>k. shut_run env cfg x k z"
  by (induction rule: shut_run.induct) (auto intro: shut_run.step)

text \<open>However far a run has come, it can be continued until \<open>Stop\<close> has returned.\<close>

lemma can_finish:
  assumes "stop_inv x" and "enough x" and "finite V" and "set (unjoined x) \<subseteq> V"
  shows "\<exists>n y. shut_run env cfg x n y \<and> stopped y"
  using assms
proof (induction "work V x" arbitrary: x rule: less_induct)
  case less
  show ?case
  proof (cases "stopped x")
    case True
    then show ?thesis using shut_run.start by blast
  next
    case False
    obtain act y where go: "\<not> idle act x" "thread_step env cfg act x = Some (Inr y)"
      using progress [OF less.prems(1,2) False] by blast
    have y: "stop_inv y" "enough y" "set (unjoined y) \<subseteq> V"
      using thread_step_inv [OF less.prems(1) go(2)] enough_step [OF less.prems(1,2) go(2)]
        unjoined_step [OF less.prems(1) go(2)] less.prems(4) by blast+
    have "work V y < work V x" using work_step [OF less.prems(1,3,4) go(2)] go(1) by simp
    then obtain n z where "shut_run env cfg y n z" "stopped z"
      using less.hyps [OF _ y(1,2) less.prems(3) y(3)] by blast
    then show ?thesis
      using shut_run_trans [OF _ shut_run.step [OF shut_run.start go(2)]] by blast
  qed
qed

text \<open>When \<open>Stop\<close> has returned, every worker has ended and the pool is as \<open>Stop\<close> alone leaves it.\<close>

lemma stopped_pool:
  assumes "init_inv s" and "accept_key s = Some ak" and "thread_pool_started s"
    and "\<And>a. w a \<noteq> Gone \<Longrightarrow> a \<in> set (workpool (iocp_pool s))"
    and "shut_run env cfg (stop_init env s w) n x" and "stopped x"
  shows "Stop (\<lambda>_. True) (iocp_pool s) = Inr (workpool (iocp_pool s), iocp_pool (sd_iocp x))"
    and "sd_worker x a = Gone"
proof -
  note I = stop_init_inv [OF assms(1-4)]
  have x: "stop_inv x" "stop_ref env cfg s x" using shut_run_inv [OF assms(5) I(1)] I(2) by blast+
  have u: "unjoined x = []" using assms(6) by (simp add: stopped_def unjoined_def)
  show "Stop (\<lambda>_. True) (iocp_pool s) = Inr (workpool (iocp_pool s), iocp_pool (sd_iocp x))"
    using x(2) by (auto simp: stop_ref_def u)
  show "sd_worker x a = Gone" using x(1) u by (auto simp: stop_inv_def)
qed

lemma work_init:
  assumes "distinct (workpool (iocp_pool s))" and "length (workpool (iocp_pool s)) \<le> n_threads env"
  shows "work (set (workpool (iocp_pool s))) (stop_init env s w) \<le> 11 * n_threads env + 1"
proof -
  let ?V = "set (workpool (iocp_pool s))" and ?x = "stop_init env s w"
  have "sum (pc_weight ?x) ?V \<le> card ?V * 3"
    using pc_weight_le sum_bounded_above [of ?V "pc_weight ?x" 3] by simp
  moreover have "card ?V \<le> n_threads env" using assms distinct_card by metis
  ultimately show ?thesis by (simp add: work_def) (simp add: stop_init_def)
qed

section \<open>Completions of clients\<close>

text \<open>
  An operation of a client that is in flight may end meanwhile, in any way, and its completion goes to a
  worker that waits. \<open>busy_run\<close> counts these completions.
\<close>

definition client_event ::
    "iocp_env \<Rightarrow> Json \<Rightarrow> addr \<Rightarrow> addr \<times> addr \<Rightarrow> bool \<Rightarrow> dword \<Rightarrow> shutdown \<Rightarrow> shutdown result option" where
  "client_event env cfg a p ret n x =
     (if sd_worker x a \<noteq> Blocked \<or> p \<notin> set (inflight (sd_iocp x)) \<or> p \<in> set (sd_packets x) then None
      else (let s = (sd_iocp x)\<lparr>inflight := remove1 p (inflight (sd_iocp x))\<rparr>;
                ev = \<lparr>c_ret = ret, c_bytes = n, c_key = Some (fst p), c_overlapped = Some (snd p)\<rparr>
            in Some (bindR (handle_completion env cfg ev s) (\<lambda>s'.
                 Inr (set_pc a Looping (x\<lparr>sd_iocp := s'\<rparr>))))))"

inductive busy_run :: "iocp_env \<Rightarrow> Json \<Rightarrow> shutdown \<Rightarrow> nat \<Rightarrow> shutdown \<Rightarrow> bool" for env cfg x where
  start: "busy_run env cfg x 0 x"
| step: "busy_run env cfg x m y \<Longrightarrow> thread_step env cfg act y = Some (Inr z) \<Longrightarrow> busy_run env cfg x m z"
| client: "busy_run env cfg x m y \<Longrightarrow> client_event env cfg a p ret n y = Some (Inr z) \<Longrightarrow>
    busy_run env cfg x (Suc m) z"

section \<open>More workers than packets\<close>

text \<open>
  \<open>join_inv\<close> is the part of \<open>stop_inv\<close> that holds in busy runs too. \<open>short\<close>: the workers \<open>V\<close> that
  are not waiting and the packets still to come are at most \<open>n\<close>.
\<close>

definition join_inv :: "shutdown \<Rightarrow> bool" where
  "join_inv x =
     (core_inv (sd_iocp x) \<and> accept_key (sd_iocp x) \<noteq> None \<and> thread_pool_started (sd_iocp x) \<and>
      (\<forall>a. sd_worker x a \<noteq> Gone \<longrightarrow> a \<in> set (unjoined x)) \<and> distinct (unjoined x) \<and>
      (\<forall>a \<in> set (unjoined x). \<exists>t. tuples (iocp_pool (sd_iocp x)) a = Some t \<and> joinable t))"

definition short :: "addr set \<Rightarrow> nat \<Rightarrow> shutdown \<Rightarrow> bool" where
  "short V n x = (card (V - blocked x) + packets_left x \<le> n)"

lemma stop_join_inv: "stop_inv x \<Longrightarrow> join_inv x"
  by (auto simp: stop_inv_def join_inv_def)

lemma short_set_pc:
  assumes "finite V" and "short V n x"
  shows "short V (Suc n) (set_pc a pc x)" and "sd_worker x a \<noteq> Blocked \<Longrightarrow> short V n (set_pc a pc x)"
proof -
  have "V - (blocked x - {a}) \<subseteq> insert a (V - blocked x)" by blast
  then have "card (V - (blocked x - {a})) \<le> card (insert a (V - blocked x))" using assms(1) by (intro card_mono) auto
  also have "\<dots> \<le> Suc (card (V - blocked x))" by (rule card_insert_le_m1) simp_all
  finally have 1: "card (V - (blocked x - {a})) \<le> Suc (card (V - blocked x))" .
  have "card (V - insert a (blocked x)) \<le> card (V - blocked x)" using assms(1) by (intro card_mono) auto
  then show "short V (Suc n) (set_pc a pc x)" using 1 assms(2) by (simp add: short_def)
  assume "sd_worker x a \<noteq> Blocked"
  then have "blocked x - {a} = blocked x" by (simp add: blocked_def)
  then show "short V n (set_pc a pc x)"
    using assms(2) \<open>card (V - insert a (blocked x)) \<le> card (V - blocked x)\<close> by (simp add: short_def)
qed

text \<open>Handling any completion keeps the pool and the accept key.\<close>

lemma handled_join_inv:
  assumes "join_inv x" and "handle_completion env cfg ev ((sd_iocp x)\<lparr>inflight := q\<rparr>) = Inr s'"
    and "a \<in> set (unjoined x)"
  shows "join_inv (set_pc a pc (x\<lparr>sd_iocp := s', sd_packets := ps\<rparr>))"
    and "unjoined (set_pc a pc (x\<lparr>sd_iocp := s', sd_packets := ps\<rparr>)) = unjoined x"
proof -
  let ?s = "(sd_iocp x)\<lparr>inflight := q\<rparr>"
  have i: "core_inv ?s" "accept_key ?s \<noteq> None" using assms(1) by (simp_all add: join_inv_def)
  have ok: "step_ok ?s s'" by (rule handle_completion_ok [OF i assms(2)])
  then have p: "iocp_pool s' = iocp_pool (sd_iocp x)" "accept_key s' \<noteq> None"
      "thread_pool_started s' = thread_pool_started (sd_iocp x)"
    using i by (simp_all add: step_ok_def)
  show u: "unjoined (set_pc a pc (x\<lparr>sd_iocp := s', sd_packets := ps\<rparr>)) = unjoined x"
    using p(1) by (simp add: unjoined_def split: stopper_pc.split)
  show "join_inv (set_pc a pc (x\<lparr>sd_iocp := s', sd_packets := ps\<rparr>))"
    using assms(1,3) step_ok_inv [OF i(1) ok] p unfolding join_inv_def u by simp
qed

lemma join_inv_step:
  assumes inv: "join_inv x" and V: "finite V" "set (unjoined x) \<subseteq> V" and s: "short V n x"
    and step: "thread_step env cfg act x = Some (Inr y)"
  shows "join_inv y \<and> set (unjoined y) \<subseteq> V \<and> short V n y"
proof (cases act)
  case (LoopTest a)
  then obtain pc where y: "y = set_pc a pc x" "sd_worker x a = Looping"
    using step by (auto simp: loop_test_def split: if_splits option.splits)
  then have "a \<in> set (unjoined x)" using inv by (simp add: join_inv_def)
  then show ?thesis using inv V s y short_set_pc(2) [OF V(1) s] by (simp add: join_inv_def)
next
  case (CallTest a)
  then obtain pc where y: "y = set_pc a pc x" "sd_worker x a = Calling"
    using step by (auto simp: call_test_def split: if_splits)
  then have "a \<in> set (unjoined x)" using inv by (simp add: join_inv_def)
  then show ?thesis using inv V s y short_set_pc(2) [OF V(1) s] by (simp add: join_inv_def)
next
  case (Dequeue a)
  then obtain p ps s' where y: "sd_worker x a = Blocked" "sd_packets x = p # ps"
      "handle_completion env cfg (packet_event p) ((sd_iocp x)\<lparr>inflight := remove1 p (inflight (sd_iocp x))\<rparr>) = Inr s'"
      "y = set_pc a Looping (x\<lparr>sd_iocp := s', sd_packets := ps\<rparr>)"
    using step by (auto simp: dequeue_def bindR_eq_Inr split: if_splits list.splits)
  have a: "a \<in> set (unjoined x)" using inv y(1) by (simp add: join_inv_def)
  have "packets_left x = Suc (packets_left (x\<lparr>sd_iocp := s', sd_packets := ps\<rparr>))"
    by (simp add: packets_left_def y(2))
  then obtain k where "n = Suc k" "short V k (x\<lparr>sd_iocp := s', sd_packets := ps\<rparr>)"
    using s by (cases n) (auto simp: short_def)
  then show ?thesis
    using handled_join_inv [OF inv y(3) a] V(2) short_set_pc(1) [OF V(1)] unfolding y(4) by simp
next
  case PostTurn
  then obtain k where k: "sd_stopper x = Posting (Suc k)"
    using step by (auto simp: post_turn_def split: stopper_pc.splits nat.splits)
  obtain ak where ak: "accept_key (sd_iocp x) = Some ak" "core_inv (sd_iocp x)"
    using inv by (auto simp: join_inv_def)
  obtain q b r' where e: "exit_turn env cfg (sd_iocp x) = Inr (False, posted_state q b r' (sd_iocp x))"
      "step_ok (sd_iocp x) ((sd_iocp x)\<lparr>res := r'\<rparr>)"
    using exit_turn_ok [OF ak(2,1), of env cfg] unfolding posted_state_def by blast
  have y: "y = x\<lparr>sd_iocp := posted_state q b r' (sd_iocp x), sd_packets := sd_packets x @ [b], sd_stopper := Posting k\<rparr>"
    using step PostTurn k e(1) by (simp add: post_turn_def) (simp add: posted_state_def)
  have "core_inv (posted_state q b r' (sd_iocp x))"
    using step_ok_inv [OF ak(2) e(2)] by (simp add: posted_state_def)
  then have "join_inv y"
    using inv k unfolding y by (simp add: join_inv_def unjoined_def) (simp add: posted_state_def)
  moreover have "unjoined y = unjoined x" using k unfolding y by (simp add: unjoined_def) (simp add: posted_state_def)
  moreover have "short V n y" using s k unfolding y by (simp add: short_def packets_left_def turns_left_def)
  ultimately show ?thesis using V(2) by simp
next
  case PostEnd
  then show ?thesis
    using inv V s step
    by (auto simp: post_end_def join_inv_def unjoined_def short_def packets_left_def turns_left_def
        split: stopper_pc.splits nat.splits)
next
  case SetEnd
  then show ?thesis
    using inv V s step
    by (auto simp: set_end_def join_inv_def unjoined_def short_def packets_left_def turns_left_def
        split: stopper_pc.splits list.splits option.splits)
next
  case Join
  then show ?thesis
    using inv V s step
    by (auto simp: join_worker_def join_inv_def unjoined_def short_def packets_left_def turns_left_def
        split: stopper_pc.splits option.splits if_splits)
qed

lemma busy_run_short:
  "busy_run env cfg x m y \<Longrightarrow> join_inv x \<Longrightarrow> finite V \<Longrightarrow> set (unjoined x) \<subseteq> V \<Longrightarrow> short V n x \<Longrightarrow>
   join_inv y \<and> set (unjoined y) \<subseteq> V \<and> short V (n + m) y"
proof (induction rule: busy_run.induct)
  case start
  then show ?case by simp
next
  case (step m y act z)
  then show ?case using join_inv_step [OF _ step.prems(2) _ _ step.hyps(2)] by blast
next
  case (client m y a p ret k z)
  have y: "join_inv y" "set (unjoined y) \<subseteq> V" "short V (n + m) y" using client by blast+
  obtain ev q s' where z: "sd_worker y a = Blocked" "handle_completion env cfg ev ((sd_iocp y)\<lparr>inflight := q\<rparr>) = Inr s'"
      "z = set_pc a Looping (y\<lparr>sd_iocp := s', sd_packets := sd_packets y\<rparr>)"
    using client.hyps(2) by (auto simp: client_event_def Let_def bindR_eq_Inr split: if_splits)
  have a: "a \<in> set (unjoined y)" using y(1) z(1) by (simp add: join_inv_def)
  have "short V (n + m) (y\<lparr>sd_iocp := s', sd_packets := sd_packets y\<rparr>)"
    using y(3) by (simp add: short_def packets_left_def turns_left_def)
  then show ?case
    using handled_join_inv [OF y(1) z(2) a, of Looping "sd_packets y"] y(2) short_set_pc(1) [OF client.prems(2)]
    unfolding z(3) by simp
qed

section \<open>Starting again after a failed start\<close>

text \<open>Each attempt to initialise that gets as far as the thread pool adds its workers to those already there.\<close>

lemma Initialize_adds_workers:
  assumes i: "init_inv s" "\<not> is_inited s"
    and sys: "ie_WSAStartup env = 0" "ie_version env = (2, 2)" "ie_bind env = 0" "ie_listen env = 0"
      "ie_AcceptEx_addr env" "ie_SockAddrs_addr env" "ie_new_port env \<noteq> INVALID_HANDLE_VALUE"
    and cfg: "0 < sint (GT_READ_CFG_INT cfg ''io_buffer_cfg'' ''pre_allocate_size'' 2000)"
      "int_mult (GT_READ_CFG_INT cfg ''server_cfg'' ''out_date_control'' 120) 1000 = Inr od"
      "int_mult (GT_READ_CFG_INT cfg ''server_cfg'' ''connect_check_interval'' 30000) 1000 = Inr ci"
  shows "\<exists>s'. iocp_Initialize env cfg s = Inr (ie_port env (port_call env cfg s) = ie_new_port env, s') \<and>
     length (workpool (iocp_pool s')) = length (workpool (iocp_pool s)) + n_threads env \<and>
     thread_pool_started s' \<and> port_call env cfg s < call_no s' \<and> (ie_port env (port_call env cfg s) = ie_new_port env \<longrightarrow> accept_key s' \<noteq> None)"
proof -
  obtain s' where s': "init_body env cfg s = Inr (ie_port env (port_call env cfg s) = ie_new_port env, s')"
      "iocp_pool s' = Start (n_threads env) (iocp_pool s)" "thread_pool_started s'" "port_call env cfg s < call_no s'"
      "ie_port env (port_call env cfg s) = ie_new_port env \<longrightarrow> accept_key s' \<noteq> None"
    using init_body_outcome [OF i(1) sys cfg] by blast
  show ?thesis
  proof (cases "ie_port env (port_call env cfg s) = ie_new_port env")
    case True
    then show ?thesis using s' i(2) by (simp add: iocp_Initialize_def Start_length call_no_def)
  next
    case False
    then show ?thesis
      using s' i(2) init_body_failed by (simp add: iocp_Initialize_def Start_length on_res_def os_def call_no_def)
  qed
qed

text \<open>A server with two workers that was started, and one whose first start failed, with four.\<close>

definition all_waiting :: "iocp \<Rightarrow> addr \<Rightarrow> worker_pc" where
  "all_waiting s a = (if a \<in> set (workpool (iocp_pool s)) then Blocked else Gone)"

lemma all_waiting_pool: "all_waiting s a \<noteq> Gone \<Longrightarrow> a \<in> set (workpool (iocp_pool s))"
  by (simp add: all_waiting_def split: if_splits)

lemma demo_two_workers:
  "\<exists>s ak. iocp_reachable demo_env demo_cfg s \<and> accept_key s = Some ak \<and> thread_pool_started s \<and>
     length (workpool (iocp_pool s)) \<le> n_threads demo_env"
proof -
  have "ie_new_port demo_env \<noteq> INVALID_HANDLE_VALUE" by (simp add: demo_env_def INVALID_HANDLE_VALUE_def)
  then obtain s where s: "iocp_Initialize demo_env demo_cfg iocp_init = Inr (True, s)" "accept_key s \<noteq> None"
      "thread_pool_started s" "length (workpool (iocp_pool s)) = n_threads demo_env"
    using init_success [of demo_env demo_cfg 120000 30000000] demo_cfg_simps by (auto simp: demo_env_def)
  have "iocp_reachable demo_env demo_cfg s"
    by (rule iocp_reachable.step [OF iocp_reachable.start iocp_step.init [OF s(1)]])
  then show ?thesis using s(2-4) by auto
qed

definition retry_env :: iocp_env where
  "retry_env = demo_env\<lparr>ie_port := (\<lambda>n. if n = 4 then 8 else 7)\<rparr>"

lemma failed_start_inited: "iocp_Initialize env cfg s = Inr (False, s') \<Longrightarrow> \<not> is_inited s'"
  by (auto simp: iocp_Initialize_def bindR_eq_Inr Let_def split: if_splits)

lemma demo_four_workers:
  "\<exists>s ak. iocp_reachable retry_env demo_cfg s \<and> accept_key s = Some ak \<and> thread_pool_started s \<and>
     n_threads retry_env = 2 \<and> length (workpool (iocp_pool s)) = 4"
proof -
  have port: "ie_new_port retry_env = 7" "ie_port retry_env n = (if n = 4 then 8 else 7)" for n
    by (simp_all add: retry_env_def demo_env_def)
  have two: "n_threads retry_env = 2" by (simp add: n_threads_def retry_env_def demo_env_def)
  have go: "\<exists>s'. iocp_Initialize retry_env demo_cfg s = Inr (port_call retry_env demo_cfg s \<noteq> 4, s') \<and>
      length (workpool (iocp_pool s')) = length (workpool (iocp_pool s)) + 2 \<and> thread_pool_started s' \<and>
      port_call retry_env demo_cfg s < call_no s' \<and> (port_call retry_env demo_cfg s \<noteq> 4 \<longrightarrow> accept_key s' \<noteq> None)"
    if "init_inv s" "\<not> is_inited s" for s
    using Initialize_adds_workers [OF that, of retry_env demo_cfg 120000 30000000] demo_cfg_simps port two
    by (simp add: retry_env_def demo_env_def INVALID_HANDLE_VALUE_def split: if_splits)
  have "GT_READ_CFG_BOOL demo_cfg ''server_cfg'' ''enable_tcp_mode'' True"
    by (simp add: GT_READ_CFG_BOOL_def cfg_get_def member_def demo_cfg_def)
  then have "listens retry_env demo_cfg iocp_init"
    by (simp add: listens_def retry_env_def demo_env_def res_env0_def sock_env0_def iocp_init_def res_init_def
        socket_pool_init_def INVALID_SOCKET_def)
  then have "port_call retry_env demo_cfg iocp_init = 4" by (simp add: port_call_def call_no_def iocp_init_def)
  then obtain s1 where 1: "iocp_Initialize retry_env demo_cfg iocp_init = Inr (False, s1)"
      "length (workpool (iocp_pool s1)) = 2" "4 < call_no s1"
    using go [OF init_inv_init] by (auto simp: iocp_init_def pool_init_def)
  have r1: "iocp_reachable retry_env demo_cfg s1"
    by (rule iocp_reachable.step [OF iocp_reachable.start iocp_step.init [OF 1(1)]])
  have "init_inv s1" "\<not> is_inited s1" "port_call retry_env demo_cfg s1 \<noteq> 4"
    using iocp_reachable_inv [OF r1] failed_start_inited [OF 1(1)] 1(3) by (auto simp: port_call_def)
  then obtain s2 where s2: "iocp_Initialize retry_env demo_cfg s1 = Inr (True, s2)"
      "length (workpool (iocp_pool s2)) = 4" "thread_pool_started s2" "accept_key s2 \<noteq> None"
    using go [of s1] 1(2) by auto
  have "iocp_reachable retry_env demo_cfg s2" by (rule iocp_reachable.step [OF r1 iocp_step.init [OF s2(1)]])
  then show ?thesis using s2(2-4) two by auto
qed

text \<open>C3: Stopping a running server returns, however the threads are scheduled. From any reachable state with an
  accept key and no more workers than exit packets are posted, with each worker anywhere in its loop: no step of
  the stopping thread or of a worker is undefined, no more than 11 steps per worker (and one) are taken besides
  idle turns of the loop, as long as Stop has not returned some thread can take such a step, and every run can be
  continued until it has returned.\<close>

theorem shutdown_returns:
  assumes "iocp_reachable env cfg s" and "accept_key s = Some ak" and "thread_pool_started s"
    and "length (workpool (iocp_pool s)) \<le> n_threads env"
    and "\<And>a. w a \<noteq> Gone \<Longrightarrow> a \<in> set (workpool (iocp_pool s))"
    and "shut_run env cfg (stop_init env s w) n x"
  shows "thread_step env cfg act x \<noteq> Some (Inl e) \<and> n \<le> 11 * n_threads env + 1 \<and>
     (\<not> stopped x \<longrightarrow> (\<exists>act y. \<not> idle act x \<and> thread_step env cfg act x = Some (Inr y))) \<and>
     (\<exists>m y. shut_run env cfg x m y \<and> stopped y)"
proof -
  let ?V = "set (workpool (iocp_pool s))"
  note I = stop_init_inv [OF iocp_reachable_inv [OF assms(1)] assms(2,3,5)]
  have en: "enough (stop_init env s w)" by (rule stop_init_enough [OF I(1) assms(4)])
  have x: "stop_inv x" "set (unjoined x) \<subseteq> ?V" "n + work ?V x \<le> work ?V (stop_init env s w)" "enough x"
    using shut_run_inv [OF assms(6) I(1), of ?V] I(3) en by auto
  have "distinct (workpool (iocp_pool s))"
    using iocp_reachable_inv [OF assms(1)] by (simp add: init_inv_def pool_inv_def)
  then have "n \<le> 11 * n_threads env + 1" using work_init [OF _ assms(4), of w] x(3) by simp
  moreover have "thread_step env cfg act x \<noteq> Some (Inl e)" using thread_step_inv [OF x(1)] by fastforce
  ultimately show ?thesis
    using progress [OF x(1,4)] can_finish [OF x(1,4) _ x(2)] by blast
qed

theorem shutdown_returns_witness:
  "\<exists>s m y. iocp_reachable demo_env demo_cfg s \<and> accept_key s \<noteq> None \<and>
     shut_run demo_env demo_cfg (stop_init demo_env s (all_waiting s)) m y \<and> stopped y"
proof -
  obtain s ak where s: "iocp_reachable demo_env demo_cfg s" "accept_key s = Some ak" "thread_pool_started s"
      "length (workpool (iocp_pool s)) \<le> n_threads demo_env"
    using demo_two_workers by blast
  from shutdown_returns [OF s all_waiting_pool shut_run.start] s(1,2) show ?thesis by blast
qed

text \<open>C4: When Stop returns, the state is the one StopService computes on its own, but for the flag the workers
  cleared and the packets they took, with the threads that have ended in the run as those that end: every worker has
  been joined once and its entry deleted, in the order of the pool, whatever the interleaving was.\<close>

theorem shutdown_agrees:
  assumes "iocp_reachable env cfg s" and "accept_key s = Some ak" and "thread_pool_started s"
    and "\<And>a. w a \<noteq> Gone \<Longrightarrow> a \<in> set (workpool (iocp_pool s))"
    and "shut_run env cfg (stop_init env s w) n x" and "stopped x"
  shows "\<exists>s'. StopService (env\<lparr>ie_thread_ends := (\<lambda>a. sd_worker x a = Gone)\<rparr>) cfg s = Inr (True, s') \<and>
     (if resource_worker_started (sd_iocp x) then on_res res_Finalize (sd_iocp x) else sd_iocp x) =
       s'\<lparr>need_wait := need_wait (sd_iocp x), inflight := inflight (sd_iocp x)\<rparr> \<and>
     Stop (\<lambda>a. sd_worker x a = Gone) (iocp_pool s) = Inr (workpool (iocp_pool s), iocp_pool (sd_iocp x)) \<and>
     (\<forall>a. sd_worker x a = Gone)"
proof -
  note i = iocp_reachable_inv [OF assms(1)]
  note I = stop_init_inv [OF i assms(2-4)] and p = stopped_pool [OF i assms(2-6)]
  have x: "stop_inv x" "stop_ref env cfg s x" using shut_run_inv [OF assms(5) I(1)] I(2) by blast+
  have u: "turns_left x = 0" using assms(6) by (simp add: stopped_def turns_left_def)
  obtain t where t: "PostExitEvent env cfg s = Inr t" "core_of t = core_of (sd_iocp x)"
    using x(2) by (cases "PostExitEvent env cfg s") (auto simp: stop_ref_def u)
  have "core_inv s" using i by (simp add: init_inv_def)
  from exit_loop_ok [OF this assms(2), of env cfg "n_threads env"] have "iocp_pool t = iocp_pool s"
    using t(1) by (auto simp: PostExitEvent_def)
  moreover have "t = (core_of (sd_iocp x))\<lparr>need_wait := need_wait t, inflight := inflight t, iocp_pool := iocp_pool t\<rparr>"
    by (simp add: t(2) [symmetric]) (simp add: core_of_def)
  ultimately obtain nw q where t': "t = (sd_iocp x)\<lparr>need_wait := nw, inflight := q, iocp_pool := iocp_pool s\<rparr>"
    by (simp add: core_of_def)
  moreover have "thread_pool_started (sd_iocp x)" using x(1) by (simp add: stop_inv_def)
  ultimately have "StopService (env\<lparr>ie_thread_ends := (\<lambda>_. True)\<rparr>) cfg s = Inr (True,
      if resource_worker_started (sd_iocp x) then on_res res_Finalize ((sd_iocp x)\<lparr>need_wait := nw, inflight := q\<rparr>)
      else (sd_iocp x)\<lparr>need_wait := nw, inflight := q\<rparr>)"
    using t(1) p(1) by (simp add: StopService_def t')
  then show ?thesis using p by (simp add: on_res_def)
qed

theorem shutdown_agrees_witness:
  "\<exists>s y s'. StopService (demo_env\<lparr>ie_thread_ends := (\<lambda>a. sd_worker y a = Gone)\<rparr>) demo_cfg s = Inr (True, s') \<and>
     Stop (\<lambda>a. sd_worker y a = Gone) (iocp_pool s) = Inr (workpool (iocp_pool s), iocp_pool (sd_iocp y)) \<and> stopped y"
proof -
  obtain s ak where s: "iocp_reachable demo_env demo_cfg s" "accept_key s = Some ak" "thread_pool_started s"
      "length (workpool (iocp_pool s)) \<le> n_threads demo_env"
    using demo_two_workers by blast
  note I = stop_init_inv [where w = "all_waiting s", OF iocp_reachable_inv [OF s(1)] s(2,3) all_waiting_pool]
  obtain n y where "shut_run demo_env demo_cfg (stop_init demo_env s (all_waiting s)) n y" "stopped y"
    using can_finish [OF I(1) stop_init_enough [OF I(1) s(4)] finite_set] I(3) by blast
  then show ?thesis using shutdown_agrees [OF s(1-3) all_waiting_pool] by blast
qed

text \<open>C12: A worker that waits for a completion ends only after one comes. When all workers of the pool wait and
  there are more of them than exit packets are posted and operations of clients end meanwhile, Stop has not
  returned, however the threads are scheduled and whatever those operations are. This is where a second start after
  a failed one leads, which adds its own workers to the pool: without clients, or with too few of them, stopping
  the server waits for ever.\<close>

theorem extra_workers_hang:
  assumes "iocp_reachable env cfg s" and "accept_key s = Some ak" and "thread_pool_started s"
    and "n_threads env + m < length (workpool (iocp_pool s))"
    and "busy_run env cfg (stop_init env s (all_waiting s)) m x"
  shows "\<not> stopped x"
proof
  assume st: "stopped x"
  let ?V = "set (workpool (iocp_pool s))"
  let ?x = "stop_init env s (all_waiting s)"
  note I = stop_init_inv(1,3) [where w = "all_waiting s", OF iocp_reachable_inv [OF assms(1)] assms(2,3) all_waiting_pool]
  have "?V - blocked ?x = {}" by (auto simp: stop_init_def blocked_def all_waiting_def)
  then have "short ?V (n_threads env) ?x"
    by (simp add: short_def packets_left_def turns_left_def) (simp add: stop_init_def)
  from busy_run_short [OF assms(5) stop_join_inv [OF I(1)] _ _ this] I(2)
  have x: "join_inv x" "short ?V (n_threads env + m) x" by simp_all
  have "blocked x = {}"
    using x(1) st by (auto simp: join_inv_def unjoined_def stopped_def blocked_def)
  then have "card ?V \<le> n_threads env + m" using x(2) by (simp add: short_def)
  moreover have "distinct (workpool (iocp_pool s))"
    using iocp_reachable_inv [OF assms(1)] by (simp add: init_inv_def pool_inv_def)
  ultimately show False using assms(4) distinct_card by fastforce
qed

theorem extra_workers_hang_witness:
  "\<exists>s. iocp_reachable retry_env demo_cfg s \<and> n_threads retry_env = 2 \<and> length (workpool (iocp_pool s)) = 4 \<and>
     (\<forall>m x. m < 2 \<longrightarrow> busy_run retry_env demo_cfg (stop_init retry_env s (all_waiting s)) m x \<longrightarrow> \<not> stopped x)"
proof -
  obtain s ak where s: "iocp_reachable retry_env demo_cfg s" "accept_key s = Some ak" "thread_pool_started s"
      "n_threads retry_env = 2" "length (workpool (iocp_pool s)) = 4"
    using demo_four_workers by blast
  have "\<not> stopped x" if "m < 2" "busy_run retry_env demo_cfg (stop_init retry_env s (all_waiting s)) m x" for m x
    using extra_workers_hang [OF s(1-3) _ that(2)] that(1) s(4,5) by simp
  then show ?thesis using s(1,4,5) by blast
qed

end
