(* ===== verification/Select_Buffers.thy ===== *)
theory Select_Buffers
  imports GT_Interfaces GT_Config
begin

text \<open>
  \<open>GT_Select_Resource_Manager\<close>, the pool of receive buffers of the select back end. A buffer is
  taken from the cache for one read and destroyed afterwards; an empty cache is filled again. The
  objects live in the heap \<open>sel_bufs\<close>, where a destroyed one is \<open>None\<close>; \<open>sel_begin\<close> chooses the
  element \<open>begin()\<close> denotes, and \<open>sel_byte\<close> what a fresh block contains.
\<close>

section \<open>State\<close>

record select_buffer =
  sb_buffer_len :: cint
  sb_data :: "byte list"

record select_buf_env =
  sel_begin :: "nat \<Rightarrow> nat"
  sel_byte :: "addr \<Rightarrow> nat \<Rightarrow> byte"

record select_mgr =
  sel_cache :: "addr list"
  sel_inuse :: "addr list"
  sel_bufs :: "addr \<Rightarrow> select_buffer option"
  next_sel :: addr
  sel_calls :: nat

definition select_mgr_init :: select_mgr where
  "select_mgr_init = \<lparr>sel_cache = [], sel_inuse = [], sel_bufs = (\<lambda>_. None), next_sel = 1, sel_calls = 0\<rparr>"

section \<open>Operations\<close>

text \<open>\<open>new select_buffer(buffer_size)\<close>; a negative length makes \<open>new char[]\<close> throw.\<close>

definition new_select_buffer :: "select_buf_env \<Rightarrow> cint \<Rightarrow> select_mgr \<Rightarrow> (addr \<times> select_mgr) result" where
  "new_select_buffer env buffer_size m =
     (if sint buffer_size < 0 then Inl BadAlloc
      else
        (let a = next_sel m;
             b = \<lparr>sb_buffer_len = buffer_size,
                  sb_data = map (sel_byte env a) [0..<nat (sint buffer_size)]\<rparr>
         in Inr (a, m\<lparr>sel_bufs := (sel_bufs m)(a \<mapsto> b), next_sel := Suc a\<rparr>)))"

fun allocat_loop :: "select_buf_env \<Rightarrow> cint \<Rightarrow> nat \<Rightarrow> select_mgr \<Rightarrow> select_mgr result" where
  "allocat_loop env buffer_size 0 m = Inr m"
| "allocat_loop env buffer_size (Suc n) m =
     bindR (new_select_buffer env buffer_size m) (\<lambda>(a, m1).
       allocat_loop env buffer_size n (m1\<lparr>sel_cache := us_insert a (sel_cache m1)\<rparr>))"

definition AllocatCache :: "select_buf_env \<Rightarrow> Json \<Rightarrow> select_mgr \<Rightarrow> select_mgr result" where
  "AllocatCache env cfg m =
     (let allocat_size = GT_READ_CFG_INT cfg ''select_control'' ''buffer_cache_size'' 100;
          buffer_size = GT_READ_CFG_INT cfg ''select_control'' ''buffer_size'' 2048
      in allocat_loop env buffer_size (nat (sint allocat_size)) m)"

definition GetSelectBuffer :: "select_buf_env \<Rightarrow> Json \<Rightarrow> select_mgr \<Rightarrow> (addr \<times> select_mgr) result" where
  "GetSelectBuffer env cfg m =
     bindR (if sel_cache m = [] then AllocatCache env cfg m else Inr m) (\<lambda>m1.
       if sel_cache m1 = [] then Inl EndDeref
       else
         (let bu = us_begin (sel_begin env (sel_calls m1)) (sel_cache m1)
          in Inr (bu, m1\<lparr>sel_inuse := us_insert bu (sel_inuse m1),
                         sel_cache := us_erase bu (sel_cache m1),
                         sel_calls := Suc (sel_calls m1)\<rparr>)))"

text \<open>A buffer that is not in use ends in \<open>erase(end())\<close>.\<close>

definition ReleaseSelectBuffer :: "addr \<Rightarrow> select_mgr \<Rightarrow> select_mgr result" where
  "ReleaseSelectBuffer bu m =
     (if bu \<in> set (sel_inuse m) then
        (case sel_bufs m bu of
           None \<Rightarrow> Inl UseAfterFree
         | Some _ \<Rightarrow> Inr (m\<lparr>sel_bufs := (sel_bufs m)(bu := None),
                              sel_inuse := us_erase bu (sel_inuse m)\<rparr>))
      else Inl EndDeref)"

definition select_CleanCache :: "select_mgr \<Rightarrow> select_mgr" where
  "select_CleanCache m =
     m\<lparr>sel_bufs := (\<lambda>a. if a \<in> set (sel_cache m) \<union> set (sel_inuse m) then None else sel_bufs m a),
       sel_cache := [], sel_inuse := []\<rparr>"

section \<open>Invariant\<close>

text \<open>
  The cache and the buffers in use are disjoint sets of existing buffers, each with a block of its
  recorded length; no other buffer exists.
\<close>

definition sel_buf_inv :: "select_mgr \<Rightarrow> bool" where
  "sel_buf_inv m =
     (distinct (sel_cache m) \<and> distinct (sel_inuse m) \<and> set (sel_cache m) \<inter> set (sel_inuse m) = {} \<and>
      (\<forall>a. sel_bufs m a \<noteq> None \<longleftrightarrow> a \<in> set (sel_cache m) \<union> set (sel_inuse m)) \<and>
      (\<forall>a b. sel_bufs m a = Some b \<longrightarrow>
         a < next_sel m \<and> 0 \<le> sint (sb_buffer_len b) \<and> length (sb_data b) = nat (sint (sb_buffer_len b))))"

lemma sel_buf_inv_init: "sel_buf_inv select_mgr_init"
  by (simp add: sel_buf_inv_def select_mgr_init_def)

lemma sel_buf_inv_fresh: "sel_buf_inv m \<Longrightarrow> next_sel m \<notin> set (sel_cache m) \<union> set (sel_inuse m)"
  unfolding sel_buf_inv_def by (metis less_irrefl not_None_eq)

lemma allocat_one:
  assumes "sel_buf_inv m" and "new_select_buffer env z m = Inr (a, m1)"
  shows "sel_buf_inv (m1\<lparr>sel_cache := us_insert a (sel_cache m1)\<rparr>)" and "sel_inuse m1 = sel_inuse m"
proof -
  have a: "0 \<le> sint z" "a = next_sel m" "sel_cache m1 = sel_cache m" "sel_inuse m1 = sel_inuse m"
      "next_sel m1 = Suc (next_sel m)"
      "sel_bufs m1 = (sel_bufs m)(next_sel m \<mapsto>
         \<lparr>sb_buffer_len = z, sb_data = map (sel_byte env (next_sel m)) [0..<nat (sint z)]\<rparr>)"
    using assms(2) by (auto simp: new_select_buffer_def Let_def split: if_splits)
  have i: "distinct (sel_cache m)" "distinct (sel_inuse m)" "set (sel_cache m) \<inter> set (sel_inuse m) = {}"
      "\<And>x. sel_bufs m x \<noteq> None \<longleftrightarrow> x \<in> set (sel_cache m) \<union> set (sel_inuse m)"
      "\<And>x b. sel_bufs m x = Some b \<Longrightarrow> x < next_sel m \<and> 0 \<le> sint (sb_buffer_len b) \<and>
         length (sb_data b) = nat (sint (sb_buffer_len b))"
    using assms(1) unfolding sel_buf_inv_def by blast+
  have f: "next_sel m \<notin> set (sel_cache m) \<union> set (sel_inuse m)" by (rule sel_buf_inv_fresh [OF assms(1)])
  show "sel_buf_inv (m1\<lparr>sel_cache := us_insert a (sel_cache m1)\<rparr>)"
    unfolding sel_buf_inv_def using a i f by (auto dest: i(5) intro: less_SucI)
  show "sel_inuse m1 = sel_inuse m" by (rule a)
qed

lemma allocat_loop_ok:
  assumes "0 \<le> sint z" and "sel_buf_inv m"
  shows "\<exists>m'. allocat_loop env z n m = Inr m' \<and> sel_buf_inv m' \<and> sel_inuse m' = sel_inuse m \<and>
     length (sel_cache m') = length (sel_cache m) + n"
  using assms(2)
proof (induction n arbitrary: m)
  case (Suc n)
  obtain a m1 where 1: "new_select_buffer env z m = Inr (a, m1)"
    using assms(1) by (auto simp: new_select_buffer_def Let_def)
  note s = allocat_one [OF Suc.prems 1]
  have "a = next_sel m" "sel_cache m1 = sel_cache m"
    using 1 assms(1) by (auto simp: new_select_buffer_def Let_def)
  then have "length (us_insert a (sel_cache m1)) = Suc (length (sel_cache m))"
    using sel_buf_inv_fresh [OF Suc.prems] by (auto simp: length_us_insert)
  then show ?case using Suc.IH [OF s(1)] s(2) 1 by auto
qed simp

text \<open>All buffers have the configured size.\<close>

definition sel_sized :: "Json \<Rightarrow> select_mgr \<Rightarrow> bool" where
  "sel_sized cfg m =
     (\<forall>a b. sel_bufs m a = Some b \<longrightarrow>
        sb_buffer_len b = GT_READ_CFG_INT cfg ''select_control'' ''buffer_size'' 2048)"

lemma allocat_loop_sized:
  "allocat_loop env (GT_READ_CFG_INT cfg ''select_control'' ''buffer_size'' 2048) n m = Inr m' \<Longrightarrow>
   sel_sized cfg m \<Longrightarrow> sel_sized cfg m'"
proof (induction n arbitrary: m)
  case (Suc n)
  let ?z = "GT_READ_CFG_INT cfg ''select_control'' ''buffer_size'' 2048"
  obtain a m1 where 1: "new_select_buffer env ?z m = Inr (a, m1)"
      "allocat_loop env ?z n (m1\<lparr>sel_cache := us_insert a (sel_cache m1)\<rparr>) = Inr m'"
    using Suc.prems(1) by (auto simp: bindR_eq_Inr)
  have "sel_sized cfg (m1\<lparr>sel_cache := us_insert a (sel_cache m1)\<rparr>)"
    using 1(1) Suc.prems(2) by (auto simp: new_select_buffer_def sel_sized_def Let_def split: if_splits)
  then show ?case using Suc.IH 1(2) by blast
qed simp

lemma GetSelectBuffer_sized:
  assumes "GetSelectBuffer env cfg m = Inr (bu, m')" and "sel_sized cfg m"
  shows "sel_sized cfg m'"
proof -
  obtain m1 where 1: "(if sel_cache m = [] then AllocatCache env cfg m else Inr m) = Inr m1"
      "sel_bufs m' = sel_bufs m1"
    using assms(1) by (auto simp: GetSelectBuffer_def Let_def bindR_eq_Inr split: if_splits)
  have "sel_sized cfg m1"
    using 1(1) assms(2) allocat_loop_sized by (auto simp: AllocatCache_def Let_def split: if_splits)
  then show ?thesis using 1(2) by (simp add: sel_sized_def)
qed

text \<open>The settings under which a request is always answered.\<close>

definition select_sizes_ok :: "Json \<Rightarrow> bool" where
  "select_sizes_ok cfg =
     (0 < sint (GT_READ_CFG_INT cfg ''select_control'' ''buffer_cache_size'' 100) \<and>
      0 \<le> sint (GT_READ_CFG_INT cfg ''select_control'' ''buffer_size'' 2048))"

lemma AllocatCache_ok:
  assumes "select_sizes_ok cfg" and "sel_buf_inv m"
  shows "\<exists>m'. AllocatCache env cfg m = Inr m' \<and> sel_buf_inv m' \<and> sel_inuse m' = sel_inuse m \<and> sel_cache m' \<noteq> []"
proof -
  let ?n = "nat (sint (GT_READ_CFG_INT cfg ''select_control'' ''buffer_cache_size'' 100))"
  have "0 < ?n" using assms(1) by (simp add: select_sizes_ok_def)
  then show ?thesis
    using allocat_loop_ok [OF _ assms(2), of "GT_READ_CFG_INT cfg ''select_control'' ''buffer_size'' 2048" env ?n]
      assms(1) by (fastforce simp: AllocatCache_def select_sizes_ok_def)
qed

lemma take_select_buffer:
  assumes "sel_buf_inv m" and "bu \<in> set (sel_cache m)"
  shows "sel_buf_inv (m\<lparr>sel_inuse := us_insert bu (sel_inuse m), sel_cache := us_erase bu (sel_cache m),
    sel_calls := k\<rparr>)"
  using assms unfolding sel_buf_inv_def by auto

lemma GetSelectBuffer_ok:
  assumes "select_sizes_ok cfg" and "sel_buf_inv m"
  shows "\<exists>bu m'. GetSelectBuffer env cfg m = Inr (bu, m') \<and> sel_buf_inv m' \<and>
     bu \<notin> set (sel_inuse m) \<and> bu \<notin> set (sel_cache m') \<and> set (sel_inuse m') = insert bu (set (sel_inuse m)) \<and>
     sel_bufs m' bu \<noteq> None"
proof -
  obtain m1 where 1: "(if sel_cache m = [] then AllocatCache env cfg m else Inr m) = Inr m1"
      "sel_buf_inv m1" "sel_inuse m1 = sel_inuse m" "sel_cache m1 \<noteq> []"
    using AllocatCache_ok [OF assms, of env] assms(2) by (cases "sel_cache m = []") auto
  let ?bu = "us_begin (sel_begin env (sel_calls m1)) (sel_cache m1)"
  have bu: "?bu \<in> set (sel_cache m1)" using 1(4) by (simp add: us_begin_def)
  then have "?bu \<notin> set (sel_inuse m)" "sel_bufs m1 ?bu \<noteq> None"
    using 1(2,3) unfolding sel_buf_inv_def by auto
  then show ?thesis
    using 1 take_select_buffer [OF 1(2) bu] by (simp add: GetSelectBuffer_def Let_def)
qed

lemma ReleaseSelectBuffer_ok:
  assumes "sel_buf_inv m" and "bu \<in> set (sel_inuse m)"
  shows "\<exists>m'. ReleaseSelectBuffer bu m = Inr m' \<and> sel_buf_inv m' \<and> set (sel_inuse m') = set (sel_inuse m) - {bu} \<and>
     sel_cache m' = sel_cache m \<and> sel_bufs m' bu = None"
proof -
  obtain b where "sel_bufs m bu = Some b" using assms unfolding sel_buf_inv_def by blast
  moreover have "sel_buf_inv (m\<lparr>sel_bufs := (sel_bufs m)(bu := None), sel_inuse := us_erase bu (sel_inuse m)\<rparr>)"
    using assms unfolding sel_buf_inv_def by (auto split: if_splits)
  ultimately show ?thesis using assms(2) by (simp add: ReleaseSelectBuffer_def)
qed

section \<open>The pool contract\<close>

text \<open>
  As an exclusive pool: \<open>None\<close> stands for a request or a release whose behaviour is not defined,
  which the invariant excludes.
\<close>

definition acquire_buffer :: "select_buf_env \<Rightarrow> Json \<Rightarrow> select_mgr \<Rightarrow> addr option \<times> select_mgr" where
  "acquire_buffer env cfg m =
     (case GetSelectBuffer env cfg m of Inl _ \<Rightarrow> (None, m) | Inr (bu, m') \<Rightarrow> (Some bu, m'))"

definition release_buffer :: "addr option \<Rightarrow> select_mgr \<Rightarrow> select_mgr" where
  "release_buffer p m =
     (case p of None \<Rightarrow> m
      | Some bu \<Rightarrow> (case ReleaseSelectBuffer bu m of Inl _ \<Rightarrow> m | Inr m' \<Rightarrow> m'))"

interpretation sbp: exclusive_pool "acquire_buffer env cfg"
    "\<lambda>m. Some ` set (sel_cache m)" "\<lambda>m. Some ` set (sel_inuse m)"
    "\<lambda>m. select_sizes_ok cfg \<and> sel_buf_inv m" release_buffer
  for env cfg
proof unfold_locales
  fix m r m'
  assume a: "select_sizes_ok cfg \<and> sel_buf_inv m" "acquire_buffer env cfg m = (r, m')"
  then obtain bu where r: "r = Some bu" "GetSelectBuffer env cfg m = Inr (bu, m')"
    using GetSelectBuffer_ok [of cfg m env] by (auto simp: acquire_buffer_def)
  with GetSelectBuffer_ok [of cfg m env] a(1)
  show "select_sizes_ok cfg \<and> sel_buf_inv m'" and "r \<notin> Some ` set (sel_cache m')"
    and "Some ` set (sel_inuse m') = insert r (Some ` set (sel_inuse m))"
    and "r \<notin> Some ` set (sel_inuse m)"
    by auto
next
  fix m r
  assume a: "select_sizes_ok cfg \<and> sel_buf_inv m"
  have "sel_buf_inv (release_buffer r m) \<and> Some ` set (sel_inuse (release_buffer r m)) =
      Some ` set (sel_inuse m) - {r}"
  proof (cases "\<exists>bu \<in> set (sel_inuse m). r = Some bu")
    case True
    then show ?thesis using a ReleaseSelectBuffer_ok [of m] by (fastforce simp: release_buffer_def)
  next
    case False
    then have "release_buffer r m = m"
      by (auto simp: release_buffer_def ReleaseSelectBuffer_def split: option.splits)
    then show ?thesis using a False by auto
  qed
  then show "select_sizes_ok cfg \<and> sel_buf_inv (release_buffer r m)"
    and "Some ` set (sel_inuse (release_buffer r m)) = Some ` set (sel_inuse m) - {r}" using a by auto
qed

end
