(* ===== verification/Select_Core.thy ===== *)
theory Select_Core
  imports Select_Buffers GT_Definition
begin

text \<open>
  \<open>GT_Select_Core\<close>, the select back end: three socket sets in blocks of their own, the vector of
  connected sockets they are rebuilt from, and the service loop. A block lives in the heap
  \<open>fd_blocks\<close> and is \<open>None\<close> there when it was deleted; a null member of \<open>socketset\<close> is \<open>None\<close>.
  The operating system answers through \<open>select_env\<close>, the calls that have an answer indexed by
  the length of the log; \<open>sel_junk\<close> is what a fresh block contains.
\<close>

section \<open>State\<close>

datatype internal_call_back = SelectCallBack

datatype sel_call =
    SAccept SOCKET
  | SRecv SOCKET cint "16 word"        \<comment> \<open>the result and the port of the peer\<close>
  | SClose SOCKET
  | SConnect SOCKET "16 word"          \<comment> \<open>to a port of the loopback address\<close>
  | SWSACleanup
  | SDeliver EVENT_TYPE SOCKET "byte list"     \<comment> \<open>the registered function is called with the data\<close>

text \<open>The block of a set: its count and the sockets the allocation has room for.\<close>

record fd_set_pri =
  sock_count :: dword
  fd_sock_array :: "SOCKET list"

record select_env =
  sel_buf_env :: select_buf_env
  sel_alloc :: "size_t \<Rightarrow> bool"             \<comment> \<open>whether \<open>new\<close> can provide that many bytes\<close>
  sel_junk :: "addr \<Rightarrow> nat \<Rightarrow> SOCKET"
  sel_WSAStartup :: cint
  sel_version :: "byte \<times> byte"
  sel_socket :: SOCKET
  sel_bind :: "16 word \<Rightarrow> cint"      \<comment> \<open>by the port, in network order\<close>
  sel_listen :: cint
  sel_udp_socket :: SOCKET
  sel_udp_port :: "16 word"
  sel_accept :: "nat \<Rightarrow> SOCKET"
  sel_recv :: "nat \<Rightarrow> cint \<times> byte list"
  sel_peer :: "nat \<Rightarrow> 16 word"

record select_core =
  socketset :: "EVENT_TYPE \<Rightarrow> addr option"
  fd_blocks :: "addr \<Rightarrow> fd_set_pri option"
  next_block_no :: addr
  socket_set_total_size :: "EVENT_TYPE \<Rightarrow> cint"
  closed_client_need_clean :: "EVENT_TYPE \<Rightarrow> SOCKET list"
  client_socket_vec :: "EVENT_TYPE \<Rightarrow> SOCKET list"
  select_cb_func :: "internal_call_back option"
  sel_listen_socket :: SOCKET
  end_thread :: bool
  service_started :: bool
  service_inited :: bool
  udp_port :: int
  sel_res :: select_mgr
  sel_log :: "sel_call list"

definition select_core_init :: select_core where
  "select_core_init = \<lparr>socketset = (\<lambda>_. None), fd_blocks = (\<lambda>_. None), next_block_no = 1,
     socket_set_total_size = (\<lambda>_. 0), closed_client_need_clean = (\<lambda>_. []),
     client_socket_vec = (\<lambda>_. []), select_cb_func = None, sel_listen_socket = 0,
     end_thread = False, service_started = False, service_inited = False, udp_port = -1,
     sel_res = select_mgr_init, sel_log = []\<rparr>"

definition sel_os :: "sel_call \<Rightarrow> select_core \<Rightarrow> select_core" where
  "sel_os c s = s\<lparr>sel_log := sel_log s @ [c]\<rparr>"

section \<open>Socket sets\<close>

text \<open>
  \<open>sizeof(fd_set_pri) + sizeof(SOCKET) * (grow_size - 1)\<close>: 16 bytes for the count and the first
  socket, 8 for each further one, in \<open>size_t\<close>.
\<close>

definition fd_bytes :: "cint \<Rightarrow> size_t" where
  "fd_bytes grow_size = 16 + 8 * int_to_size (grow_size - 1)"

text \<open>
  A new block with its count set to \<open>n\<close>. Without a byte in the block the store of the count is out of bounds.
\<close>

definition new_fd_set :: "select_env \<Rightarrow> cint \<Rightarrow> dword \<Rightarrow> select_core \<Rightarrow> (addr \<times> select_core) result" where
  "new_fd_set env grow_size n s =
     (if sint grow_size = - (2 ^ 31) then Inl SignedOverflow
      else if \<not> sel_alloc env (fd_bytes grow_size) then Inl BadAlloc
      else if fd_bytes grow_size = 0 then Inl OutOfBounds
      else
        (let a = next_block_no s;
             f = \<lparr>sock_count = n,
                  fd_sock_array = map (sel_junk env a) [0..<(unat (fd_bytes grow_size) - 8) div 8]\<rparr>
         in Inr (a, s\<lparr>fd_blocks := (fd_blocks s)(a \<mapsto> f), next_block_no := Suc a\<rparr>)))"

text \<open>The set of a type, by its block.\<close>

definition fd_of :: "EVENT_TYPE \<Rightarrow> select_core \<Rightarrow> (addr \<times> fd_set_pri) result" where
  "fd_of type s =
     (case socketset s type of
        None \<Rightarrow> Inl NullDeref
      | Some a \<Rightarrow> (case fd_blocks s a of None \<Rightarrow> Inl UseAfterFree | Some f \<Rightarrow> Inr (a, f)))"

definition delete_block :: "addr \<Rightarrow> select_core \<Rightarrow> select_core result" where
  "delete_block a s =
     (case fd_blocks s a of
        None \<Rightarrow> Inl UseAfterFree
      | Some _ \<Rightarrow> Inr (s\<lparr>fd_blocks := (fd_blocks s)(a := None)\<rparr>))"

text \<open>Deleting a null pointer does nothing.\<close>

definition delete_set :: "EVENT_TYPE \<Rightarrow> select_core \<Rightarrow> select_core result" where
  "delete_set type s = (case socketset s type of None \<Rightarrow> Inr s | Some a \<Rightarrow> delete_block a s)"

definition set_block :: "EVENT_TYPE \<Rightarrow> addr option \<Rightarrow> select_core \<Rightarrow> select_core" where
  "set_block type p s = s\<lparr>socketset := (socketset s)(type := p)\<rparr>"

definition set_total :: "EVENT_TYPE \<Rightarrow> cint \<Rightarrow> select_core \<Rightarrow> select_core" where
  "set_total type n s = s\<lparr>socket_set_total_size := (socket_set_total_size s)(type := n)\<rparr>"

text \<open>In the second branch \<open>grow_size += sock_count\<close> is computed as \<open>unsigned\<close>.\<close>

definition GrowSet :: "select_env \<Rightarrow> EVENT_TYPE \<Rightarrow> cint \<Rightarrow> select_core \<Rightarrow> select_core result" where
  "GrowSet env type grow_size s =
     (case socketset s type of
        None \<Rightarrow>
          bindR (new_fd_set env grow_size 0 s) (\<lambda>(a, s1).
            Inr (set_total type grow_size (set_block type (Some a) s1)))
      | Some _ \<Rightarrow>
          bindR (fd_of type s) (\<lambda>(old, f).
            let n = sock_count f; grow = grow_size + n
            in bindR (new_fd_set env grow n s) (\<lambda>(a, s1).
                 case fd_blocks s1 a of
                   None \<Rightarrow> Inl UseAfterFree
                 | Some g \<Rightarrow>
                     if length (fd_sock_array f) < unat n \<or> length (fd_sock_array g) < unat n
                     then Inl OutOfBounds
                     else
                       (let g' = g\<lparr>fd_sock_array := take (unat n) (fd_sock_array f) @ drop (unat n) (fd_sock_array g)\<rparr>;
                            s2 = set_total type grow (s1\<lparr>fd_blocks := (fd_blocks s1)(a \<mapsto> g')\<rparr>)
                        in bindR (delete_block old s2) (\<lambda>s3. Inr (set_block type (Some a) s3))))))"

text \<open>\<open>socketset[type]->fd_sock_array[socketset[type]->sock_count++] = s\<close>.\<close>

definition push_fd :: "EVENT_TYPE \<Rightarrow> SOCKET \<Rightarrow> select_core \<Rightarrow> select_core result" where
  "push_fd type x s =
     bindR (fd_of type s) (\<lambda>(a, f).
       if unat (sock_count f) < length (fd_sock_array f) then
         Inr (s\<lparr>fd_blocks := (fd_blocks s)(a \<mapsto>
                \<lparr>sock_count = sock_count f + 1,
                 fd_sock_array = (fd_sock_array f)[unat (sock_count f) := x]\<rparr>)\<rparr>)
       else Inl OutOfBounds)"

definition AddEvent :: "EVENT_TYPE \<Rightarrow> SOCKET \<Rightarrow> select_core \<Rightarrow> select_core" where
  "AddEvent type x s =
     s\<lparr>client_socket_vec := (client_socket_vec s)(type := client_socket_vec s type @ [x])\<rparr>"

definition AddListenEvent :: "select_env \<Rightarrow> SOCKET \<Rightarrow> select_core \<Rightarrow> select_core result" where
  "AddListenEvent env x s =
     bindR (fd_of EVENT_READ s) (\<lambda>(_, f).
     bindR (if socket_set_total_size s EVENT_READ = sock_count f then GrowSet env EVENT_READ 100 s else Inr s) (\<lambda>s1.
     bindR (push_fd EVENT_READ x s1) (\<lambda>s2. Inr (AddEvent EVENT_READ x s2))))"

definition DelEvent :: "EVENT_TYPE \<Rightarrow> SOCKET \<Rightarrow> select_core \<Rightarrow> select_core" where
  "DelEvent type x s =
     s\<lparr>closed_client_need_clean :=
         (closed_client_need_clean s)(type := us_insert x (closed_client_need_clean s type))\<rparr>"

text \<open>The loop over the vector: what is closed leaves it, what is not goes into the new set.\<close>

fun refresh_loop :: "EVENT_TYPE \<Rightarrow> SOCKET list \<Rightarrow> SOCKET list \<Rightarrow> select_core \<Rightarrow> (SOCKET list \<times> select_core) result" where
  "refresh_loop type [] kept s = Inr (kept, s)"
| "refresh_loop type (x # xs) kept s =
     (if x \<in> set (closed_client_need_clean s type) then refresh_loop type xs kept (sel_os (SClose x) s)
      else bindR (push_fd type x s) (refresh_loop type xs (kept @ [x])))"

definition refresh_type :: "select_env \<Rightarrow> EVENT_TYPE \<Rightarrow> select_core \<Rightarrow> select_core result" where
  "refresh_type env type s =
     bindR (if client_socket_vec s type \<noteq> [] then
              bindR (delete_set type s) (\<lambda>s1.
                GrowSet env type (of_nat (length (client_socket_vec s type)) -
                                  of_nat (length (closed_client_need_clean s type))) (set_block type None s1))
            else Inr s) (\<lambda>s2.
     bindR (refresh_loop type (client_socket_vec s2 type) [] s2) (\<lambda>(kept, s3).
       Inr (s3\<lparr>client_socket_vec := (client_socket_vec s3)(type := kept),
               closed_client_need_clean := (closed_client_need_clean s3)(type := [])\<rparr>)))"

definition RefreshFDSet :: "select_env \<Rightarrow> select_core \<Rightarrow> select_core result" where
  "RefreshFDSet env s =
     bindR (refresh_type env EVENT_READ s) (\<lambda>s1.
     bindR (refresh_type env EVENT_WRITE s1) (\<lambda>s2. refresh_type env EVENT_EXCEPTION s2))"

section \<open>Events\<close>

text \<open>
  The guard of \<open>DispatchEvent_\<close> is \<open>!select_cb_func_\<close>: the pointer is called exactly when it is
  null.
\<close>

definition select_DispatchEvent :: "EVENT_TYPE \<Rightarrow> SOCKET \<Rightarrow> byte list \<Rightarrow> select_core \<Rightarrow> select_core result" where
  "select_DispatchEvent type x data s = (if select_cb_func s = None then Inl NullDeref else Inr s)"

definition RegisterCallback :: "internal_call_back \<Rightarrow> select_core \<Rightarrow> select_core" where
  "RegisterCallback cb s = s\<lparr>select_cb_func := Some cb\<rparr>"

definition UnRegisterCallback :: "select_core \<Rightarrow> select_core" where
  "UnRegisterCallback s = s\<lparr>select_cb_func := None\<rparr>"

text \<open>What \<open>accept\<close> returns is added without a test.\<close>

definition select_ProcessAcceptEvent :: "select_env \<Rightarrow> select_core \<Rightarrow> select_core" where
  "select_ProcessAcceptEvent env s =
     (let x = sel_accept env (length (sel_log s))
      in AddEvent EVENT_ACCEPT x (sel_os (SAccept x) s))"

definition ProcessExpEvent :: "SOCKET \<Rightarrow> select_core \<Rightarrow> select_core" where
  "ProcessExpEvent x s = s"

definition ProcessWriteEvent :: "SOCKET \<Rightarrow> select_core \<Rightarrow> select_core" where
  "ProcessWriteEvent x s = s"

text \<open>\<open>recv\<close> writes what it received to the front of the block.\<close>

definition recv_into :: "addr \<Rightarrow> byte list \<Rightarrow> select_mgr \<Rightarrow> select_mgr" where
  "recv_into bu data m =
     (case sel_bufs m bu of
        None \<Rightarrow> m
      | Some b \<Rightarrow>
          m\<lparr>sel_bufs := (sel_bufs m)(bu \<mapsto> b\<lparr>sb_data :=
               take (length (sb_data b)) (data @ drop (length data) (sb_data b))\<rparr>)\<rparr>)"

definition select_ProcessReadEvent :: "select_env \<Rightarrow> Json \<Rightarrow> SOCKET \<Rightarrow> select_core \<Rightarrow> select_core result" where
  "select_ProcessReadEvent env cfg x s =
     (if x = sel_listen_socket s then Inr (select_ProcessAcceptEvent env s)
      else
        bindR (GetSelectBuffer (sel_buf_env env) cfg (sel_res s)) (\<lambda>(bu, m).
          let (ret, data) = sel_recv env (length (sel_log s));
              port = sel_peer env (length (sel_log s));
              s1 = sel_os (SRecv x ret port) (s\<lparr>sel_res := recv_into bu data m\<rparr>)
          in bindR
               (if uint port = udp_port s1 then Inr s1
                else if ret = 0 \<or> ret = -1 then Inr (DelEvent EVENT_READ x s1)
                else
                  (case sel_bufs (sel_res s1) bu of
                     None \<Rightarrow> Inl UseAfterFree
                   | Some b \<Rightarrow>
                       if length (sb_data b) < unat (int_to_size ret) then Inl OutOfBounds
                       else select_DispatchEvent EVENT_READ x (take (nat (sint ret)) (sb_data b)) s1))
               (\<lambda>s2. bindR (ReleaseSelectBuffer bu (sel_res s2)) (\<lambda>m'. Inr (s2\<lparr>sel_res := m'\<rparr>)))))"

section \<open>The service loop\<close>

text \<open>
  What \<open>select\<close> answers: its result, and for each set the sockets that are ready and what it
  leaves behind them in the array.
\<close>

record select_answer =
  sa_ret :: cint
  sa_ready :: "EVENT_TYPE \<Rightarrow> SOCKET list"
  sa_rest :: "EVENT_TYPE \<Rightarrow> SOCKET list"

definition select_block :: "SOCKET list \<Rightarrow> SOCKET list \<Rightarrow> fd_set_pri \<Rightarrow> fd_set_pri" where
  "select_block ready rest f =
     \<lparr>sock_count = of_nat (length ready),
      fd_sock_array = take (length (fd_sock_array f))
        (ready @ rest @ drop (length ready + length rest) (fd_sock_array f))\<rparr>"

definition select_answer_set :: "select_answer \<Rightarrow> EVENT_TYPE \<Rightarrow> select_core \<Rightarrow> select_core result" where
  "select_answer_set ans type s =
     bindR (fd_of type s) (\<lambda>(a, f).
       Inr (s\<lparr>fd_blocks := (fd_blocks s)(a \<mapsto> select_block (sa_ready ans type) (sa_rest ans type) f)\<rparr>))"

text \<open>
  The loop \<open>for (auto& iter : set->fd_array)\<close> with its own index: it is left when the index is
  \<^emph>\<open>greater\<close> than the count, and runs over \<open>FD_SETSIZE\<close> elements at most, whatever the size of
  the block. \<open>FD_ISSET\<close> looks for the socket among the first \<open>fd_count\<close>.
\<close>

definition FD_SETSIZE :: nat where "FD_SETSIZE = 1048"

fun fd_loop :: "(SOCKET \<Rightarrow> 's \<Rightarrow> 's result) \<Rightarrow> fd_set_pri \<Rightarrow> nat \<Rightarrow> nat \<Rightarrow> 's \<Rightarrow> 's result" where
  "fd_loop proc f 0 index s = Inr s"
| "fd_loop proc f (Suc n) index s =
     (if unat (sock_count f) < index then Inr s
      else if length (fd_sock_array f) \<le> index then Inl OutOfBounds
      else
        (let x = fd_sock_array f ! index
         in bindR (if x \<in> set (take (unat (sock_count f)) (fd_sock_array f)) then proc x s else Inr s)
              (fd_loop proc f n (Suc index))))"

text \<open>One turn of the loop, with the conditional that computes \<open>fd_count\<close> as it is nested.\<close>

definition select_turn :: "select_env \<Rightarrow> Json \<Rightarrow> select_answer \<Rightarrow> select_core \<Rightarrow> select_core result" where
  "select_turn env cfg ans s =
     bindR (fd_of EVENT_READ s) (\<lambda>(_, fr). bindR (fd_of EVENT_WRITE s) (\<lambda>(_, fw).
     bindR (fd_of EVENT_EXCEPTION s) (\<lambda>(_, fe).
       let r = sock_count fr; w = sock_count fw; e = sock_count fe;
           fd_count = (if r > w then (if r > e then r else e) else w)
       in if fd_count = 0 then Inr (s\<lparr>end_thread := True\<rparr>)
          else
            bindR (select_answer_set ans EVENT_READ s) (\<lambda>s1.
            bindR (select_answer_set ans EVENT_WRITE s1) (\<lambda>s2.
            bindR (select_answer_set ans EVENT_EXCEPTION s2) (\<lambda>s3.
              if sa_ret ans = -1 \<or> sa_ret ans = 0 then Inr s3
              else
                bindR (fd_of EVENT_READ s3) (\<lambda>(_, gr).
                bindR (fd_loop (select_ProcessReadEvent env cfg) gr FD_SETSIZE 0 s3) (\<lambda>s4.
                bindR (fd_of EVENT_WRITE s4) (\<lambda>(_, gw).
                bindR (fd_loop (\<lambda>x s. Inr (ProcessWriteEvent x s)) gw FD_SETSIZE 0 s4) (\<lambda>s5.
                bindR (fd_of EVENT_EXCEPTION s5) (\<lambda>(_, ge).
                bindR (fd_loop (\<lambda>x s. Inr (ProcessExpEvent x s)) ge FD_SETSIZE 0 s5) (RefreshFDSet env))))))))))))"

text \<open>
  The thread: \<open>True\<close> when it has left the loop, \<open>False\<close> when it is still in it after the answers
  given.
\<close>

fun Select_service :: "select_env \<Rightarrow> Json \<Rightarrow> select_answer list \<Rightarrow> select_core \<Rightarrow> (bool \<times> select_core) result" where
  "Select_service env cfg [] s = Inr (end_thread s, s)"
| "Select_service env cfg (ans # rest) s =
     (if end_thread s then Inr (True, s)
      else bindR (select_turn env cfg ans s) (Select_service env cfg rest))"

section \<open>Start and stop\<close>

definition select_port :: "Json \<Rightarrow> 16 word" where
  "select_port cfg = htons (GT_READ_CFG_INT cfg ''server_cfg'' ''server_port'' 2020)"

definition select_setup :: "select_env \<Rightarrow> Json \<Rightarrow> select_core \<Rightarrow> select_core result" where
  "select_setup env cfg s =
     (if sel_WSAStartup env \<noteq> 0 then Inr (sel_os SWSACleanup s)
      else if fst (sel_version env) \<noteq> 2 \<or> snd (sel_version env) \<noteq> 2 then Inr s
      else
        (let s1 = s\<lparr>sel_listen_socket := sel_socket env\<rparr>
         in if sel_bind env (select_port cfg) \<noteq> 0 then Inr s1
            else if sel_listen env \<noteq> 0 then Inr s1
            else bindR (AddListenEvent env (sel_listen_socket s1) s1) (\<lambda>s2.
                   Inr (s2\<lparr>service_inited := True\<rparr>))))"

definition select_Initialize :: "select_env \<Rightarrow> Json \<Rightarrow> select_core \<Rightarrow> (bool \<times> select_core) result" where
  "select_Initialize env cfg s =
     (if service_inited s then Inr (True, s)
      else
        (let grow_size = GT_READ_CFG_INT cfg ''select_control'' ''fd_grow_size'' 100
         in bindR (GrowSet env EVENT_READ grow_size s) (\<lambda>s1.
            bindR (GrowSet env EVENT_WRITE grow_size s1) (\<lambda>s2.
            bindR (GrowSet env EVENT_EXCEPTION grow_size s2) (\<lambda>s3.
            bindR (select_setup env cfg s3) (\<lambda>s4. Inr (service_inited s4, s4)))))))"

text \<open>The thread that \<open>StartGTService\<close> creates is \<open>Select_service\<close>.\<close>

definition StartGTService :: "select_core \<Rightarrow> select_core" where
  "StartGTService s = (if service_started s then s else s\<lparr>service_started := True\<rparr>)"

text \<open>
  The datagram socket is bound to a port the system chooses, and then connected to the address it
  was bound with, whose port is 0, not to the one \<open>getsockname\<close> found.
\<close>

definition WakeupSelectThread :: "select_env \<Rightarrow> select_core \<Rightarrow> select_core" where
  "WakeupSelectThread env s =
     (let s1 = s\<lparr>udp_port := uint (sel_udp_port env)\<rparr>;
          s2 = AddEvent EVENT_READ (sel_udp_socket env) s1
      in sel_os (SConnect (sel_udp_socket env) (htons 0)) s2)"

text \<open>
  The join at the end returns when the thread has ended the turn it is in: \<open>ans\<close> is what \<open>select\<close>
  answers there, \<open>None\<close> when the thread is at the head of its loop or was never created.
\<close>

definition select_StopService ::
    "select_env \<Rightarrow> Json \<Rightarrow> select_answer option \<Rightarrow> select_core \<Rightarrow> select_core result" where
  "select_StopService env cfg ans s =
     (if end_thread s then Inr s
      else
        (let s1 = WakeupSelectThread env (s\<lparr>end_thread := True\<rparr>)
         in case ans of None \<Rightarrow> Inr s1 | Some a \<Rightarrow> select_turn env cfg a s1))"

definition CollectResource :: "select_core \<Rightarrow> select_core result" where
  "CollectResource s =
     bindR (delete_set EVENT_READ s) (\<lambda>s1.
     bindR (delete_set EVENT_WRITE s1) (\<lambda>s2. delete_set EVENT_EXCEPTION s2))"

definition select_Finalize ::
    "select_env \<Rightarrow> Json \<Rightarrow> select_answer option \<Rightarrow> select_core \<Rightarrow> (bool \<times> select_core) result" where
  "select_Finalize env cfg ans s =
     (if service_started s then
        bindR (select_StopService env cfg ans s) (\<lambda>s1. bindR (CollectResource s1) (\<lambda>s2. Inr (True, s2)))
      else Inr (True, s))"

section \<open>Sets as values\<close>

text \<open>
  The view of a set forgets where its block lies. The blocks of the three sets are different and
  older than the next one.
\<close>

definition fd_view :: "select_core \<Rightarrow> EVENT_TYPE \<Rightarrow> fd_set_pri option" where
  "fd_view s t = Option.bind (socketset s t) (fd_blocks s)"

definition wf_sets :: "select_core \<Rightarrow> bool" where
  "wf_sets s =
     ((\<forall>t t' a. socketset s t = Some a \<longrightarrow> socketset s t' = Some a \<longrightarrow> t = t') \<and>
      (\<forall>t a. socketset s t = Some a \<longrightarrow> a < next_block_no s))"

text \<open>What the operations on sets leave alone.\<close>

definition same_rest :: "select_core \<Rightarrow> select_core \<Rightarrow> bool" where
  "same_rest s s' =
     (client_socket_vec s' = client_socket_vec s \<and> closed_client_need_clean s' = closed_client_need_clean s \<and>
      select_cb_func s' = select_cb_func s \<and> sel_listen_socket s' = sel_listen_socket s \<and>
      end_thread s' = end_thread s \<and> service_started s' = service_started s \<and>
      service_inited s' = service_inited s \<and> udp_port s' = udp_port s \<and> sel_res s' = sel_res s)"

lemma same_rest_refl [simp]: "same_rest s s"
  by (simp add: same_rest_def)

lemma same_rest_trans: "same_rest s s1 \<Longrightarrow> same_rest s1 s2 \<Longrightarrow> same_rest s s2"
  by (simp add: same_rest_def)

lemma sel_os_frame [simp]:
  "same_rest s (sel_os c s)" "fd_view (sel_os c s) = fd_view s" "wf_sets (sel_os c s) = wf_sets s"
  "sel_log (sel_os c s) = sel_log s @ [c]" "socketset (sel_os c s) = socketset s"
  "client_socket_vec (sel_os c s) = client_socket_vec s"
  "closed_client_need_clean (sel_os c s) = closed_client_need_clean s"
  by (simp_all add: sel_os_def same_rest_def fd_view_def wf_sets_def fun_eq_iff)

lemma fd_of_view:
  "fd_view s t = Some f \<Longrightarrow> \<exists>a. fd_of t s = Inr (a, f) \<and> socketset s t = Some a \<and> fd_blocks s a = Some f"
  by (auto simp: fd_view_def fd_of_def bind_eq_Some_conv)

lemma fd_view_store:
  assumes "wf_sets s" and "socketset s t = Some a"
  shows "fd_view (s\<lparr>fd_blocks := (fd_blocks s)(a \<mapsto> f)\<rparr>) = (fd_view s)(t \<mapsto> f)"
proof
  fix u
  show "fd_view (s\<lparr>fd_blocks := (fd_blocks s)(a \<mapsto> f)\<rparr>) u = ((fd_view s)(t \<mapsto> f)) u"
  proof (cases "u = t")
    case False
    then have "socketset s u \<noteq> Some a" using assms unfolding wf_sets_def by blast
    then show ?thesis using False by (cases "socketset s u") (auto simp: fd_view_def)
  qed (use assms(2) in \<open>simp add: fd_view_def\<close>)
qed

lemma push_fd_ok:
  assumes "wf_sets s" and "fd_view s t = Some f" and "unat (sock_count f) < length (fd_sock_array f)"
  shows "\<exists>s'. push_fd t x s = Inr s' \<and> wf_sets s' \<and> same_rest s s' \<and> sel_log s' = sel_log s \<and>
     socketset s' = socketset s \<and>
     fd_view s' = (fd_view s)(t \<mapsto> \<lparr>sock_count = sock_count f + 1,
        fd_sock_array = (fd_sock_array f)[unat (sock_count f) := x]\<rparr>)"
proof -
  obtain a where a: "fd_of t s = Inr (a, f)" "socketset s t = Some a" using fd_of_view [OF assms(2)] by blast
  let ?s = "s\<lparr>fd_blocks := (fd_blocks s)(a \<mapsto> \<lparr>sock_count = sock_count f + 1,
     fd_sock_array = (fd_sock_array f)[unat (sock_count f) := x]\<rparr>)\<rparr>"
  have "push_fd t x s = Inr ?s" using a(1) assms(3) by (simp add: push_fd_def)
  moreover have "wf_sets ?s" using assms(1) by (simp add: wf_sets_def)
  moreover have "same_rest s ?s" by (simp add: same_rest_def)
  ultimately show ?thesis using fd_view_store [OF assms(1) a(2)] by auto
qed

lemma unatSuc_local: "unat (w :: dword) = n \<Longrightarrow> n + 1 < 2 ^ 32 \<Longrightarrow> unat (w + 1) = Suc n"
  by (simp add: unat_word_ariths(1))

lemma sint_of_nat: "k < 2 ^ 31 \<Longrightarrow> sint (of_nat k :: cint) = int k"
  using sint_sbintrunc' [of "int k", where 'a = 32] by (simp add: signed_take_bit_int_eq_self)

text \<open>The capacity of a block that is asked to hold \<open>k\<close> sockets.\<close>

lemma unat_fd_bytes:
  assumes "k < 2 ^ 31"
  shows "unat (fd_bytes (of_nat k)) = 8 + 8 * k"
proof -
  have "sint (of_nat k - 1 :: cint) = int k - 1"
  proof -
    have "(of_nat k - 1 :: cint) = word_of_int (int k - 1)" by simp
    moreover have "sint (word_of_int (int k - 1) :: cint) = int k - 1"
      using assms by (subst sint_sbintrunc') (simp add: signed_take_bit_int_eq_self)
    ultimately show ?thesis by simp
  qed
  then have "fd_bytes (of_nat k) = word_of_int (8 + 8 * int k)"
    by (simp add: fd_bytes_def int_to_size_def scast_eq)
  then have "unat (fd_bytes (of_nat k)) = nat ((8 + 8 * int k) mod 2 ^ 64)"
    by (simp only: unat_eq_nat_uint uint_word_of_int) simp
  also have "(8 + 8 * int k) mod 2 ^ 64 = 8 + 8 * int k" using assms by simp
  finally show ?thesis by simp
qed

definition mem_ok :: "select_env \<Rightarrow> bool" where
  "mem_ok env = (\<forall>n. unat n \<le> 2 ^ 35 \<longrightarrow> sel_alloc env n)"

lemma GrowSet_new:
  assumes "wf_sets s" and "socketset s t = None" and "k < 2 ^ 31" and "mem_ok env"
  shows "\<exists>s' f. GrowSet env t (of_nat k) s = Inr s' \<and> wf_sets s' \<and> same_rest s s' \<and> sel_log s' = sel_log s \<and>
     fd_view s' = (fd_view s)(t \<mapsto> f) \<and> sock_count f = 0 \<and> length (fd_sock_array f) = k"
proof -
  let ?a = "next_block_no s"
  let ?f = "\<lparr>sock_count = 0, fd_sock_array = map (sel_junk env ?a) [0..<k]\<rparr>"
  let ?s1 = "s\<lparr>fd_blocks := (fd_blocks s)(?a \<mapsto> ?f), next_block_no := Suc ?a\<rparr>"
  let ?s2 = "set_total t (of_nat k) (set_block t (Some ?a) ?s1)"
  have b: "unat (fd_bytes (of_nat k)) = 8 + 8 * k" by (rule unat_fd_bytes [OF assms(3)])
  then have "sel_alloc env (fd_bytes (of_nat k))" using assms(3,4) by (simp add: mem_ok_def)
  moreover have "fd_bytes (of_nat k) \<noteq> 0" using b by auto
  moreover have "sint (of_nat k :: cint) = int k"
    using assms(3) by (simp add: sint_of_nat)
  ultimately have "GrowSet env t (of_nat k) s = Inr ?s2"
    using assms(2) b by (simp add: GrowSet_def new_fd_set_def Let_def)
  moreover have w: "wf_sets ?s2"
    using assms(1,2) by (auto simp: wf_sets_def set_total_def set_block_def less_Suc_eq split: if_splits)
  moreover have "same_rest s ?s2" "sel_log ?s2 = sel_log s"
    by (simp_all add: same_rest_def set_total_def set_block_def)
  moreover have "fd_view ?s2 = (fd_view s)(t \<mapsto> ?f)"
  proof
    fix u
    have "socketset s u \<noteq> Some ?a" using assms(1) unfolding wf_sets_def by blast
    then show "fd_view ?s2 u = ((fd_view s)(t \<mapsto> ?f)) u"
      by (cases "socketset s u") (auto simp: fd_view_def set_total_def set_block_def)
  qed
  ultimately show ?thesis by (intro exI [of _ ?s2] exI [of _ ?f]) simp
qed

section \<open>Refreshing a set\<close>

text \<open>The set holds exactly the list \<open>xs\<close>, with room for \<open>cap\<close>.\<close>

definition holds :: "select_core \<Rightarrow> EVENT_TYPE \<Rightarrow> SOCKET list \<Rightarrow> nat \<Rightarrow> bool" where
  "holds s t xs cap =
     (\<exists>f. fd_view s t = Some f \<and> unat (sock_count f) = length xs \<and> length xs \<le> cap \<and>
          length (fd_sock_array f) = cap \<and> take (length xs) (fd_sock_array f) = xs)"

lemma push_holds:
  assumes "wf_sets s" and "holds s t xs cap" and "length xs < cap" and "cap < 2 ^ 32"
  shows "\<exists>s'. push_fd t x s = Inr s' \<and> wf_sets s' \<and> same_rest s s' \<and> sel_log s' = sel_log s \<and>
     socketset s' = socketset s \<and> holds s' t (xs @ [x]) cap \<and> (\<forall>u. u \<noteq> t \<longrightarrow> fd_view s' u = fd_view s u)"
proof -
  obtain f where f: "fd_view s t = Some f" "unat (sock_count f) = length xs"
      "length (fd_sock_array f) = cap" "take (length xs) (fd_sock_array f) = xs"
    using assms(2) by (auto simp: holds_def)
  obtain s' where s': "push_fd t x s = Inr s'" "wf_sets s'" "same_rest s s'" "sel_log s' = sel_log s"
      "socketset s' = socketset s"
      "fd_view s' = (fd_view s)(t \<mapsto> \<lparr>sock_count = sock_count f + 1,
         fd_sock_array = (fd_sock_array f)[unat (sock_count f) := x]\<rparr>)"
    using push_fd_ok [OF assms(1) f(1)] f(2,3) assms(3) by auto
  have "unat (sock_count f + 1) = Suc (length xs)"
    using unatSuc_local [OF f(2)] assms(3,4) by simp
  moreover have "take (Suc (length xs)) ((fd_sock_array f)[length xs := x]) = xs @ [x]"
    using f(3,4) assms(3) by (simp add: take_Suc_conv_app_nth)
  ultimately have "holds s' t (xs @ [x]) cap"
    using s'(6) f assms(3) by (auto simp: holds_def)
  then show ?thesis using s' by auto
qed

lemma refresh_loop_ok:
  assumes "wf_sets s" and "holds s t done cap" and "cap < 2 ^ 32"
    and "length done + length (filter (\<lambda>x. x \<notin> set (closed_client_need_clean s t)) xs) \<le> cap"
  shows "\<exists>s'. refresh_loop t xs kept s =
       Inr (kept @ filter (\<lambda>x. x \<notin> set (closed_client_need_clean s t)) xs, s') \<and>
     wf_sets s' \<and> same_rest s s' \<and> socketset s' = socketset s \<and>
     sel_log s' = sel_log s @ map SClose (filter (\<lambda>x. x \<in> set (closed_client_need_clean s t)) xs) \<and>
     holds s' t (done @ filter (\<lambda>x. x \<notin> set (closed_client_need_clean s t)) xs) cap \<and>
     (\<forall>u. u \<noteq> t \<longrightarrow> fd_view s' u = fd_view s u)"
  using assms
proof (induction xs arbitrary: s "done" kept)
  case (Cons x xs)
  let ?C = "set (closed_client_need_clean s t)"
  show ?case
  proof (cases "x \<in> ?C")
    case True
    let ?s = "sel_os (SClose x) s"
    have "holds ?s t done cap" using Cons.prems(2) by (simp add: holds_def)
    with Cons.IH [of ?s "done" kept] Cons.prems(1,3,4) True obtain s' where
      "refresh_loop t xs kept ?s = Inr (kept @ filter (\<lambda>x. x \<notin> ?C) xs, s')"
      "wf_sets s'" "same_rest ?s s'" "socketset s' = socketset s"
      "sel_log s' = sel_log ?s @ map SClose (filter (\<lambda>x. x \<in> ?C) xs)"
      "holds s' t (done @ filter (\<lambda>x. x \<notin> ?C) xs) cap" "\<forall>u. u \<noteq> t \<longrightarrow> fd_view s' u = fd_view s u"
      by auto
    then show ?thesis using True same_rest_trans [OF sel_os_frame(1)] by auto
  next
    case False
    have "length done < cap" using Cons.prems(4) False by simp
    from push_holds [OF Cons.prems(1,2) this Cons.prems(3)] obtain s1 where
      1: "push_fd t x s = Inr s1" "wf_sets s1" "same_rest s s1" "sel_log s1 = sel_log s"
         "socketset s1 = socketset s" "holds s1 t (done @ [x]) cap" "\<forall>u. u \<noteq> t \<longrightarrow> fd_view s1 u = fd_view s u"
      by blast
    have C: "closed_client_need_clean s1 = closed_client_need_clean s" using 1(3) by (simp add: same_rest_def)
    have len: "length (done @ [x]) + length (filter (\<lambda>x. x \<notin> set (closed_client_need_clean s1 t)) xs) \<le> cap"
      using Cons.prems(4) False C by simp
    from Cons.IH [OF 1(2,6) Cons.prems(3) len, of "kept @ [x]", unfolded C] obtain s' where
      "refresh_loop t xs (kept @ [x]) s1 = Inr ((kept @ [x]) @ filter (\<lambda>x. x \<notin> ?C) xs, s')"
      "wf_sets s'" "same_rest s1 s'" "socketset s' = socketset s1"
      "sel_log s' = sel_log s1 @ map SClose (filter (\<lambda>x. x \<in> ?C) xs)"
      "holds s' t ((done @ [x]) @ filter (\<lambda>x. x \<notin> ?C) xs) cap" "\<forall>u. u \<noteq> t \<longrightarrow> fd_view s' u = fd_view s1 u"
      by blast
    then show ?thesis using 1 False same_rest_trans [OF 1(3)] by auto
  qed
qed (auto simp: same_rest_def)

lemma delete_set_ok:
  assumes "wf_sets s" and "fd_view s t = Some f"
  shows "\<exists>s'. delete_set t s = Inr s' \<and> wf_sets (set_block t None s') \<and> same_rest s (set_block t None s') \<and>
     sel_log (set_block t None s') = sel_log s \<and> socketset (set_block t None s') t = None \<and>
     client_socket_vec s' = client_socket_vec s \<and> closed_client_need_clean s' = closed_client_need_clean s \<and>
     (\<forall>u. u \<noteq> t \<longrightarrow> fd_view (set_block t None s') u = fd_view s u)"
proof -
  obtain a where a: "socketset s t = Some a" "fd_blocks s a = Some f" using fd_of_view [OF assms(2)] by blast
  let ?s = "s\<lparr>fd_blocks := (fd_blocks s)(a := None)\<rparr>"
  have "delete_set t s = Inr ?s" using a by (simp add: delete_set_def delete_block_def)
  moreover have "wf_sets (set_block t None ?s)" using assms(1) by (auto simp: wf_sets_def set_block_def)
  moreover have "fd_view (set_block t None ?s) u = fd_view s u" if "u \<noteq> t" for u
  proof -
    have "socketset s u \<noteq> Some a" using that a assms(1) unfolding wf_sets_def by blast
    then show ?thesis using that by (cases "socketset s u") (auto simp: fd_view_def set_block_def)
  qed
  ultimately show ?thesis by (auto simp: same_rest_def set_block_def)
qed

lemma closed_length:
  assumes "distinct C" and "set C \<subseteq> set xs"
  shows "length (filter (\<lambda>x. x \<notin> set C) xs) \<le> length xs - length C"
    and "length C \<le> length xs"
proof -
  have "card (set C) \<le> card (set (filter (\<lambda>x. x \<in> set C) xs))"
    using assms(2) by (intro card_mono) auto
  also have "\<dots> \<le> length (filter (\<lambda>x. x \<in> set C) xs)" by (rule card_length)
  finally have "length C \<le> length (filter (\<lambda>x. x \<in> set C) xs)"
    using distinct_card [OF assms(1)] by simp
  moreover have "length (filter (\<lambda>x. x \<in> set C) xs) + length (filter (\<lambda>x. x \<notin> set C) xs) = length xs"
    by (rule sum_length_filter_compl)
  ultimately show "length (filter (\<lambda>x. x \<notin> set C) xs) \<le> length xs - length C"
    and "length C \<le> length xs" by auto
qed

text \<open>
  Refreshing one type: the closed sockets are closed and leave the vector, and the set is rebuilt
  in a block that has room for the vector less the closed ones.
\<close>

text \<open>The new, empty set that a refresh starts from.\<close>

lemma refresh_start_ok:
  assumes "wf_sets s" and "fd_view s t = Some f" and "mem_ok env" and k: "k < 2 ^ 31"
  shows "\<exists>s1 s2. delete_set t s = Inr s1 \<and> GrowSet env t (of_nat k) (set_block t None s1) = Inr s2 \<and>
     wf_sets s2 \<and> same_rest s s2 \<and> sel_log s2 = sel_log s \<and> holds s2 t [] k \<and>
     (\<forall>u. u \<noteq> t \<longrightarrow> fd_view s2 u = fd_view s u)"
proof -
  obtain s1 where 1: "delete_set t s = Inr s1" "wf_sets (set_block t None s1)"
      "same_rest s (set_block t None s1)" "sel_log (set_block t None s1) = sel_log s"
      "socketset (set_block t None s1) t = None"
      "\<And>u. u \<noteq> t \<Longrightarrow> fd_view (set_block t None s1) u = fd_view s u"
    using delete_set_ok [OF assms(1,2)] by blast
  obtain s2 f2 where 2: "GrowSet env t (of_nat k) (set_block t None s1) = Inr s2" "wf_sets s2"
      "same_rest (set_block t None s1) s2" "sel_log s2 = sel_log (set_block t None s1)"
      "fd_view s2 = (fd_view (set_block t None s1))(t \<mapsto> f2)" "sock_count f2 = 0"
      "length (fd_sock_array f2) = k"
    using GrowSet_new [OF 1(2,5) k assms(3)] by blast
  have "same_rest s s2" by (rule same_rest_trans [OF 1(3) 2(3)])
  then show ?thesis using 1 2 by (intro exI [of _ s1] exI [of _ s2]) (simp add: holds_def)
qed

lemma refresh_type_ok:
  assumes "wf_sets s" and "fd_view s t = Some f" and "mem_ok env"
    and C: "distinct (closed_client_need_clean s t)" "set (closed_client_need_clean s t) \<subseteq> set (client_socket_vec s t)"
    and n: "length (client_socket_vec s t) < 2 ^ 31" "client_socket_vec s t \<noteq> []"
  shows "\<exists>s'. refresh_type env t s = Inr s' \<and> wf_sets s' \<and>
     client_socket_vec s' = (client_socket_vec s)(t :=
       filter (\<lambda>x. x \<notin> set (closed_client_need_clean s t)) (client_socket_vec s t)) \<and>
     closed_client_need_clean s' = (closed_client_need_clean s)(t := []) \<and>
     same_rest s (s'\<lparr>client_socket_vec := client_socket_vec s,
                     closed_client_need_clean := closed_client_need_clean s\<rparr>) \<and>
     sel_log s' = sel_log s @ map SClose
       (filter (\<lambda>x. x \<in> set (closed_client_need_clean s t)) (client_socket_vec s t)) \<and>
     holds s' t (client_socket_vec s' t)
       (length (client_socket_vec s t) - length (closed_client_need_clean s t)) \<and>
     (\<forall>u. u \<noteq> t \<longrightarrow> fd_view s' u = fd_view s u)"
proof -
  let ?V = "client_socket_vec s t" and ?C = "closed_client_need_clean s t"
  let ?k = "length ?V - length ?C"
  note cl = closed_length [OF C]
  have g: "(of_nat (length ?V) - of_nat (length ?C) :: cint) = of_nat ?k"
    using cl(2) by (simp add: of_nat_diff)
  have k: "?k < 2 ^ 31" using n(1) by simp
  obtain s1 s2 where 2: "delete_set t s = Inr s1" "GrowSet env t (of_nat ?k) (set_block t None s1) = Inr s2"
      "wf_sets s2" "same_rest s s2" "sel_log s2 = sel_log s" "holds s2 t [] ?k"
      "\<And>u. u \<noteq> t \<Longrightarrow> fd_view s2 u = fd_view s u"
    using refresh_start_ok [OF assms(1-3) k] by blast
  have V2: "client_socket_vec s2 = client_socket_vec s"
      "closed_client_need_clean s2 = closed_client_need_clean s" using 2(4) by (simp_all add: same_rest_def)
  have "?k < 2 ^ 32" using k by simp
  moreover have "length [] + length (filter (\<lambda>x. x \<notin> set (closed_client_need_clean s2 t)) ?V) \<le> ?k"
    using cl(1) V2(2) by simp
  ultimately obtain s3 where 3: "refresh_loop t ?V [] s2 = Inr (filter (\<lambda>x. x \<notin> set ?C) ?V, s3)"
      "wf_sets s3" "same_rest s2 s3" "sel_log s3 = sel_log s2 @ map SClose (filter (\<lambda>x. x \<in> set ?C) ?V)"
      "holds s3 t (filter (\<lambda>x. x \<notin> set ?C) ?V) ?k" "\<And>u. u \<noteq> t \<Longrightarrow> fd_view s3 u = fd_view s2 u"
    using refresh_loop_ok [OF 2(3,6), of ?V "[]"] V2 by auto
  let ?s = "s3\<lparr>client_socket_vec := (client_socket_vec s3)(t := filter (\<lambda>x. x \<notin> set ?C) ?V),
              closed_client_need_clean := (closed_client_need_clean s3)(t := [])\<rparr>"
  have r3: "same_rest s s3" by (rule same_rest_trans [OF 2(4) 3(3)])
  then have V3: "client_socket_vec s3 = client_socket_vec s"
      "closed_client_need_clean s3 = closed_client_need_clean s" by (simp_all add: same_rest_def)
  have "refresh_type env t s = Inr ?s"
    using 2(1,2) 3(1) V2 n(2) g by (simp add: refresh_type_def)
  moreover have "wf_sets ?s" using 3(2) by (simp add: wf_sets_def)
  moreover have "fd_view ?s = fd_view s3" by (simp add: fd_view_def fun_eq_iff)
  then have "holds ?s t (client_socket_vec ?s t) ?k" "\<And>u. u \<noteq> t \<Longrightarrow> fd_view ?s u = fd_view s u"
    using 3(5,6) 2(7) by (simp_all add: holds_def)
  moreover have "same_rest s (?s\<lparr>client_socket_vec := client_socket_vec s,
      closed_client_need_clean := closed_client_need_clean s\<rparr>)"
    using r3 by (simp add: same_rest_def)
  moreover have "sel_log ?s = sel_log s @ map SClose (filter (\<lambda>x. x \<in> set ?C) ?V)"
    using 2(5) 3(4) by simp
  ultimately show ?thesis using V3 by (intro exI [of _ ?s]) simp
qed

text \<open>A type nothing was ever added to keeps its set.\<close>

lemma refresh_type_idle:
  "client_socket_vec s t = [] \<Longrightarrow> closed_client_need_clean s t = [] \<Longrightarrow> refresh_type env t s = Inr s"
  by (simp add: refresh_type_def fun_upd_idem)

end
