(* ===== verification/Select_Turn.thy ===== *)
theory Select_Turn
  imports Select_Core
begin

text \<open>
  One turn of the service loop of the select back end: what a set's loop serves, what serving a
  socket does, and the refinement of the abstract turn, in which the requests of the ready
  sockets are answered one after the other and the closed connections leave.
\<close>

section \<open>The sockets a set's loop serves\<close>

fun seqR :: "('a \<Rightarrow> 's \<Rightarrow> 's result) \<Rightarrow> 'a list \<Rightarrow> 's \<Rightarrow> 's result" where
  "seqR f [] s = Inr s"
| "seqR f (x # xs) s = bindR (f x s) (seqR f xs)"

definition ready_of :: "fd_set_pri \<Rightarrow> SOCKET list" where
  "ready_of f = take (unat (sock_count f)) (fd_sock_array f)"

definition served :: "fd_set_pri \<Rightarrow> SOCKET list" where
  "served f = filter (\<lambda>x. x \<in> set (ready_of f)) (take (min (Suc (unat (sock_count f))) FD_SETSIZE) (fd_sock_array f))"

lemma fd_loop_in_bounds:
  assumes "min (Suc (unat (sock_count f))) (n + i) \<le> length (fd_sock_array f)"
  shows "fd_loop proc f n i s =
     seqR proc (filter (\<lambda>x. x \<in> set (ready_of f)) (take (min n (Suc (unat (sock_count f)) - i)) (drop i (fd_sock_array f)))) s"
  using assms
proof (induction n arbitrary: i s)
  case (Suc n)
  let ?c = "unat (sock_count f)" and ?A = "fd_sock_array f"
  show ?case
  proof (cases "?c < i")
    case False
    then have i: "i < length ?A" using Suc.prems by auto
    have "take (min (Suc n) (Suc ?c - i)) (drop i ?A) = ?A ! i # take (min n (Suc ?c - Suc i)) (drop (Suc i) ?A)"
    proof -
      have "min (Suc n) (Suc ?c - i) = Suc (min n (Suc ?c - Suc i))" using False by auto
      then show ?thesis using i by (simp add: Cons_nth_drop_Suc [symmetric])
    qed
    moreover have "fd_loop proc f n (Suc i) =
        seqR proc (filter (\<lambda>x. x \<in> set (ready_of f)) (take (min n (Suc ?c - Suc i)) (drop (Suc i) ?A)))"
      using Suc.IH [of "Suc i"] Suc.prems by (intro ext) simp
    ultimately show ?thesis using False i by (simp add: ready_of_def Let_def not_le)
  qed (use Suc.prems in simp)
qed simp

lemma fd_loop_served:
  assumes "unat (sock_count f) < length (fd_sock_array f)"
  shows "fd_loop proc f FD_SETSIZE 0 s = seqR proc (served f) s"
  using fd_loop_in_bounds [of f FD_SETSIZE 0 proc s] assms by (simp add: served_def min.commute)

text \<open>The loop reads one element more than the set has: where the block is full that read is out of bounds.\<close>

lemma fd_loop_out_of_bounds:
  assumes "unat (sock_count f) = length (fd_sock_array f)" and "length (fd_sock_array f) < n + i"
    and "i \<le> length (fd_sock_array f)"
    and "\<And>x s. P s \<Longrightarrow> x \<in> set (ready_of f) \<Longrightarrow> \<exists>s'. proc x s = Inr s' \<and> P s'" and "P s"
  shows "fd_loop proc f n i s = Inl OutOfBounds"
  using assms
proof (induction n arbitrary: i s)
  case (Suc n)
  show ?case
  proof (cases "i = length (fd_sock_array f)")
    case False
    then have i: "i < length (fd_sock_array f)" using Suc.prems(3) by simp
    then have m: "fd_sock_array f ! i \<in> set (ready_of f)" using Suc.prems(1) by (simp add: ready_of_def)
    then obtain s' where s': "proc (fd_sock_array f ! i) s = Inr s'" "P s'" using Suc.prems(4,5) by blast
    have "fd_loop proc f n (Suc i) s' = Inl OutOfBounds"
      using i Suc.prems(1,2,4) s'(2) by (intro Suc.IH) auto
    then show ?thesis using i m s'(1) Suc.prems(1) by (simp add: ready_of_def)
  qed (use Suc.prems(1) in simp)
qed simp

lemma served_spec:
  assumes "unat (sock_count f) < length (fd_sock_array f)" and "unat (sock_count f) < FD_SETSIZE"
  shows "served f = ready_of f @
     (let x = fd_sock_array f ! unat (sock_count f) in if x \<in> set (ready_of f) then [x] else [])"
proof -
  have "take (Suc (unat (sock_count f))) (fd_sock_array f) =
      ready_of f @ [fd_sock_array f ! unat (sock_count f)]"
    using assms(1) by (simp add: take_Suc_conv_app_nth ready_of_def)
  moreover have "filter (\<lambda>x. x \<in> set (ready_of f)) (ready_of f) = ready_of f" by (simp add: filter_id_conv)
  ultimately show ?thesis using assms by (simp add: served_def Let_def)
qed

section \<open>Serving one socket\<close>

text \<open>
  The abstract back end: the connected sockets and those that are to be closed. A request is
  answered by a new connection, by data, or by the end of the connection; the datagram that wakes
  the loop up is neither.
\<close>

fun handled :: "SOCKET \<Rightarrow> sel_call \<Rightarrow> SOCKET" where
  "handled l (SAccept x) = l"
| "handled l (SRecv x ret port) = x"
| "handled l (SClose x) = x"
| "handled l (SConnect x port) = x"
| "handled l SWSACleanup = l"
| "handled l (SDeliver t x d) = l"

fun abs_call :: "int \<Rightarrow> sel_call \<Rightarrow> SOCKET list \<times> SOCKET list \<Rightarrow> SOCKET list \<times> SOCKET list" where
  "abs_call udp (SAccept x) (v, g) = (v @ [x], g)"
| "abs_call udp (SRecv x ret port) (v, g) =
     (v, if uint port \<noteq> udp \<and> (ret = 0 \<or> ret = -1) then us_insert x g else g)"
| "abs_call udp c vg = vg"

lemma abs_call_conns:
  "fold (abs_call u) cs (v, g) = (v', g') \<Longrightarrow> set v \<subseteq> set v' \<and> set g' \<subseteq> set g \<union> handled l ` set cs"
proof (induction cs arbitrary: v g)
  case (Cons c cs)
  obtain v1 g1 where 1: "abs_call u c (v, g) = (v1, g1)" by fastforce
  then have "set v \<subseteq> set v1 \<and> set g1 \<subseteq> set g \<union> {handled l c}"
    by (cases c) (auto simp: us_insert_def split: if_splits)
  then show ?case using Cons.IH [of v1 g1] Cons.prems 1 by auto
qed simp

text \<open>The call that serves a socket, with what the system answers to the \<open>k\<close>-th call, and those of a list.\<close>

definition serve_call :: "select_env \<Rightarrow> SOCKET \<Rightarrow> nat \<Rightarrow> SOCKET \<Rightarrow> sel_call" where
  "serve_call env l k x =
     (if x = l then SAccept (sel_accept env k) else SRecv x (fst (sel_recv env k)) (sel_peer env k))"

fun serve_calls :: "select_env \<Rightarrow> SOCKET \<Rightarrow> nat \<Rightarrow> SOCKET list \<Rightarrow> sel_call list" where
  "serve_calls env l k [] = []"
| "serve_calls env l k (x # xs) = serve_call env l k x # serve_calls env l (Suc k) xs"

lemma serve_calls_props:
  "length (serve_calls env l k xs) = length xs" "map (handled l) (serve_calls env l k xs) = xs"
  by (induction xs arbitrary: k) (auto simp: serve_call_def)

definition conns :: "select_core \<Rightarrow> SOCKET list \<times> SOCKET list" where
  "conns s = (client_socket_vec s EVENT_READ, closed_client_need_clean s EVENT_READ)"

definition same_serve :: "select_core \<Rightarrow> select_core \<Rightarrow> bool" where
  "same_serve s s' =
     (socketset s' = socketset s \<and> fd_blocks s' = fd_blocks s \<and> next_block_no s' = next_block_no s \<and>
      select_cb_func s' = select_cb_func s \<and> sel_listen_socket s' = sel_listen_socket s \<and>
      end_thread s' = end_thread s \<and> service_started s' = service_started s \<and>
      service_inited s' = service_inited s \<and> udp_port s' = udp_port s \<and>
      (\<forall>t. t \<noteq> EVENT_READ \<longrightarrow> client_socket_vec s' t = client_socket_vec s t \<and>
         closed_client_need_clean s' t = closed_client_need_clean s t))"

lemma same_serve_refl [simp]: "same_serve s s"
  by (simp add: same_serve_def)

lemma same_serve_trans: "same_serve s s1 \<Longrightarrow> same_serve s1 s2 \<Longrightarrow> same_serve s s2"
  by (simp add: same_serve_def)

text \<open>A state that can serve: buffers in order and none in use, and the callback registered.\<close>

definition serving :: "Json \<Rightarrow> select_core \<Rightarrow> bool" where
  "serving cfg s =
     (sel_buf_inv (sel_res s) \<and> sel_sized cfg (sel_res s) \<and> sel_inuse (sel_res s) = [] \<and> select_cb_func s \<noteq> None)"

text \<open>\<open>recv\<close> fails or returns at most the length it was given.\<close>

definition recv_ok :: "select_env \<Rightarrow> Json \<Rightarrow> bool" where
  "recv_ok env cfg =
     (\<forall>n. fst (sel_recv env n) = -1 \<or>
        (0 \<le> sint (fst (sel_recv env n)) \<and>
         sint (fst (sel_recv env n)) \<le> sint (GT_READ_CFG_INT cfg ''select_control'' ''buffer_size'' 2048)))"

lemma recv_into_inv:
  assumes "sel_buf_inv m" and "sel_sized cfg m"
  shows "sel_buf_inv (recv_into bu data m)" and "sel_sized cfg (recv_into bu data m)"
    and "sel_inuse (recv_into bu data m) = sel_inuse m"
    and "sel_bufs (recv_into bu data m) bu \<noteq> None \<longleftrightarrow> sel_bufs m bu \<noteq> None"
proof -
  show "sel_buf_inv (recv_into bu data m)"
  proof (cases "sel_bufs m bu")
    case (Some b)
    have e: "sel_cache (recv_into bu data m) = sel_cache m" "sel_inuse (recv_into bu data m) = sel_inuse m"
        "next_sel (recv_into bu data m) = next_sel m"
        "sel_bufs (recv_into bu data m) = (sel_bufs m)(bu \<mapsto> b\<lparr>sb_data :=
           take (length (sb_data b)) (data @ drop (length data) (sb_data b))\<rparr>)"
      using Some by (simp_all add: recv_into_def)
    have "\<And>a. (\<exists>y. sel_bufs m a = Some y) \<longleftrightarrow> a \<in> set (sel_cache m) \<union> set (sel_inuse m)"
      using assms(1) by (auto simp: sel_buf_inv_def)
    with Some assms(1) show ?thesis unfolding sel_buf_inv_def e by auto
  qed (use assms(1) in \<open>simp add: recv_into_def\<close>)
  show "sel_sized cfg (recv_into bu data m)" "sel_inuse (recv_into bu data m) = sel_inuse m"
    "sel_bufs (recv_into bu data m) bu \<noteq> None \<longleftrightarrow> sel_bufs m bu \<noteq> None"
    using assms(2) by (auto simp: recv_into_def sel_sized_def split: option.splits)
qed

lemma ReleaseSelectBuffer_sized:
  "ReleaseSelectBuffer bu m = Inr m' \<Longrightarrow> sel_sized cfg m \<Longrightarrow> sel_sized cfg m'"
  by (auto simp: ReleaseSelectBuffer_def sel_sized_def split: if_splits option.splits)

lemma accept_event_ok:
  assumes "serving cfg s"
  shows "serving cfg (select_ProcessAcceptEvent env s)"
    and "same_serve s (select_ProcessAcceptEvent env s)"
    and "sel_log (select_ProcessAcceptEvent env s) = sel_log s @ [SAccept (sel_accept env (length (sel_log s)))]"
    and "conns (select_ProcessAcceptEvent env s) =
      abs_call (udp_port s) (SAccept (sel_accept env (length (sel_log s)))) (conns s)"
  using assms
  by (simp_all add: select_ProcessAcceptEvent_def AddEvent_def sel_os_def serving_def same_serve_def
      conns_def Let_def)

lemma read_event_ok:
  assumes s: "serving cfg s" and z: "select_sizes_ok cfg" and r: "recv_ok env cfg"
  shows "\<exists>s'. select_ProcessReadEvent env cfg x s = Inr s' \<and> serving cfg s' \<and> same_serve s s' \<and>
     sel_log s' = sel_log s @ [serve_call env (sel_listen_socket s) (length (sel_log s)) x] \<and>
     conns s' = abs_call (udp_port s) (serve_call env (sel_listen_socket s) (length (sel_log s)) x) (conns s)"
proof (cases "x = sel_listen_socket s")
  case True
  then show ?thesis
    using accept_event_ok [OF s, of env] by (simp add: select_ProcessReadEvent_def serve_call_def)
next
  case False
  let ?k = "length (sel_log s)"
  obtain ret data where rd: "sel_recv env ?k = (ret, data)" by fastforce
  obtain bu m where b: "GetSelectBuffer (sel_buf_env env) cfg (sel_res s) = Inr (bu, m)"
      "sel_buf_inv m" "set (sel_inuse m) = {bu}" "sel_bufs m bu \<noteq> None"
    using GetSelectBuffer_ok [OF z, of "sel_res s" "sel_buf_env env"] s by (auto simp: serving_def)
  have sz: "sel_sized cfg m" using GetSelectBuffer_sized [OF b(1)] s by (simp add: serving_def)
  let ?m = "recv_into bu data m"
  note rm = recv_into_inv [OF b(2) sz, where bu = bu and data = data]
  let ?c = "SRecv x ret (sel_peer env ?k)"
  let ?s1 = "sel_os ?c (s\<lparr>sel_res := ?m\<rparr>)"
  let ?close = "uint (sel_peer env ?k) \<noteq> udp_port s \<and> (ret = 0 \<or> ret = -1)"
  let ?s2 = "if ?close then DelEvent EVENT_READ x ?s1 else ?s1"
  obtain m' where m': "ReleaseSelectBuffer bu ?m = Inr m'" "sel_buf_inv m'" "set (sel_inuse m') = {}"
    using ReleaseSelectBuffer_ok [OF rm(1), of bu] rm(3) b(3) by auto
  have sz': "sel_sized cfg m'" by (rule ReleaseSelectBuffer_sized [OF m'(1) rm(2)])
  have res: "sel_res ?s2 = ?m" by (simp add: DelEvent_def sel_os_def)
  have cb: "select_cb_func ?s1 \<noteq> None" using s by (simp add: serving_def sel_os_def)
  have "(if uint (sel_peer env ?k) = udp_port ?s1 then Inr ?s1
         else if ret = 0 \<or> ret = -1 then Inr (DelEvent EVENT_READ x ?s1)
         else (case sel_bufs (sel_res ?s1) bu of
                 None \<Rightarrow> Inl UseAfterFree
               | Some b \<Rightarrow>
                   if length (sb_data b) < unat (int_to_size ret) then Inl OutOfBounds
                   else select_DispatchEvent EVENT_READ x (take (nat (sint ret)) (sb_data b)) ?s1)) = Inr ?s2"
  proof (cases "uint (sel_peer env ?k) = udp_port s \<or> ret = 0 \<or> ret = -1")
    case False
    obtain v where v: "sel_bufs ?m bu = Some v" using rm(4) b(4) by blast
    have "length (sb_data v) = nat (sint (GT_READ_CFG_INT cfg ''select_control'' ''buffer_size'' 2048))"
      using v rm(1,2) by (auto simp: sel_buf_inv_def sel_sized_def)
    moreover have "0 \<le> sint ret" "sint ret \<le> sint (GT_READ_CFG_INT cfg ''select_control'' ''buffer_size'' 2048)"
      using r rd False by (auto simp: recv_ok_def dest: spec [of _ ?k])
    ultimately have "\<not> length (sb_data v) < unat (int_to_size ret)" by (simp add: int_to_size_nonneg)
    then show ?thesis using False v cb by (simp add: sel_os_def select_DispatchEvent_def)
  qed (auto simp: sel_os_def)
  then have "select_ProcessReadEvent env cfg x s = Inr (?s2\<lparr>sel_res := m'\<rparr>)"
    using False b(1) rd res m'(1) by (simp add: select_ProcessReadEvent_def Let_def)
  moreover have "serving cfg (?s2\<lparr>sel_res := m'\<rparr>)"
    using m' sz' s by (simp add: serving_def DelEvent_def sel_os_def)
  moreover have "same_serve s (?s2\<lparr>sel_res := m'\<rparr>)" "sel_log (?s2\<lparr>sel_res := m'\<rparr>) = sel_log s @ [?c]"
      "conns (?s2\<lparr>sel_res := m'\<rparr>) = abs_call (udp_port s) ?c (conns s)"
    by (simp_all add: same_serve_def DelEvent_def sel_os_def conns_def)
  moreover have "serve_call env (sel_listen_socket s) ?k x = ?c" using False rd by (simp add: serve_call_def)
  ultimately show ?thesis by (intro exI [of _ "?s2\<lparr>sel_res := m'\<rparr>"]) simp
qed

lemma serve_all_ok:
  assumes "serving cfg s" and "select_sizes_ok cfg" and "recv_ok env cfg"
    and "cs = serve_calls env (sel_listen_socket s) (length (sel_log s)) xs"
  shows "\<exists>s'. seqR (select_ProcessReadEvent env cfg) xs s = Inr s' \<and> serving cfg s' \<and> same_serve s s' \<and>
     sel_log s' = sel_log s @ cs \<and> conns s' = fold (abs_call (udp_port s)) cs (conns s)"
  using assms(1,4)
proof (induction xs arbitrary: s cs)
  case Nil
  then show ?case by (intro exI [of _ s]) simp
next
  case (Cons x xs)
  let ?c = "serve_call env (sel_listen_socket s) (length (sel_log s)) x"
  obtain s1 where 1: "select_ProcessReadEvent env cfg x s = Inr s1" "serving cfg s1" "same_serve s s1"
      "sel_log s1 = sel_log s @ [?c]" "conns s1 = abs_call (udp_port s) ?c (conns s)"
    using read_event_ok [OF Cons.prems(1) assms(2,3)] by blast
  have e: "sel_listen_socket s1 = sel_listen_socket s" "udp_port s1 = udp_port s"
    using 1(3) by (simp_all add: same_serve_def)
  obtain s' where 2: "seqR (select_ProcessReadEvent env cfg) xs s1 = Inr s'" "serving cfg s'" "same_serve s1 s'"
      "sel_log s' = sel_log s1 @ serve_calls env (sel_listen_socket s1) (length (sel_log s1)) xs"
      "conns s' = fold (abs_call (udp_port s)) (serve_calls env (sel_listen_socket s1) (length (sel_log s1)) xs) (conns s1)"
    using Cons.IH [OF 1(2) refl] e by auto
  have "same_serve s s'" by (rule same_serve_trans [OF 1(3) 2(3)])
  then show ?case using 1 2 e Cons.prems(2) by (intro exI [of _ s']) simp
qed

section \<open>A turn\<close>

text \<open>
  The state between two turns: three well-formed sets, the write and the exception set empty with
  room for a socket, every monitored socket in the vector, nothing waiting to be closed.
\<close>

definition sel_ok :: "Json \<Rightarrow> select_core \<Rightarrow> bool" where
  "sel_ok cfg s =
     (wf_sets s \<and> serving cfg s \<and>
      (\<exists>f. fd_view s EVENT_READ = Some f \<and> unat (sock_count f) \<le> length (fd_sock_array f) \<and>
           set (ready_of f) \<subseteq> set (client_socket_vec s EVENT_READ)) \<and>
      closed_client_need_clean s EVENT_READ = [] \<and>
      (\<forall>t \<in> {EVENT_WRITE, EVENT_EXCEPTION}. client_socket_vec s t = [] \<and> closed_client_need_clean s t = [] \<and>
         (\<exists>cap. 0 < cap \<and> holds s t [] cap)))"

lemma answer_set_ok:
  assumes "wf_sets s" and "fd_view s t = Some f"
  shows "\<exists>s'. select_answer_set ans t s = Inr s' \<and> wf_sets s' \<and> same_rest s s' \<and> sel_log s' = sel_log s \<and>
     fd_view s' = (fd_view s)(t \<mapsto> select_block (sa_ready ans t) (sa_rest ans t) f)"
proof -
  obtain a where a: "fd_of t s = Inr (a, f)" "socketset s t = Some a" using fd_of_view [OF assms(2)] by blast
  let ?s = "s\<lparr>fd_blocks := (fd_blocks s)(a \<mapsto> select_block (sa_ready ans t) (sa_rest ans t) f)\<rparr>"
  have "select_answer_set ans t s = Inr ?s" using a(1) by (simp add: select_answer_set_def)
  moreover have "wf_sets ?s" "same_rest s ?s" using assms(1) by (simp_all add: wf_sets_def same_rest_def)
  ultimately show ?thesis using fd_view_store [OF assms(1) a(2)] by auto
qed

lemma select_block_view:
  assumes "length ready < 2 ^ 32" and "length ready \<le> length (fd_sock_array f)"
  shows "unat (sock_count (select_block ready rest f)) = length ready"
    and "length (fd_sock_array (select_block ready rest f)) = length (fd_sock_array f)"
    and "ready_of (select_block ready rest f) = ready"
proof -
  have n: "unat (of_nat (length ready) :: dword) = length ready"
    using assms(1) by (simp add: unat_of_nat)
  then show "unat (sock_count (select_block ready rest f)) = length ready" by (simp add: select_block_def)
  show "length (fd_sock_array (select_block ready rest f)) = length (fd_sock_array f)"
    by (simp add: select_block_def)
  show "ready_of (select_block ready rest f) = ready"
    using n assms(2) by (simp add: ready_of_def select_block_def)
qed

lemma idle_loop:
  assumes "unat (sock_count f) = 0" and "0 < length (fd_sock_array f)"
  shows "fd_loop proc f FD_SETSIZE 0 s = Inr s"
  using fd_loop_served [of f proc s] assms by (simp add: served_def ready_of_def)

lemma fold_abs_call_all:
  "fold (abs_call udp) cs (v, g) = (v', g') \<Longrightarrow>
   length v' \<le> length v + length cs \<and> set v \<subseteq> set v' \<and> (distinct g \<longrightarrow> distinct g') \<and>
   set g' \<subseteq> set g \<union> handled l ` set cs"
proof (induction cs arbitrary: v g)
  case (Cons c cs)
  obtain v1 g1 where 1: "abs_call udp c (v, g) = (v1, g1)" by fastforce
  then have r: "fold (abs_call udp) cs (v1, g1) = (v', g')" using Cons.prems by simp
  have "length v1 \<le> Suc (length v)" "set v \<subseteq> set v1" "distinct g \<longrightarrow> distinct g1"
      "set g1 \<subseteq> set g \<union> {handled l c}"
    using 1 by (cases c; auto split: if_splits)+
  then show ?case using Cons.IH [OF r] by auto
qed simp

lemmas fold_abs_call = fold_abs_call_all [THEN conjunct1]
  fold_abs_call_all [THEN conjunct2, THEN conjunct1]
  fold_abs_call_all [THEN conjunct2, THEN conjunct2, THEN conjunct1, rule_format]
  fold_abs_call_all [THEN conjunct2, THEN conjunct2, THEN conjunct2]

lemma same_serve_view:
  "same_serve s s' \<Longrightarrow> fd_view s' = fd_view s" "same_serve s s' \<Longrightarrow> wf_sets s' = wf_sets s"
  by (auto simp: same_serve_def fd_view_def wf_sets_def intro!: ext)

lemma serving_same_rest: "same_rest s s' \<Longrightarrow> serving cfg s' = serving cfg s"
  by (simp add: same_rest_def serving_def)

text \<open>What the three answers make of the sets.\<close>

lemma answers_ok:
  assumes "wf_sets s" and "fd_view s EVENT_READ = Some f" and "fd_view s EVENT_WRITE = Some fw"
    and "fd_view s EVENT_EXCEPTION = Some fe"
  shows "\<exists>s1 s2 s3. select_answer_set ans EVENT_READ s = Inr s1 \<and> select_answer_set ans EVENT_WRITE s1 = Inr s2 \<and>
     select_answer_set ans EVENT_EXCEPTION s2 = Inr s3 \<and> wf_sets s3 \<and> same_rest s s3 \<and> sel_log s3 = sel_log s \<and>
     fd_view s3 EVENT_READ = Some (select_block (sa_ready ans EVENT_READ) (sa_rest ans EVENT_READ) f) \<and>
     fd_view s3 EVENT_WRITE = Some (select_block (sa_ready ans EVENT_WRITE) (sa_rest ans EVENT_WRITE) fw) \<and>
     fd_view s3 EVENT_EXCEPTION = Some (select_block (sa_ready ans EVENT_EXCEPTION) (sa_rest ans EVENT_EXCEPTION) fe)"
proof -
  obtain s1 where 1: "select_answer_set ans EVENT_READ s = Inr s1" "wf_sets s1" "same_rest s s1" "sel_log s1 = sel_log s"
      "fd_view s1 = (fd_view s)(EVENT_READ \<mapsto> select_block (sa_ready ans EVENT_READ) (sa_rest ans EVENT_READ) f)"
    using answer_set_ok [OF assms(1,2)] by blast
  have "fd_view s1 EVENT_WRITE = Some fw" using 1(5) assms(3) by simp
  from answer_set_ok [OF 1(2) this] obtain s2 where 2: "select_answer_set ans EVENT_WRITE s1 = Inr s2" "wf_sets s2"
      "same_rest s1 s2" "sel_log s2 = sel_log s1"
      "fd_view s2 = (fd_view s1)(EVENT_WRITE \<mapsto> select_block (sa_ready ans EVENT_WRITE) (sa_rest ans EVENT_WRITE) fw)"
    by blast
  have "fd_view s2 EVENT_EXCEPTION = Some fe" using 1(5) 2(5) assms(4) by simp
  from answer_set_ok [OF 2(2) this] obtain s3 where 3: "select_answer_set ans EVENT_EXCEPTION s2 = Inr s3" "wf_sets s3"
      "same_rest s2 s3" "sel_log s3 = sel_log s2"
      "fd_view s3 = (fd_view s2)(EVENT_EXCEPTION \<mapsto>
         select_block (sa_ready ans EVENT_EXCEPTION) (sa_rest ans EVENT_EXCEPTION) fe)"
    by blast
  have "same_rest s s3" using 1(3) 2(3) 3(3) by (metis same_rest_trans)
  then show ?thesis using 1 2 3 by (intro exI [of _ s1] exI [of _ s2] exI [of _ s3]) simp
qed

lemma served_le: "length (served f) \<le> FD_SETSIZE" "set (served f) \<subseteq> set (ready_of f)"
proof -
  have "length (served f) \<le> length (take (min (Suc (unat (sock_count f))) FD_SETSIZE) (fd_sock_array f))"
    unfolding served_def by (rule length_filter_le)
  then show "length (served f) \<le> FD_SETSIZE" by simp
qed (auto simp: served_def)

lemma served_nonempty: "ready_of f \<noteq> [] \<Longrightarrow> served f \<noteq> []"
proof -
  assume "ready_of f \<noteq> []"
  then obtain x xs n where f: "fd_sock_array f = x # xs" "unat (sock_count f) = Suc n"
    by (cases "fd_sock_array f"; cases "unat (sock_count f)") (auto simp: ready_of_def)
  then show ?thesis by (simp add: served_def ready_of_def FD_SETSIZE_def min_def)
qed

text \<open>After the sockets were served: the refresh closes what is to be closed and rebuilds the read set.\<close>

definition same_flags :: "select_core \<Rightarrow> select_core \<Rightarrow> bool" where
  "same_flags s s' =
     (udp_port s' = udp_port s \<and> sel_listen_socket s' = sel_listen_socket s \<and> end_thread s' = end_thread s)"

lemma refresh_ok:
  assumes w: "wf_sets s" and f: "fd_view s EVENT_READ = Some f" and m: "mem_ok env"
    and c: "conns s = (v, g)" "distinct g" "set g \<subseteq> set v" "length v < 2 ^ 31" "v \<noteq> []"
    and idle: "\<And>t. t \<noteq> EVENT_READ \<Longrightarrow> client_socket_vec s t = [] \<and> closed_client_need_clean s t = []"
  shows "\<exists>s'. RefreshFDSet env s = Inr s' \<and> wf_sets s' \<and> conns s' = (filter (\<lambda>x. x \<notin> set g) v, []) \<and>
     sel_res s' = sel_res s \<and> select_cb_func s' = select_cb_func s \<and>
     sel_log s' = sel_log s @ map SClose (filter (\<lambda>x. x \<in> set g) v) \<and>
     holds s' EVENT_READ (filter (\<lambda>x. x \<notin> set g) v) (length v - length g) \<and>
     (\<forall>t. t \<noteq> EVENT_READ \<longrightarrow> fd_view s' t = fd_view s t \<and> client_socket_vec s' t = [] \<and>
        closed_client_need_clean s' t = []) \<and> same_flags s s'"
proof -
  have V: "client_socket_vec s EVENT_READ = v" "closed_client_need_clean s EVENT_READ = g"
    using c(1) by (simp_all add: conns_def)
  obtain s1 where 1: "refresh_type env EVENT_READ s = Inr s1" "wf_sets s1"
      "client_socket_vec s1 = (client_socket_vec s)(EVENT_READ := filter (\<lambda>x. x \<notin> set g) v)"
      "closed_client_need_clean s1 = (closed_client_need_clean s)(EVENT_READ := [])"
      "same_rest s (s1\<lparr>client_socket_vec := client_socket_vec s,
                       closed_client_need_clean := closed_client_need_clean s\<rparr>)"
      "sel_log s1 = sel_log s @ map SClose (filter (\<lambda>x. x \<in> set g) v)"
      "holds s1 EVENT_READ (client_socket_vec s1 EVENT_READ) (length v - length g)"
      "\<And>u. u \<noteq> EVENT_READ \<Longrightarrow> fd_view s1 u = fd_view s u"
    using refresh_type_ok [OF w f m] c(2-5) by (auto simp: V)
  have i: "client_socket_vec s1 t = []" "closed_client_need_clean s1 t = []" if "t \<noteq> EVENT_READ" for t
    using idle [OF that] 1(3,4) that by simp_all
  have "RefreshFDSet env s = Inr s1"
    using 1(1) i by (simp add: RefreshFDSet_def refresh_type_idle)
  moreover have "conns s1 = (filter (\<lambda>x. x \<notin> set g) v, [])" using 1(3,4) by (simp add: conns_def)
  ultimately show ?thesis using 1 i by (intro exI [of _ s1]) (auto simp: same_rest_def same_flags_def)
qed

text \<open>A turn that \<open>select\<close> woke for the read set alone is the loop over that set and the refresh.\<close>

lemma select_turn_eq:
  assumes f: "fd_view s EVENT_READ = Some f" "sock_count f \<noteq> 0"
    and w: "fd_view s EVENT_WRITE = Some fw" "unat (sock_count fw) = 0" "0 < length (fd_sock_array fw)"
    and e: "fd_view s EVENT_EXCEPTION = Some fe" "unat (sock_count fe) = 0" "0 < length (fd_sock_array fe)"
    and ans: "sa_ret ans \<noteq> -1" "sa_ret ans \<noteq> 0" "sa_ready ans EVENT_WRITE = []" "sa_ready ans EVENT_EXCEPTION = []"
    and s: "select_answer_set ans EVENT_READ s = Inr s1" "select_answer_set ans EVENT_WRITE s1 = Inr s2"
      "select_answer_set ans EVENT_EXCEPTION s2 = Inr s3" "fd_view s3 EVENT_READ = Some R"
      "fd_view s3 EVENT_WRITE = Some (select_block (sa_ready ans EVENT_WRITE) (sa_rest ans EVENT_WRITE) fw)"
      "fd_view s3 EVENT_EXCEPTION = Some (select_block (sa_ready ans EVENT_EXCEPTION) (sa_rest ans EVENT_EXCEPTION) fe)"
    and loop: "fd_loop (select_ProcessReadEvent env cfg) R FD_SETSIZE 0 s3 = Inr s4" "fd_view s4 = fd_view s3"
  shows "select_turn env cfg ans s = RefreshFDSet env s4"
proof -
  have W: "unat (sock_count (select_block [] (sa_rest ans t) h)) = 0"
      "length (fd_sock_array (select_block [] (sa_rest ans t) h)) = length (fd_sock_array h)" for t h
    by (simp_all add: select_block_view)
  obtain aR aW aE where "fd_of EVENT_READ s = Inr (aR, f)" "fd_of EVENT_WRITE s = Inr (aW, fw)"
      "fd_of EVENT_EXCEPTION s = Inr (aE, fe)"
    using fd_of_view f(1) w(1) e(1) by meson
  moreover obtain bR bW bE where "fd_of EVENT_READ s3 = Inr (bR, R)"
      "fd_of EVENT_WRITE s4 = Inr (bW, select_block [] (sa_rest ans EVENT_WRITE) fw)"
      "fd_of EVENT_EXCEPTION s4 = Inr (bE, select_block [] (sa_rest ans EVENT_EXCEPTION) fe)"
    using fd_of_view s(4-6) loop(2) ans(3,4) by metis
  moreover have "sock_count fw = 0" "sock_count fe = 0" using w(2) e(2) by (simp_all add: unat_eq_zero)
  moreover have "sock_count f > 0" using f(2) word_neq_0_conv by blast
  ultimately show ?thesis
    using s(1-3) f(2) ans(1,2) loop(1) w(3) e(3) by (simp add: select_turn_def idle_loop W)
qed

text \<open>Serving the sockets of a set: what may be closed afterwards, and what stays.\<close>

lemma serve_set_ok:
  assumes "serving cfg s" "select_sizes_ok cfg" "recv_ok env cfg" "wf_sets s"
    and c: "conns s = (v0, [])" "set (ready_of R) \<subseteq> set v0" "length v0 + FD_SETSIZE < 2 ^ 31"
    and cs: "cs = serve_calls env (sel_listen_socket s) (length (sel_log s)) (served R)"
  shows "\<exists>s' v g. seqR (select_ProcessReadEvent env cfg) (served R) s = Inr s' \<and> serving cfg s' \<and> same_serve s s' \<and>
     wf_sets s' \<and> fd_view s' = fd_view s \<and> sel_log s' = sel_log s @ cs \<and>
     conns s' = (v, g) \<and> (v, g) = fold (abs_call (udp_port s)) cs (conns s) \<and>
     distinct g \<and> set g \<subseteq> set v \<and> length v < 2 ^ 31 \<and> set v0 \<subseteq> set v"
proof -
  obtain s' where s': "seqR (select_ProcessReadEvent env cfg) (served R) s = Inr s'" "serving cfg s'"
      "same_serve s s'" "sel_log s' = sel_log s @ cs" "conns s' = fold (abs_call (udp_port s)) cs (conns s)"
    using serve_all_ok [OF assms(1-3) cs] by blast
  obtain v g where vg: "conns s' = (v, g)" by fastforce
  note fa = fold_abs_call [OF s'(5) [symmetric, unfolded c(1) vg]]
  have h: "map (handled (sel_listen_socket s)) cs = served R" by (simp add: cs serve_calls_props)
  have "set (served R) = handled (sel_listen_socket s) ` set cs" unfolding h [symmetric] by simp
  then have "set g \<subseteq> set (served R)" using fa(4) [of "sel_listen_socket s"] by simp
  then have "distinct g" "set g \<subseteq> set v" using fa(2,3) served_le(2) [of R] c(2) by auto
  moreover have "length cs \<le> FD_SETSIZE" using h served_le(1) [of R] by (metis length_map)
  then have "length v < 2 ^ 31" using fa(1) c(3) by simp
  ultimately show ?thesis
    using s' vg fa(2) assms(4) same_serve_view [OF s'(3)] by (intro exI [of _ s'] exI [of _ v] exI [of _ g]) simp
qed

lemma sel_ok_intro:
  assumes "wf_sets s" "serving cfg s" "conns s = (v, [])" "holds s EVENT_READ v cap"
    and "holds s EVENT_WRITE [] m" "0 < m" "holds s EVENT_EXCEPTION [] n" "0 < n"
    and "\<And>t. t \<noteq> EVENT_READ \<Longrightarrow> client_socket_vec s t = [] \<and> closed_client_need_clean s t = []"
  shows "sel_ok cfg s"
  using assms by (auto simp: sel_ok_def conns_def holds_def [of s EVENT_READ] ready_of_def)

lemma sel_okE:
  assumes "sel_ok cfg s"
  obtains fw fe where "fd_view s EVENT_WRITE = Some fw" "unat (sock_count fw) = 0" "0 < length (fd_sock_array fw)"
    "fd_view s EVENT_EXCEPTION = Some fe" "unat (sock_count fe) = 0" "0 < length (fd_sock_array fe)"
    "wf_sets s" "serving cfg s" "closed_client_need_clean s EVENT_READ = []"
    "\<And>t. t \<noteq> EVENT_READ \<Longrightarrow> client_socket_vec s t = [] \<and> closed_client_need_clean s t = []"
proof -
  have "client_socket_vec s t = [] \<and> closed_client_need_clean s t = []" if "t \<noteq> EVENT_READ" for t
    using assms that by (cases t) (auto simp: sel_ok_def)
  then show thesis using assms that by (auto simp: sel_ok_def holds_def)
qed

lemma sel_ok_read:
  assumes "sel_ok cfg s" "fd_view s EVENT_READ = Some f"
  shows "set (ready_of f) \<subseteq> set (client_socket_vec s EVENT_READ)"
    and "unat (sock_count f) \<le> length (fd_sock_array f)"
    and "conns s = (client_socket_vec s EVENT_READ, [])"
  using assms by (auto simp: sel_ok_def conns_def)

lemma select_turn_ok:
  assumes ok: "sel_ok cfg s" and env: "mem_ok env" "select_sizes_ok cfg" "recv_ok env cfg"
    and f: "fd_view s EVENT_READ = Some f" "sock_count f \<noteq> 0"
    and ans: "sa_ret ans \<noteq> -1" "sa_ret ans \<noteq> 0" "set (sa_ready ans EVENT_READ) \<subseteq> set (ready_of f)"
      "sa_ready ans EVENT_WRITE = []" "sa_ready ans EVENT_EXCEPTION = []"
      "length (sa_ready ans EVENT_READ) < length (fd_sock_array f)"
      "length (sa_ready ans EVENT_READ) < 2 ^ 32"
    and len: "length (fst (conns s)) + FD_SETSIZE < 2 ^ 31"
    and cs: "cs = serve_calls env (sel_listen_socket s) (length (sel_log s))
       (served (select_block (sa_ready ans EVENT_READ) (sa_rest ans EVENT_READ) f))"
  shows "\<exists>s' v g. select_turn env cfg ans s = Inr s' \<and> sel_ok cfg s' \<and>
     (v, g) = fold (abs_call (udp_port s)) cs (conns s) \<and>
     conns s' = (filter (\<lambda>x. x \<notin> set g) v, []) \<and>
     sel_log s' = sel_log s @ cs @ map SClose (filter (\<lambda>x. x \<in> set g) v) \<and>
     holds s' EVENT_READ (fst (conns s')) (length v - length g) \<and> same_flags s s'"
proof -
  let ?R = "select_block (sa_ready ans EVENT_READ) (sa_rest ans EVENT_READ) f"
  note rd = sel_ok_read [OF ok f(1)]
  obtain fw fe where w: "fd_view s EVENT_WRITE = Some fw" "unat (sock_count fw) = 0" "0 < length (fd_sock_array fw)"
      and e: "fd_view s EVENT_EXCEPTION = Some fe" "unat (sock_count fe) = 0" "0 < length (fd_sock_array fe)"
      and wf: "wf_sets s" "serving cfg s"
      and idle: "\<And>t. t \<noteq> EVENT_READ \<Longrightarrow> client_socket_vec s t = [] \<and> closed_client_need_clean s t = []"
    using sel_okE [OF ok] by metis
  obtain s1 s2 s3 where a: "select_answer_set ans EVENT_READ s = Inr s1" "select_answer_set ans EVENT_WRITE s1 = Inr s2"
      "select_answer_set ans EVENT_EXCEPTION s2 = Inr s3" and s: "wf_sets s3" "same_rest s s3" "sel_log s3 = sel_log s"
      and v3: "fd_view s3 EVENT_READ = Some ?R"
      "fd_view s3 EVENT_WRITE = Some (select_block (sa_ready ans EVENT_WRITE) (sa_rest ans EVENT_WRITE) fw)"
      "fd_view s3 EVENT_EXCEPTION = Some (select_block (sa_ready ans EVENT_EXCEPTION) (sa_rest ans EVENT_EXCEPTION) fe)"
    using answers_ok [OF wf(1) f(1) w(1) e(1), where ans = ans] by blast
  have R: "unat (sock_count ?R) < length (fd_sock_array ?R)" "ready_of ?R = sa_ready ans EVENT_READ"
    using ans(6,7) select_block_view [of "sa_ready ans EVENT_READ" f] by simp_all
  have c3: "conns s3 = conns s" "udp_port s3 = udp_port s" "sel_listen_socket s3 = sel_listen_socket s"
    using s(2) by (simp_all add: conns_def same_rest_def)
  have srv: "serving cfg s3" using serving_same_rest [OF s(2)] wf(2) by simp
  have p: "conns s3 = (client_socket_vec s EVENT_READ, [])" "set (ready_of ?R) \<subseteq> set (client_socket_vec s EVENT_READ)"
      "length (client_socket_vec s EVENT_READ) + FD_SETSIZE < 2 ^ 31"
      "cs = serve_calls env (sel_listen_socket s3) (length (sel_log s3)) (served ?R)"
    using rd(1,3) R(2) ans(3) c3 len cs s(3) by simp_all
  obtain s4 v g where
    4: "seqR (select_ProcessReadEvent env cfg) (served ?R) s3 = Inr s4" "serving cfg s4" "same_serve s3 s4"
       "wf_sets s4" "fd_view s4 = fd_view s3" "sel_log s4 = sel_log s @ cs" "conns s4 = (v, g)"
       "(v, g) = fold (abs_call (udp_port s)) cs (conns s)" and g: "distinct g" "set g \<subseteq> set v" "length v < 2 ^ 31"
       "set (client_socket_vec s EVENT_READ) \<subseteq> set v"
    using serve_set_ok [OF srv env(2,3) s(1) p] c3(1,2) s(3) by metis
  have "ready_of f \<noteq> []" using f(2) rd(2) by (auto simp: ready_of_def unat_eq_zero)
  then have "v \<noteq> []" using rd(1) g(4) by auto
  have idle4: "client_socket_vec s4 t = [] \<and> closed_client_need_clean s4 t = []" if "t \<noteq> EVENT_READ" for t
    using idle [OF that] 4(3) s(2) that by (simp add: same_serve_def same_rest_def)
  have f4: "fd_view s4 EVENT_READ = Some ?R" using 4(5) v3(1) by simp
  obtain s5 where 5: "RefreshFDSet env s4 = Inr s5" "wf_sets s5" "conns s5 = (filter (\<lambda>x. x \<notin> set g) v, [])"
      "sel_res s5 = sel_res s4" "select_cb_func s5 = select_cb_func s4"
      "sel_log s5 = sel_log s4 @ map SClose (filter (\<lambda>x. x \<in> set g) v)"
      "holds s5 EVENT_READ (filter (\<lambda>x. x \<notin> set g) v) (length v - length g)"
      "\<And>t. t \<noteq> EVENT_READ \<Longrightarrow> fd_view s5 t = fd_view s4 t \<and> client_socket_vec s5 t = [] \<and> closed_client_need_clean s5 t = []"
      "same_flags s4 s5"
    using refresh_ok [OF 4(4) f4 env(1) 4(7) g(1-3) \<open>v \<noteq> []\<close> idle4] by blast
  have "fd_loop (select_ProcessReadEvent env cfg) ?R FD_SETSIZE 0 s3 = Inr s4"
    by (simp add: fd_loop_served [OF R(1)] 4(1))
  then have "select_turn env cfg ans s = Inr s5"
    using select_turn_eq [OF f w e ans(1,2,4,5) a v3 _ 4(5)] 5(1) by simp
  moreover have "serving cfg s5" using 4(2) 5(4,5) by (simp add: serving_def)
  moreover have "holds s5 EVENT_WRITE [] (length (fd_sock_array fw))" "holds s5 EVENT_EXCEPTION [] (length (fd_sock_array fe))"
    using 5(8) 4(5) v3(2,3) ans(4,5) by (auto simp: holds_def select_block_view)
  ultimately have "select_turn env cfg ans s = Inr s5" "sel_ok cfg s5"
    using sel_ok_intro [OF 5(2) _ 5(3,7)] 5(8) w(3) e(3) by blast+
  moreover have "same_flags s s5"
    using s(2) 4(3) 5(9) by (simp add: same_flags_def same_rest_def same_serve_def)
  ultimately show ?thesis
    using 4(6,8) 5(3,6,7) by (intro exI [of _ s5] exI [of _ v] exI [of _ g]) simp
qed

section \<open>Initialisation\<close>

lemma AddListenEvent_ok:
  assumes "wf_sets s" and "holds s EVENT_READ [] cap" and "0 < cap" and "cap < 2 ^ 31"
    and "socket_set_total_size s EVENT_READ = of_nat cap"
  shows "\<exists>s'. AddListenEvent env x s = Inr s' \<and> wf_sets s' \<and> holds s' EVENT_READ [x] cap \<and>
     (\<forall>u. u \<noteq> EVENT_READ \<longrightarrow> fd_view s' u = fd_view s u) \<and> sel_log s' = sel_log s \<and>
     same_rest s (s'\<lparr>client_socket_vec := client_socket_vec s\<rparr>) \<and>
     client_socket_vec s' = (client_socket_vec s)(EVENT_READ := client_socket_vec s EVENT_READ @ [x])"
proof -
  obtain f where f: "fd_view s EVENT_READ = Some f" "unat (sock_count f) = 0" using assms(2) by (auto simp: holds_def)
  obtain a where a: "fd_of EVENT_READ s = Inr (a, f)" using fd_of_view [OF f(1)] by blast
  have "(of_nat cap :: dword) \<noteq> 0"
    using assms(3,4) by (simp add: word_of_nat_eq_0_iff) (auto dest: dvd_imp_le)
  then have g: "socket_set_total_size s EVENT_READ \<noteq> sock_count f"
    using assms(5) f(2) by (simp add: unat_eq_zero)
  obtain s1 where 1: "push_fd EVENT_READ x s = Inr s1" "wf_sets s1" "same_rest s s1" "sel_log s1 = sel_log s"
      "holds s1 EVENT_READ ([] @ [x]) cap" "\<And>u. u \<noteq> EVENT_READ \<Longrightarrow> fd_view s1 u = fd_view s u"
    using push_holds [OF assms(1,2)] assms(3,4) by auto
  let ?s = "AddEvent EVENT_READ x s1"
  have "AddListenEvent env x s = Inr ?s" using a g 1(1) by (simp add: AddListenEvent_def)
  moreover have "fd_view ?s = fd_view s1" "wf_sets ?s = wf_sets s1" "sel_log ?s = sel_log s1"
    by (simp_all add: AddEvent_def fd_view_def wf_sets_def fun_eq_iff)
  moreover have "holds ?s EVENT_READ [x] cap" using 1(5) calculation(2) by (simp add: holds_def)
  moreover have "client_socket_vec s1 = client_socket_vec s" using 1(3) by (simp add: same_rest_def)
  then have "client_socket_vec ?s = (client_socket_vec s)(EVENT_READ := client_socket_vec s EVENT_READ @ [x])"
      "same_rest s (?s\<lparr>client_socket_vec := client_socket_vec s\<rparr>)"
    using 1(3) by (simp_all add: AddEvent_def same_rest_def)
  ultimately show ?thesis using 1 by (intro exI [of _ ?s]) simp
qed

lemma GrowSet_total:
  "GrowSet env t g s = Inr s' \<Longrightarrow> socketset s t = None \<Longrightarrow>
   socket_set_total_size s' = (socket_set_total_size s)(t := g) \<and>
   (\<forall>u. u \<noteq> t \<longrightarrow> socketset s' u = socketset s u)"
  by (auto simp: GrowSet_def new_fd_set_def set_total_def set_block_def Let_def bindR_eq_Inr split: if_splits)

lemma of_nat_sint:
  assumes "0 < sint (w :: cint)"
  shows "w = of_nat (nat (sint w))"
proof -
  have "of_nat (nat (sint w)) = (of_int (int (nat (sint w))) :: cint)" by (rule of_int_of_nat_eq [symmetric])
  also have "int (nat (sint w)) = sint w" using assms by simp
  finally show ?thesis by simp
qed

text \<open>The three empty sets of a fresh back end.\<close>

lemma init_sets_ok:
  assumes "mem_ok env" and k: "k < 2 ^ 31"
  shows "\<exists>s1 s2 s3. GrowSet env EVENT_READ (of_nat k) select_core_init = Inr s1 \<and>
     GrowSet env EVENT_WRITE (of_nat k) s1 = Inr s2 \<and> GrowSet env EVENT_EXCEPTION (of_nat k) s2 = Inr s3 \<and>
     wf_sets s3 \<and> same_rest select_core_init s3 \<and> sel_log s3 = [] \<and> (\<forall>t. holds s3 t [] k) \<and>
     socket_set_total_size s3 EVENT_READ = of_nat k"
proof -
  let ?i = select_core_init
  have i: "wf_sets ?i" "socketset ?i t = None" "sel_log ?i = []" for t
    by (simp_all add: wf_sets_def select_core_init_def)
  obtain s1 f1 where 1: "GrowSet env EVENT_READ (of_nat k) ?i = Inr s1" "wf_sets s1" "same_rest ?i s1"
      "sel_log s1 = sel_log ?i" "fd_view s1 = (fd_view ?i)(EVENT_READ \<mapsto> f1)" "sock_count f1 = 0"
      "length (fd_sock_array f1) = k"
    using GrowSet_new [OF i(1,2) k assms(1)] by blast
  note t1 = GrowSet_total [OF 1(1) i(2)]
  have n1: "socketset s1 EVENT_WRITE = None" "socketset s1 EVENT_EXCEPTION = None" using t1 i(2) by simp_all
  obtain s2 f2 where 2: "GrowSet env EVENT_WRITE (of_nat k) s1 = Inr s2" "wf_sets s2" "same_rest s1 s2"
      "sel_log s2 = sel_log s1" "fd_view s2 = (fd_view s1)(EVENT_WRITE \<mapsto> f2)" "sock_count f2 = 0"
      "length (fd_sock_array f2) = k"
    using GrowSet_new [OF 1(2) n1(1) k assms(1)] by blast
  note t2 = GrowSet_total [OF 2(1) n1(1)]
  have n2: "socketset s2 EVENT_EXCEPTION = None" using t2 n1 by simp
  obtain s3 f3 where 3: "GrowSet env EVENT_EXCEPTION (of_nat k) s2 = Inr s3" "wf_sets s3" "same_rest s2 s3"
      "sel_log s3 = sel_log s2" "fd_view s3 = (fd_view s2)(EVENT_EXCEPTION \<mapsto> f3)" "sock_count f3 = 0"
      "length (fd_sock_array f3) = k"
    using GrowSet_new [OF 2(2) n2 k assms(1)] by blast
  note t3 = GrowSet_total [OF 3(1) n2]
  have "holds s3 t [] k" for t using 1(5-7) 2(5-7) 3(5-7) by (cases t) (simp_all add: holds_def)
  moreover have "same_rest ?i s3" using 1(3) 2(3) 3(3) by (metis same_rest_trans)
  ultimately show ?thesis using 1 2 3 t1 t2 t3 i(3) by (intro exI [of _ s1] exI [of _ s2] exI [of _ s3]) simp
qed

text \<open>A fresh back end on a system that answers: one monitored socket, the listening one.\<close>

lemma select_Initialize_ok:
  assumes sys: "sel_WSAStartup env = 0" "sel_version env = (2, 2)" "sel_bind env (select_port cfg) = 0" "sel_listen env = 0"
    and m: "mem_ok env"
    and g: "0 < sint (GT_READ_CFG_INT cfg ''select_control'' ''fd_grow_size'' 100)"
  shows "\<exists>s. select_Initialize env cfg select_core_init = Inr (True, s) \<and> service_inited s \<and>
     sel_ok cfg (RegisterCallback SelectCallBack s) \<and> conns s = ([sel_socket env], []) \<and>
     sel_listen_socket s = sel_socket env \<and> sel_log s = [] \<and> udp_port s = -1 \<and> \<not> end_thread s \<and>
     holds s EVENT_READ [sel_socket env] (nat (sint (GT_READ_CFG_INT cfg ''select_control'' ''fd_grow_size'' 100)))"
proof -
  let ?g = "GT_READ_CFG_INT cfg ''select_control'' ''fd_grow_size'' 100"
  let ?k = "nat (sint ?g)" and ?i = "select_core_init" and ?l = "sel_socket env"
  have k: "?k < 2 ^ 31" using sint_lt [of ?g] by (simp add: nat_less_iff)
  have gk: "?g = of_nat ?k" by (rule of_nat_sint [OF g])
  have k0: "0 < ?k" using g by simp
  obtain s1 s2 s3 where 3: "GrowSet env EVENT_READ ?g ?i = Inr s1" "GrowSet env EVENT_WRITE ?g s1 = Inr s2"
      "GrowSet env EVENT_EXCEPTION ?g s2 = Inr s3" "wf_sets s3" "same_rest ?i s3" "sel_log s3 = []"
      "\<And>t. holds s3 t [] ?k" "socket_set_total_size s3 EVENT_READ = ?g"
    using init_sets_ok [OF m k] unfolding gk [symmetric] by metis
  let ?s3 = "s3\<lparr>sel_listen_socket := ?l\<rparr>"
  have v3: "fd_view ?s3 = fd_view s3" by (simp add: fd_view_def fun_eq_iff)
  have h3: "holds ?s3 t [] ?k" for t using 3(7) v3 by (simp add: holds_def)
  have w3: "wf_sets ?s3" using 3(4) by (simp add: wf_sets_def)
  have tot: "socket_set_total_size ?s3 EVENT_READ = of_nat ?k"
    unfolding gk [symmetric] using 3(8) by simp
  from AddListenEvent_ok [OF w3 h3 k0 k tot, of env ?l] obtain s4 where
    4: "AddListenEvent env ?l ?s3 = Inr s4" "wf_sets s4" "holds s4 EVENT_READ [?l] ?k"
       "\<And>u. u \<noteq> EVENT_READ \<Longrightarrow> fd_view s4 u = fd_view ?s3 u" "sel_log s4 = sel_log ?s3"
       "same_rest ?s3 (s4\<lparr>client_socket_vec := client_socket_vec ?s3\<rparr>)"
       "client_socket_vec s4 = (client_socket_vec ?s3)(EVENT_READ := client_socket_vec ?s3 EVENT_READ @ [?l])"
    by blast
  let ?s = "s4\<lparr>service_inited := True\<rparr>" let ?r = "RegisterCallback SelectCallBack ?s"
  have i3: "client_socket_vec s3 = (\<lambda>_. [])" "closed_client_need_clean s3 = (\<lambda>_. [])" "sel_res s3 = select_mgr_init"
      "udp_port s3 = -1" "\<not> end_thread s3" "\<not> service_inited s3" "\<not> service_inited ?i"
    using 3(5) by (simp_all add: same_rest_def select_core_init_def)
  have v: "fd_view ?r = fd_view s4" "fd_view ?s = fd_view s4"
    by (simp_all add: RegisterCallback_def fd_view_def fun_eq_iff)
  have "select_Initialize env cfg ?i = Inr (True, ?s)"
    using 3(1-3) 4(1) i3(7) sys by (simp add: select_Initialize_def Let_def select_setup_def)
  moreover have "sel_ok cfg ?r"
  proof (rule sel_ok_intro)
    show "wf_sets ?r" using 4(2) by (simp add: wf_sets_def RegisterCallback_def)
    show "serving cfg ?r"
      using 4(6) i3(3) sel_buf_inv_init
      by (simp add: serving_def RegisterCallback_def same_rest_def sel_sized_def) (simp add: select_mgr_init_def)
    show "conns ?r = ([?l], [])" using 4(6,7) i3(1,2) by (simp add: conns_def RegisterCallback_def same_rest_def)
    show "holds ?r EVENT_READ [?l] ?k" using 4(3) v(1) by (simp add: holds_def)
    show "holds ?r EVENT_WRITE [] ?k" "holds ?r EVENT_EXCEPTION [] ?k"
      using 4(4) h3 v(1) by (simp_all add: holds_def)
    show "client_socket_vec ?r t = [] \<and> closed_client_need_clean ?r t = []" if "t \<noteq> EVENT_READ" for t
      using that 4(6,7) i3(1,2) by (simp add: RegisterCallback_def same_rest_def)
  qed (use k0 in simp_all)
  moreover have "conns ?s = ([?l], [])" "sel_listen_socket ?s = ?l" "sel_log ?s = []" "udp_port ?s = -1"
      "\<not> end_thread ?s"
    using 4(5,6,7) i3 3(6) by (simp_all add: conns_def same_rest_def)
  moreover have "holds ?s EVENT_READ [?l] ?k" using 4(3) v(2) by (simp add: holds_def)
  ultimately show ?thesis by (intro exI [of _ ?s]) simp
qed

section \<open>Nothing is delivered\<close>

text \<open>What an operation adds to the log.\<close>

fun is_deliver :: "sel_call \<Rightarrow> bool" where
  "is_deliver (SDeliver t x d) = True"
| "is_deliver _ = False"

definition silent :: "select_core \<Rightarrow> select_core \<Rightarrow> bool" where
  "silent s s' = (\<exists>cs. sel_log s' = sel_log s @ cs \<and> \<not> list_ex is_deliver cs)"

lemma silent_same [intro]: "sel_log s' = sel_log s \<Longrightarrow> silent s s'"
  by (simp add: silent_def)

lemma silent_trans [trans]: "silent s s1 \<Longrightarrow> silent s1 s2 \<Longrightarrow> silent s s2"
  by (auto simp: silent_def)

lemma silent_os: "\<not> is_deliver c \<Longrightarrow> silent s (sel_os c s)"
  by (simp add: silent_def)

lemma fd_loop_silent:
  assumes "\<And>x s s'. proc x s = Inr s' \<Longrightarrow> silent s s'"
  shows "fd_loop proc f n i s = Inr s' \<Longrightarrow> silent s s'"
proof (induction n arbitrary: i s)
  case (Suc n)
  show ?case
    using Suc.prems
    by (auto simp: Let_def bindR_eq_Inr split: if_splits intro: silent_trans assms Suc.IH)
qed auto

lemma block_ops_log:
  "new_fd_set env g n s = Inr (a, s') \<Longrightarrow> sel_log s' = sel_log s"
  "delete_block b s = Inr s' \<Longrightarrow> sel_log s' = sel_log s"
  "delete_set t s = Inr s' \<Longrightarrow> sel_log s' = sel_log s"
  "push_fd t x s = Inr s' \<Longrightarrow> sel_log s' = sel_log s"
  "select_answer_set ans t s = Inr s' \<Longrightarrow> sel_log s' = sel_log s"
  by (auto simp: new_fd_set_def delete_block_def delete_set_def push_fd_def select_answer_set_def bindR_eq_Inr
      Let_def split: if_splits option.splits)

lemma GrowSet_log: "GrowSet env t g s = Inr s' \<Longrightarrow> sel_log s' = sel_log s"
  by (auto simp: GrowSet_def bindR_eq_Inr Let_def set_total_def set_block_def
      split: if_splits option.splits dest!: block_ops_log)

lemma refresh_loop_silent: "refresh_loop t xs kept s = Inr (kept', s') \<Longrightarrow> silent s s'"
proof (induction xs arbitrary: kept s)
  case (Cons x xs)
  show ?case
  proof (cases "x \<in> set (closed_client_need_clean s t)")
    case True
    then have "silent (sel_os (SClose x) s) s'" using Cons by simp
    then show ?thesis using silent_trans silent_os by (metis is_deliver.simps(4))
  next
    case False
    then obtain s1 where "push_fd t x s = Inr s1" "refresh_loop t xs (kept @ [x]) s1 = Inr (kept', s')"
      using Cons.prems by (auto simp: bindR_eq_Inr)
    then show ?thesis using Cons.IH silent_trans block_ops_log(4) by blast
  qed
qed auto

lemma refresh_type_silent: "refresh_type env t s = Inr s' \<Longrightarrow> silent s s'"
  by (auto simp: refresh_type_def bindR_eq_Inr set_block_def silent_def
      split: if_splits dest!: block_ops_log GrowSet_log refresh_loop_silent)

lemma RefreshFDSet_silent: "RefreshFDSet env s = Inr s' \<Longrightarrow> silent s s'"
  unfolding RefreshFDSet_def bindR_eq_Inr by (blast intro: silent_trans refresh_type_silent)

lemma select_DispatchEvent_silent: "select_DispatchEvent t x d s = Inr s' \<Longrightarrow> silent s s'"
  by (auto simp: select_DispatchEvent_def split: if_splits)

lemma read_event_silent:
  assumes "select_ProcessReadEvent env cfg x s = Inr s'"
  shows "silent s s'"
proof (cases "x = sel_listen_socket s")
  case True
  then have "s' = select_ProcessAcceptEvent env s" using assms by (simp add: select_ProcessReadEvent_def)
  then show ?thesis by (simp add: select_ProcessAcceptEvent_def AddEvent_def Let_def silent_def)
next
  case False
  obtain ret data where rd: "sel_recv env (length (sel_log s)) = (ret, data)" by fastforce
  let ?c = "SRecv x ret (sel_peer env (length (sel_log s)))"
  obtain bu m s2 m' where s': "s' = s2\<lparr>sel_res := m'\<rparr>" and
      r: "(let s1 = sel_os ?c (s\<lparr>sel_res := recv_into bu data m\<rparr>)
           in if uint (sel_peer env (length (sel_log s))) = udp_port s1 then Inr s1
              else if ret = 0 \<or> ret = -1 then Inr (DelEvent EVENT_READ x s1)
              else (case sel_bufs (sel_res s1) bu of
                      None \<Rightarrow> Inl UseAfterFree
                    | Some b \<Rightarrow>
                        if length (sb_data b) < unat (int_to_size ret) then Inl OutOfBounds
                        else select_DispatchEvent EVENT_READ x (take (nat (sint ret)) (sb_data b)) s1)) = Inr s2"
    using assms False rd by (auto simp: select_ProcessReadEvent_def bindR_eq_Inr Let_def)
  let ?s1 = "sel_os ?c (s\<lparr>sel_res := recv_into bu data m\<rparr>)"
  have "silent ?s1 s2"
    using r by (auto simp: Let_def DelEvent_def split: if_splits option.splits dest: select_DispatchEvent_silent)
  moreover have "silent s ?s1" by (simp add: silent_def)
  ultimately have "silent s s2" by (rule silent_trans [rotated])
  then show ?thesis unfolding s' by (simp add: silent_def)
qed

lemma select_turn_silent:
  assumes "select_turn env cfg ans s = Inr s'"
  shows "silent s s'"
proof (cases "sel_log s' = sel_log s")
  case False
  obtain s1 s2 s3 where a: "select_answer_set ans EVENT_READ s = Inr s1" "select_answer_set ans EVENT_WRITE s1 = Inr s2"
      "select_answer_set ans EVENT_EXCEPTION s2 = Inr s3"
    using assms False by (auto simp: select_turn_def bindR_eq_Inr Let_def split: if_splits)
  then have log: "sel_log s3 = sel_log s" using block_ops_log(5) by metis
  with a obtain gr gw ge s4 s5 s6 where "fd_loop (select_ProcessReadEvent env cfg) gr FD_SETSIZE 0 s3 = Inr s4"
      "fd_loop (\<lambda>x s. Inr (ProcessWriteEvent x s)) gw FD_SETSIZE 0 s4 = Inr s5"
      "fd_loop (\<lambda>x s. Inr (ProcessExpEvent x s)) ge FD_SETSIZE 0 s5 = Inr s6" "RefreshFDSet env s6 = Inr s'"
    using assms False by (auto simp: select_turn_def bindR_eq_Inr Let_def split: if_splits)
  moreover have "silent s3 s4" by (rule fd_loop_silent [OF read_event_silent calculation(1)])
  moreover have "silent s4 s5"
    by (rule fd_loop_silent [OF _ calculation(2)]) (simp add: ProcessWriteEvent_def silent_same)
  moreover have "silent s5 s6"
    by (rule fd_loop_silent [OF _ calculation(3)]) (simp add: ProcessExpEvent_def silent_same)
  ultimately show ?thesis
    using log by (meson silent_same silent_trans RefreshFDSet_silent)
qed auto

end
