(* ===== verification/Select_Service.thy ===== *)
theory Select_Service
  imports Select_Turn
begin

text \<open>
  The properties of the select back end: what a start yields, the refinement of a turn, its
  boundary cases, the end of the service, and the exclusive use of the receive buffers.
\<close>

section \<open>A small instance\<close>

definition sel_demo_env :: select_env where
  "sel_demo_env = \<lparr>sel_buf_env = \<lparr>sel_begin = (\<lambda>_. 0), sel_byte = (\<lambda>_ _. 0)\<rparr>, sel_alloc = (\<lambda>_. True),
     sel_junk = (\<lambda>_ _. 0), sel_WSAStartup = 0, sel_version = (2, 2), sel_socket = 50, sel_bind = (\<lambda>_. 0),
     sel_listen = 0, sel_udp_socket = 90, sel_udp_port = 9000, sel_accept = (\<lambda>_. 60),
     sel_recv = (\<lambda>_. (3, [1, 2, 3])), sel_peer = (\<lambda>_. 80)\<rparr>"

definition sel_demo_cfg :: "int \<Rightarrow> Json" where
  "sel_demo_cfg n = JObject [(''select_control'', JObject [(''fd_grow_size'', JInt n)])]"

definition sel_demo_answer :: "SOCKET list \<Rightarrow> select_answer" where
  "sel_demo_answer ready = \<lparr>sa_ret = 1, sa_ready = (\<lambda>_. [])(EVENT_READ := ready), sa_rest = (\<lambda>_. [])\<rparr>"

lemma sel_demo_cfg_simps:
  "GT_READ_CFG_INT (sel_demo_cfg 1) ''select_control'' ''fd_grow_size'' 100 = 1"
  "GT_READ_CFG_INT (sel_demo_cfg 4) ''select_control'' ''fd_grow_size'' 100 = 4"
  "GT_READ_CFG_INT (sel_demo_cfg n) ''select_control'' ''buffer_cache_size'' 100 = 100"
  "GT_READ_CFG_INT (sel_demo_cfg n) ''select_control'' ''buffer_size'' 2048 = 2048"
  by (simp_all add: GT_READ_CFG_INT_def cfg_get_def member_def sel_demo_cfg_def minInt_def maxInt_def)

lemma sel_demo_ok: "mem_ok sel_demo_env" "select_sizes_ok (sel_demo_cfg n)" "recv_ok sel_demo_env (sel_demo_cfg n)"
  by (simp_all add: mem_ok_def select_sizes_ok_def recv_ok_def sel_demo_env_def sel_demo_cfg_simps)

lemma sel_demo_state:
  assumes "n \<in> {1, 4}"
  shows "\<exists>s f. select_Initialize sel_demo_env (sel_demo_cfg n) select_core_init = Inr (True, s) \<and>
     sel_ok (sel_demo_cfg n) (RegisterCallback SelectCallBack s) \<and> conns s = ([50], []) \<and>
     sel_listen_socket s = 50 \<and> sel_log s = [] \<and> udp_port s = -1 \<and> \<not> end_thread s \<and>
     fd_view (RegisterCallback SelectCallBack s) EVENT_READ = Some f \<and> sock_count f = 1 \<and>
     ready_of f = [50] \<and> length (fd_sock_array f) = nat n"
proof -
  have "0 < sint (GT_READ_CFG_INT (sel_demo_cfg n) ''select_control'' ''fd_grow_size'' 100)"
      and n: "nat (sint (GT_READ_CFG_INT (sel_demo_cfg n) ''select_control'' ''fd_grow_size'' 100)) = nat n"
    using assms by (auto simp: sel_demo_cfg_simps)
  then obtain s where s: "select_Initialize sel_demo_env (sel_demo_cfg n) select_core_init = Inr (True, s)"
      "sel_ok (sel_demo_cfg n) (RegisterCallback SelectCallBack s)" "conns s = ([50], [])"
      "sel_listen_socket s = 50" "sel_log s = []" "udp_port s = -1" "\<not> end_thread s"
      "holds s EVENT_READ [50] (nat n)"
    using select_Initialize_ok [of sel_demo_env "sel_demo_cfg n"] sel_demo_ok(1)
    by (auto simp: sel_demo_env_def)
  obtain f where f: "fd_view s EVENT_READ = Some f" "unat (sock_count f) = 1" "length (fd_sock_array f) = nat n"
      "take 1 (fd_sock_array f) = [50]" using s(8) by (auto simp: holds_def)
  have "fd_view (RegisterCallback SelectCallBack s) = fd_view s"
    by (simp add: RegisterCallback_def fd_view_def fun_eq_iff)
  moreover have "sock_count f = 1" using f(2) by (metis unat_1 word_unat_eq_iff)
  moreover have "ready_of f = [50]" using f(2,4) by (simp add: ready_of_def)
  ultimately show ?thesis using s f by (intro exI [of _ s] exI [of _ f]) simp
qed

lemma sel_demo_len: "conns s = ([50], []) \<Longrightarrow>
   length (fst (conns (RegisterCallback SelectCallBack s))) + FD_SETSIZE < 2 ^ 31"
  by (simp add: conns_def RegisterCallback_def FD_SETSIZE_def)

text \<open>A turn in which all that the block has room for is ready.\<close>

lemma turn_full_block:
  assumes "sel_ok cfg s" and "select_sizes_ok cfg" and "recv_ok env cfg"
    and "fd_view s EVENT_READ = Some f" and "sock_count f \<noteq> 0"
    and "sa_ret ans \<noteq> -1" and "sa_ret ans \<noteq> 0"
    and "length (sa_ready ans EVENT_READ) = length (fd_sock_array f)" and "length (fd_sock_array f) < FD_SETSIZE"
  shows "select_turn env cfg ans s = Inl OutOfBounds"
proof -
  let ?R = "select_block (sa_ready ans EVENT_READ) (sa_rest ans EVENT_READ) f"
  obtain fw fe where w: "fd_view s EVENT_WRITE = Some fw" "sock_count fw = 0"
      and e: "fd_view s EVENT_EXCEPTION = Some fe" "sock_count fe = 0"
    using assms(1) by (auto simp: sel_ok_def holds_def unat_eq_zero)
  have "wf_sets s" and srv: "serving cfg s" using assms(1) by (auto simp: sel_ok_def)
  from answers_ok [OF this(1) assms(4) w(1) e(1), where ans = ans] obtain s1 s2 s3 where
    s: "select_answer_set ans EVENT_READ s = Inr s1" "select_answer_set ans EVENT_WRITE s1 = Inr s2"
       "select_answer_set ans EVENT_EXCEPTION s2 = Inr s3" "same_rest s s3" "fd_view s3 EVENT_READ = Some ?R"
    by auto
  have "length (sa_ready ans EVENT_READ) < 2 ^ 32" using assms(8,9) by (simp add: FD_SETSIZE_def)
  then have R: "unat (sock_count ?R) = length (fd_sock_array ?R)" "length (fd_sock_array ?R) < FD_SETSIZE + 0"
    using select_block_view [of "sa_ready ans EVENT_READ" f] assms(8,9) by simp_all
  have p: "\<exists>s'. select_ProcessReadEvent env cfg x t = Inr s' \<and> serving cfg s'" if "serving cfg t" for x t
    using read_event_ok [OF that assms(2,3)] by blast
  have "fd_loop (select_ProcessReadEvent env cfg) ?R FD_SETSIZE 0 s3 = Inl OutOfBounds"
    using fd_loop_out_of_bounds [OF R le0, of "serving cfg"] p srv serving_same_rest [OF s(4)] by blast
  moreover obtain aR aW aE bR where "fd_of EVENT_READ s = Inr (aR, f)" "fd_of EVENT_WRITE s = Inr (aW, fw)"
      "fd_of EVENT_EXCEPTION s = Inr (aE, fe)" "fd_of EVENT_READ s3 = Inr (bR, ?R)"
    using fd_of_view assms(4) w(1) e(1) s(5) by meson
  moreover have "sock_count f > 0" using assms(5) word_neq_0_conv by blast
  ultimately show ?thesis using s(1-3) assms(6,7) w(2) e(2) by (simp add: select_turn_def)
qed

section \<open>Properties\<close>

text \<open>On a system that grants the start-up, the binding and the listening, and with a positive
  \<open>fd_grow_size\<close>, a fresh back end initialises: it monitors the listening socket alone, in a set with
  room for \<open>fd_grow_size\<close> sockets, and once its callback is registered it is in order to serve.\<close>

theorem select_starts:
  assumes "sel_WSAStartup env = 0" and "sel_version env = (2, 2)" and "sel_bind env (select_port cfg) = 0" and "sel_listen env = 0"
    and "mem_ok env" and "0 < sint (GT_READ_CFG_INT cfg ''select_control'' ''fd_grow_size'' 100)"
  shows "\<exists>s. select_Initialize env cfg select_core_init = Inr (True, s) \<and> service_inited s \<and>
     sel_ok cfg (RegisterCallback SelectCallBack s) \<and> conns s = ([sel_socket env], []) \<and>
     holds s EVENT_READ [sel_socket env] (nat (sint (GT_READ_CFG_INT cfg ''select_control'' ''fd_grow_size'' 100)))"
  using select_Initialize_ok [OF assms] by blast

theorem select_starts_witness:
  "\<exists>s. select_Initialize sel_demo_env (sel_demo_cfg 4) select_core_init = Inr (True, s) \<and>
     conns s = ([50], []) \<and> holds s EVENT_READ [50] 4"
  using select_starts [of sel_demo_env "sel_demo_cfg 4"] sel_demo_ok(1)
  by (auto simp: sel_demo_cfg_simps) (auto simp: sel_demo_env_def)

text \<open>C6: A turn of the service refines the abstract back end. From a state in order, when \<open>select\<close> reports
  some of the monitored sockets and not so many that they fill the block, the turn ends in a state in
  order; it made exactly the calls \<open>cs\<close>, one for each socket it served in their order, whose answers act on the
  pair of connections and closed sockets as \<open>abs_call\<close> says; then the closed ones were closed, each once
  for every place it has among the connections, and the others are what is monitored next.\<close>

theorem select_turn_refines:
  assumes "sel_ok cfg s" and "mem_ok env" and "select_sizes_ok cfg" and "recv_ok env cfg"
    and "fd_view s EVENT_READ = Some f" and "sock_count f \<noteq> 0"
    and "sa_ret ans \<noteq> -1" and "sa_ret ans \<noteq> 0" and "set (sa_ready ans EVENT_READ) \<subseteq> set (ready_of f)"
    and "sa_ready ans EVENT_WRITE = []" and "sa_ready ans EVENT_EXCEPTION = []"
    and "length (sa_ready ans EVENT_READ) < length (fd_sock_array f)"
    and "length (sa_ready ans EVENT_READ) < 2 ^ 32"
    and "length (fst (conns s)) + FD_SETSIZE < 2 ^ 31"
    and "cs = serve_calls env (sel_listen_socket s) (length (sel_log s))
       (served (select_block (sa_ready ans EVENT_READ) (sa_rest ans EVENT_READ) f))"
  shows "\<exists>s' v g. select_turn env cfg ans s = Inr s' \<and> sel_ok cfg s' \<and>
     (v, g) = fold (abs_call (udp_port s)) cs (conns s) \<and>
     conns s' = (filter (\<lambda>x. x \<notin> set g) v, []) \<and>
     sel_log s' = sel_log s @ cs @ map SClose (filter (\<lambda>x. x \<in> set g) v) \<and>
     holds s' EVENT_READ (fst (conns s')) (length v - length g)"
  using select_turn_ok [OF assms] by blast

theorem select_turn_refines_witness:
  "\<exists>s s'. select_Initialize sel_demo_env (sel_demo_cfg 4) select_core_init = Inr (True, s) \<and>
     select_turn sel_demo_env (sel_demo_cfg 4) (sel_demo_answer [50]) (RegisterCallback SelectCallBack s) = Inr s' \<and>
     sel_ok (sel_demo_cfg 4) s'"
proof -
  obtain s f where s: "select_Initialize sel_demo_env (sel_demo_cfg 4) select_core_init = Inr (True, s)"
      "sel_ok (sel_demo_cfg 4) (RegisterCallback SelectCallBack s)" "conns s = ([50], [])"
      "fd_view (RegisterCallback SelectCallBack s) EVENT_READ = Some f" "sock_count f = 1"
      "ready_of f = [50]" "length (fd_sock_array f) = 4"
    using sel_demo_state [of 4] by auto
  have "sock_count f \<noteq> 0" "set (sa_ready (sel_demo_answer [50]) EVENT_READ) \<subseteq> set (ready_of f)"
      "length (sa_ready (sel_demo_answer [50]) EVENT_READ) < length (fd_sock_array f)"
      "length (sa_ready (sel_demo_answer [50]) EVENT_READ) < 2 ^ 32"
    using s(5-7) by (simp_all add: sel_demo_answer_def)
  with select_turn_refines [OF s(2) sel_demo_ok s(4) _ _ _ _ _ _ _ _ sel_demo_len [OF s(3)] refl, of "sel_demo_answer [50]"]
  show ?thesis using s(1) by (fastforce simp: sel_demo_answer_def)
qed

text \<open>C33: The loop over a set is the sequence of its ready sockets in order, except at its end: it tests its
  index after the count instead of before it, so that it also looks at the element behind the ready
  ones, and serves it a second time if what \<open>select\<close> left there is one of them.\<close>

theorem served_sockets:
  assumes "unat (sock_count f) < length (fd_sock_array f)" and "unat (sock_count f) < FD_SETSIZE"
  shows "fd_loop proc f FD_SETSIZE 0 s =
     seqR proc (ready_of f @ (let x = fd_sock_array f ! unat (sock_count f)
                              in if x \<in> set (ready_of f) then [x] else [])) s"
  using fd_loop_served [OF assms(1)] served_spec [OF assms] by simp

theorem served_sockets_witness:
  "fd_loop (\<lambda>x s. Inr (s @ [x])) \<lparr>sock_count = 2, fd_sock_array = [5, 6, 5, 7]\<rparr> FD_SETSIZE 0 [] = Inr [5, 6, 5]"
  by (subst served_sockets) (simp_all add: FD_SETSIZE_def ready_of_def Let_def)

text \<open>C28: When all the sockets a block has room for are ready at once, the turn does not end well: after it
  served them all, the loop reads the element behind the block.\<close>

theorem full_set_out_of_bounds:
  assumes "sel_ok cfg s" and "select_sizes_ok cfg" and "recv_ok env cfg"
    and "fd_view s EVENT_READ = Some f" and "sock_count f \<noteq> 0"
    and "sa_ret ans \<noteq> -1" and "sa_ret ans \<noteq> 0"
    and "length (sa_ready ans EVENT_READ) = length (fd_sock_array f)" and "length (fd_sock_array f) < FD_SETSIZE"
  shows "select_turn env cfg ans s = Inl OutOfBounds"
  by (rule turn_full_block [OF assms])

theorem full_set_out_of_bounds_witness:
  "\<exists>s. select_Initialize sel_demo_env (sel_demo_cfg 1) select_core_init = Inr (True, s) \<and>
     select_turn sel_demo_env (sel_demo_cfg 1) (sel_demo_answer [50]) (RegisterCallback SelectCallBack s) =
       Inl OutOfBounds"
proof -
  obtain s f where s: "select_Initialize sel_demo_env (sel_demo_cfg 1) select_core_init = Inr (True, s)"
      "sel_ok (sel_demo_cfg 1) (RegisterCallback SelectCallBack s)"
      "fd_view (RegisterCallback SelectCallBack s) EVENT_READ = Some f" "sock_count f = 1"
      "length (fd_sock_array f) = 1"
    using sel_demo_state [of 1] by auto
  have "sock_count f \<noteq> 0" "length (sa_ready (sel_demo_answer [50]) EVENT_READ) = length (fd_sock_array f)"
      "length (fd_sock_array f) < FD_SETSIZE" "sa_ret (sel_demo_answer [50]) \<noteq> -1" "sa_ret (sel_demo_answer [50]) \<noteq> 0"
    using s(4,5) by (simp_all add: sel_demo_answer_def FD_SETSIZE_def)
  with full_set_out_of_bounds [OF s(2) sel_demo_ok(2,3) s(3)] show ?thesis using s(1) by blast
qed



text \<open>Finalizing a started service frees the three sets and returns true; nothing records that, so that
  finalizing it again frees the same blocks a second time.\<close>

theorem finalize_twice:
  assumes "wf_sets s" and "\<And>t. fd_view s t \<noteq> None" and "service_started s"
  shows "\<exists>s'. select_Finalize env cfg None s = Inr (True, s') \<and> end_thread s' \<and> (\<forall>t. fd_view s' t = None) \<and>
     select_Finalize env cfg ans s' = Inl UseAfterFree"
proof -
  obtain f g h where "fd_view s EVENT_READ = Some f" "fd_view s EVENT_WRITE = Some g" "fd_view s EVENT_EXCEPTION = Some h"
    using assms(2) by blast
  then obtain a b c where p: "socketset s EVENT_READ = Some a" "fd_blocks s a = Some f"
      "socketset s EVENT_WRITE = Some b" "fd_blocks s b = Some g"
      "socketset s EVENT_EXCEPTION = Some c" "fd_blocks s c = Some h"
    using fd_of_view by meson
  have d: "a \<noteq> b" "a \<noteq> c" "b \<noteq> c" using assms(1) p(1,3,5) unfolding wf_sets_def by blast+
  obtain s1 where 1: "select_StopService env cfg None s = Inr s1" "end_thread s1" "service_started s1"
      "socketset s1 = socketset s" "fd_blocks s1 = fd_blocks s"
    using assms(3) that
    by (cases "end_thread s") (auto simp: select_StopService_def WakeupSelectThread_def Let_def AddEvent_def sel_os_def)
  let ?s = "s1\<lparr>fd_blocks := ((fd_blocks s1)(a := None, b := None, c := None))\<rparr>"
  have "CollectResource s1 = Inr ?s"
    using p d 1(4,5) by (simp add: CollectResource_def delete_set_def delete_block_def)
  then have "select_Finalize env cfg None s = Inr (True, ?s)"
    using assms(3) 1(1) by (simp add: select_Finalize_def)
  moreover have "fd_view ?s t = None" for t
    using p 1(4) by (cases t) (simp_all add: fd_view_def)
  moreover have "select_Finalize env cfg ans ?s = Inl UseAfterFree"
    using 1(2,3,4) p(1) d
    by (simp add: select_Finalize_def select_StopService_def CollectResource_def delete_set_def delete_block_def)
  ultimately show ?thesis using 1(2) by (intro exI [of _ ?s]) simp
qed

theorem finalize_twice_witness:
  "\<exists>s s'. select_Initialize sel_demo_env (sel_demo_cfg 4) select_core_init = Inr (True, s) \<and>
     select_Finalize sel_demo_env (sel_demo_cfg 4) None (StartGTService (RegisterCallback SelectCallBack s)) = Inr (True, s') \<and>
     select_Finalize sel_demo_env (sel_demo_cfg 4) None s' = Inl UseAfterFree"
proof -
  obtain s where s: "select_Initialize sel_demo_env (sel_demo_cfg 4) select_core_init = Inr (True, s)"
      "sel_ok (sel_demo_cfg 4) (RegisterCallback SelectCallBack s)"
    using sel_demo_state [of 4] by auto
  let ?s = "StartGTService (RegisterCallback SelectCallBack s)"
  have v: "fd_view ?s = fd_view (RegisterCallback SelectCallBack s)" "wf_sets ?s = wf_sets (RegisterCallback SelectCallBack s)"
    by (auto simp: StartGTService_def fd_view_def wf_sets_def)
  have "fd_view ?s t \<noteq> None" for t
    using s(2) unfolding v(1) by (cases t) (auto simp: sel_ok_def holds_def)
  moreover have "wf_sets ?s" using s(2) unfolding v(2) by (simp add: sel_ok_def)
  moreover have "service_started ?s" by (simp add: StartGTService_def)
  ultimately obtain s' where "select_Finalize sel_demo_env (sel_demo_cfg 4) None ?s = Inr (True, s')"
      "select_Finalize sel_demo_env (sel_demo_cfg 4) None s' = Inl UseAfterFree"
    using finalize_twice [of ?s sel_demo_env "sel_demo_cfg 4" None] by blast
  then show ?thesis using s(1) by blast
qed

text \<open>The receive buffers are exclusive: as many requests as one likes are answered by different buffers
  none of which was in use, and when they are all given back the pool is used as before.\<close>

theorem select_buffers_exclusive:
  assumes "select_sizes_ok cfg" and "sel_buf_inv m" and "acquire_many (acquire_buffer env cfg) n m = (bs, m')"
  shows "distinct bs \<and> set bs \<inter> Some ` set (sel_inuse m) = {} \<and>
     set (sel_inuse (fold release_buffer bs m')) = set (sel_inuse m)"
proof -
  have i: "select_sizes_ok cfg \<and> sel_buf_inv m" using assms(1,2) by simp
  have "Some ` set (sel_inuse (fold release_buffer bs m')) = Some ` set (sel_inuse m)"
    by (rule sbp.acquire_release_all [OF i assms(3)])
  then show ?thesis using sbp.acquire_many_fresh [OF i assms(3)] by (simp add: inj_image_eq_iff)
qed

theorem select_buffers_exclusive_witness:
  "\<exists>b c m'. acquire_many (acquire_buffer (sel_buf_env sel_demo_env) (sel_demo_cfg 4)) 2 select_mgr_init = ([b, c], m') \<and>
     b \<noteq> c \<and> sel_inuse (fold release_buffer [b, c] m') = []"
proof -
  obtain bs m' where a: "acquire_many (acquire_buffer (sel_buf_env sel_demo_env) (sel_demo_cfg 4)) 2 select_mgr_init = (bs, m')"
    by fastforce
  have "length bs = 2" using length_acquire_many [of _ 2 select_mgr_init] a by (metis fst_conv)
  then obtain b c where "bs = [b, c]" by (auto simp: numeral_2_eq_2 length_Suc_conv)
  then show ?thesis
    using select_buffers_exclusive [OF sel_demo_ok(2) sel_buf_inv_init a] a by (auto simp: select_mgr_init_def)
qed

end
