(* ===== verification/Select_Wrapper.thy ===== *)
theory Select_Wrapper
  imports Select_Service GT_Log
begin

text \<open>
  \<open>GT_Select_Wrapper\<close>, which owns the select back end, the configuration and the log of its library
  and the user's callbacks, and the exported functions of \<open>GT_Select.cpp\<close>. A callback is a value of
  the type \<open>'cb\<close>; \<open>None\<close> is the null function pointer. Calls to the log other than the
  initialisation are left out: they only append lines.
\<close>

section \<open>State\<close>

record sel_srv_env =
  sse_fs :: "string \<Rightarrow> os_file option"
  sse_parse :: "string \<Rightarrow> Json \<Rightarrow> bool \<times> Json"
  sse_show_num :: "Json \<Rightarrow> string"
  sse_folder :: string
  sse_core :: select_env

record 'cb sel_wrapper =
  read_cb :: "'cb option"
  write_cb :: "'cb option"
  sw_service_inited :: bool
  sw_core :: select_core
  sw_cfg :: cfg_state
  sw_log :: log_state

definition sel_wrapper_init :: "'cb sel_wrapper" where
  "sel_wrapper_init = \<lparr>read_cb = None, write_cb = None, sw_service_inited = False,
     sw_core = select_core_init, sw_cfg = cfg_init, sw_log = log_init\<rparr>"

section \<open>Operations\<close>

definition RegisterSelectCallBack :: "'cb sel_wrapper \<Rightarrow> 'cb sel_wrapper" where
  "RegisterSelectCallBack s = s\<lparr>sw_core := RegisterCallback SelectCallBack (sw_core s)\<rparr>"

definition sel_wrapper_Initialize ::
    "sel_srv_env \<Rightarrow> string \<Rightarrow> 'cb sel_wrapper \<Rightarrow> srv_error + (bool \<times> 'cb sel_wrapper)" where
  "sel_wrapper_Initialize env cfg_path s =
     (let c0 = snd (LoadCfg (sse_fs env) (sse_parse env) cfg_path (sw_cfg s))
      in case ReadStringCfg (sse_show_num env) ''log_control'' ''log_name'' ''GT'' c0 of
           Inl e \<Rightarrow> Inl (Thrown e)
         | Inr (log_name, c1) \<Rightarrow>
             (case read_log_cfg (sse_show_num env) c1 of
                Inl e \<Rightarrow> Inl (Thrown e)
              | Inr (level_str, max_logsize, c2) \<Rightarrow>
                  (let s1 = s\<lparr>sw_cfg := c2, sw_log := snd (GT_LogInitialize (sse_folder env) log_name
                                (LoglevelConvert_select level_str) max_logsize (sw_log s))\<rparr>
                   in case select_Initialize (sse_core env) (cfg_root (sw_cfg s1)) (sw_core s1) of
                        Inl u \<Rightarrow> Inl (Undefined u)
                      | Inr (ok, c) \<Rightarrow>
                          (let s2 = RegisterSelectCallBack (s1\<lparr>sw_core := c, sw_service_inited := ok\<rparr>)
                           in Inr (sw_service_inited s2, s2)))))"

definition sel_wrapper_StartGTService :: "'cb sel_wrapper \<Rightarrow> 'cb sel_wrapper" where
  "sel_wrapper_StartGTService s = s\<lparr>sw_core := StartGTService (sw_core s)\<rparr>"

definition sel_wrapper_Finalize ::
    "sel_srv_env \<Rightarrow> select_answer option \<Rightarrow> 'cb sel_wrapper \<Rightarrow> (bool \<times> 'cb sel_wrapper) result" where
  "sel_wrapper_Finalize env ans s =
     bindR (select_Finalize (sse_core env) (cfg_root (sw_cfg s)) ans (sw_core s)) (\<lambda>(ok, c).
       Inr (ok, s\<lparr>sw_core := c\<rparr>))"

text \<open>One invocation of a user function: the function, the socket and the data.\<close>

type_synonym 'cb sel_user_call = "'cb \<times> SOCKET \<times> byte list"

definition sel_wrapper_DispatchEvent ::
    "EVENT_TYPE \<Rightarrow> SOCKET \<Rightarrow> byte list \<Rightarrow> 'cb sel_wrapper \<Rightarrow> 'cb sel_user_call list" where
  "sel_wrapper_DispatchEvent type x data s =
     (case type of
        EVENT_READ \<Rightarrow> (case read_cb s of None \<Rightarrow> [] | Some f \<Rightarrow> [(f, x, data)])
      | EVENT_WRITE \<Rightarrow> (case write_cb s of None \<Rightarrow> [] | Some f \<Rightarrow> [(f, x, data)])
      | _ \<Rightarrow> [])"

definition sel_wrapper_RegisterCallBack :: "'cb option \<Rightarrow> EVENT_TYPE \<Rightarrow> 'cb sel_wrapper \<Rightarrow> 'cb sel_wrapper" where
  "sel_wrapper_RegisterCallBack cb type s =
     (case type of
        EVENT_READ \<Rightarrow> s\<lparr>read_cb := cb\<rparr>
      | EVENT_WRITE \<Rightarrow> s\<lparr>write_cb := cb\<rparr>
      | _ \<Rightarrow> s)"

definition sel_wrapper_UnRegisterCallBack :: "EVENT_TYPE \<Rightarrow> 'cb sel_wrapper \<Rightarrow> 'cb sel_wrapper" where
  "sel_wrapper_UnRegisterCallBack type s =
     (case type of
        EVENT_READ \<Rightarrow> s\<lparr>read_cb := None\<rparr>
      | EVENT_WRITE \<Rightarrow> s\<lparr>write_cb := None\<rparr>
      | _ \<Rightarrow> s)"

text \<open>
  A turn of the service thread: the calls the back end makes of its registered function, which is
  \<open>SelectCallBack\<close>, go through \<open>DispatchEvent\<close>.
\<close>

fun sel_deliver :: "'cb sel_wrapper \<Rightarrow> sel_call \<Rightarrow> 'cb sel_user_call list" where
  "sel_deliver s (SDeliver type x data) = sel_wrapper_DispatchEvent type x data s"
| "sel_deliver s _ = []"

definition sel_wrapper_turn ::
    "sel_srv_env \<Rightarrow> select_answer \<Rightarrow> 'cb sel_wrapper \<Rightarrow> ('cb sel_user_call list \<times> 'cb sel_wrapper) result" where
  "sel_wrapper_turn env ans s =
     bindR (select_turn (sse_core env) (cfg_root (sw_cfg s)) ans (sw_core s)) (\<lambda>c.
       Inr (concat (map (sel_deliver s) (drop (length (sel_log (sw_core s))) (sel_log c))), s\<lparr>sw_core := c\<rparr>))"

section \<open>The exported functions\<close>

definition GTSelect_Initialize :: "sel_srv_env \<Rightarrow> string \<Rightarrow> 'cb sel_wrapper \<Rightarrow> srv_error + (bool \<times> 'cb sel_wrapper)" where
  "GTSelect_Initialize env cfg_path s = sel_wrapper_Initialize env cfg_path s"

definition GTSelect_StartGTService :: "'cb sel_wrapper \<Rightarrow> 'cb sel_wrapper" where
  "GTSelect_StartGTService s = sel_wrapper_StartGTService s"

definition GTSelect_Finalize ::
    "sel_srv_env \<Rightarrow> select_answer option \<Rightarrow> 'cb sel_wrapper \<Rightarrow> (bool \<times> 'cb sel_wrapper) result" where
  "GTSelect_Finalize env ans s = sel_wrapper_Finalize env ans s"

definition GTSelect_RegisterCallBack :: "EVENT_TYPE \<Rightarrow> 'cb option \<Rightarrow> 'cb sel_wrapper \<Rightarrow> 'cb sel_wrapper" where
  "GTSelect_RegisterCallBack type cb s =
     (case type of
        EVENT_READ \<Rightarrow> sel_wrapper_RegisterCallBack cb EVENT_READ s
      | EVENT_WRITE \<Rightarrow> sel_wrapper_RegisterCallBack cb EVENT_WRITE s
      | _ \<Rightarrow> s)"

definition GTSelect_UnRegisterCallBack :: "EVENT_TYPE \<Rightarrow> 'cb sel_wrapper \<Rightarrow> 'cb sel_wrapper" where
  "GTSelect_UnRegisterCallBack type s =
     (case type of
        EVENT_READ \<Rightarrow> sel_wrapper_UnRegisterCallBack EVENT_READ s
      | EVENT_WRITE \<Rightarrow> sel_wrapper_UnRegisterCallBack EVENT_WRITE s
      | _ \<Rightarrow> s)"

section \<open>The table of callbacks\<close>

definition sel_slot :: "EVENT_TYPE \<Rightarrow> 'cb sel_wrapper \<Rightarrow> 'cb option" where
  "sel_slot type s =
     (case type of EVENT_READ \<Rightarrow> read_cb s | EVENT_WRITE \<Rightarrow> write_cb s | _ \<Rightarrow> None)"

interpretation sel_cb: callback_table "\<lambda>t f s. GTSelect_RegisterCallBack t (Some f) s"
    GTSelect_UnRegisterCallBack sel_slot "\<lambda>t. t \<in> {EVENT_READ, EVENT_WRITE}"
  by unfold_locales
    (auto simp: sel_slot_def GTSelect_RegisterCallBack_def GTSelect_UnRegisterCallBack_def
      sel_wrapper_RegisterCallBack_def sel_wrapper_UnRegisterCallBack_def split: EVENT_TYPE.splits)

lemma sel_callback_ops_frame [simp]:
  "sw_core (GTSelect_RegisterCallBack t f s) = sw_core s" "sw_core (GTSelect_UnRegisterCallBack t s) = sw_core s"
  "sw_cfg (GTSelect_RegisterCallBack t f s) = sw_cfg s" "sw_cfg (GTSelect_UnRegisterCallBack t s) = sw_cfg s"
  by (simp_all add: GTSelect_RegisterCallBack_def GTSelect_UnRegisterCallBack_def
      sel_wrapper_RegisterCallBack_def sel_wrapper_UnRegisterCallBack_def split: EVENT_TYPE.splits)

lemma sel_cb_step_frame [simp]:
  "sw_core (sel_cb.cb_step x s) = sw_core s" "sw_cfg (sel_cb.cb_step x s) = sw_cfg s"
  by (auto simp: sel_cb.cb_step_def split: cb_op.splits)

lemma sel_cb_steps_frame [simp]:
  "sw_core (fold sel_cb.cb_step ops s) = sw_core s" "sw_cfg (fold sel_cb.cb_step ops s) = sw_cfg s"
  by (induction ops arbitrary: s) simp_all

section \<open>The start\<close>

text \<open>What the start of the library comes to: the log as configured, then the back end.\<close>

lemma sel_wrapper_Initialize_spec:
  assumes c: "c = snd (LoadCfg (sse_fs env) (sse_parse env) path (sw_cfg s))"
    and ok: "section_ok (cfg_root c) ''log_control''"
  shows "\<exists>c'. (\<forall>se k. cfg_get (cfg_root c') se k = cfg_get (cfg_root c) se k) \<and>
     sel_wrapper_Initialize env path s =
       (case select_Initialize (sse_core env) (cfg_root c') (sw_core s) of
          Inl u \<Rightarrow> Inl (Undefined u)
        | Inr (b, core) \<Rightarrow> Inr (b, s\<lparr>sw_cfg := c', sw_core := RegisterCallback SelectCallBack core, sw_service_inited := b,
            sw_log := snd (GT_LogInitialize (sse_folder env)
              (GT_READ_CFG_STRING (cfg_root c) ''log_control'' ''log_name'' ''GT'')
              (LoglevelConvert_select (GT_READ_CFG_STRING (cfg_root c) ''log_control'' ''log_level'' ''off''))
              (GT_READ_CFG_INT (cfg_root c) ''log_control'' ''max_log_size'' 50) (sw_log s))\<rparr>))"
proof -
  obtain c1 where 1: "ReadStringCfg (sse_show_num env) ''log_control'' ''log_name'' ''GT'' c =
      Inr (GT_READ_CFG_STRING (cfg_root c) ''log_control'' ''log_name'' ''GT'', c1)"
      "\<forall>se k. cfg_get (cfg_root c1) se k = cfg_get (cfg_root c) se k" "section_ok (cfg_root c1) ''log_control''"
    using ReadString_pure [OF ok] ok by blast
  obtain c2 where 2: "read_log_cfg (sse_show_num env) c1 =
      Inr (GT_READ_CFG_STRING (cfg_root c) ''log_control'' ''log_level'' ''off'',
           GT_READ_CFG_INT (cfg_root c) ''log_control'' ''max_log_size'' 50, c2)"
      "\<forall>se k. cfg_get (cfg_root c2) se k = cfg_get (cfg_root c) se k"
    using read_log_cfg_pure [OF 1(3), of "sse_show_num env"] 1(2)
    by (auto simp: GT_READ_CFG_STRING_def GT_READ_CFG_INT_def)
  show ?thesis
    using 1(1) 2
    by (intro exI [of _ c2]) (auto simp: sel_wrapper_Initialize_def RegisterSelectCallBack_def Let_def c [symmetric]
        split: sum.splits)
qed

lemma GT_READ_CFG_INT_cong:
  "\<forall>se k. cfg_get c se k = cfg_get c' se k \<Longrightarrow> GT_READ_CFG_INT c = GT_READ_CFG_INT c'"
  by (auto simp: GT_READ_CFG_INT_def fun_eq_iff)

section \<open>Properties\<close>

text \<open>C9: Nothing a client sends reaches the user of the select library. The back end tests its callback the
  wrong way round: with the callback registered, as the initialisation leaves it, a turn of the service
  makes no call into user code, whatever functions were registered; without it, the first data
  received calls a null pointer.\<close>

theorem select_delivers_nothing:
  assumes "sel_wrapper_turn env ans (fold sel_cb.cb_step ops s) = Inr (calls, s')"
  shows "calls = [] \<and> select_DispatchEvent type x data (UnRegisterCallback (sw_core s)) = Inl NullDeref"
proof -
  obtain c where c: "select_turn (sse_core env) (cfg_root (sw_cfg s)) ans (sw_core s) = Inr c"
      "calls = concat (map (sel_deliver (fold sel_cb.cb_step ops s)) (drop (length (sel_log (sw_core s))) (sel_log c)))"
    using assms by (auto simp: sel_wrapper_turn_def bindR_eq_Inr)
  have "\<not> list_ex is_deliver (drop (length (sel_log (sw_core s))) (sel_log c))"
    using select_turn_silent [OF c(1)] by (auto simp: silent_def)
  then have "sel_deliver t x = []" if "x \<in> set (drop (length (sel_log (sw_core s))) (sel_log c))" for x and t :: "'a sel_wrapper"
    using that by (cases x) (auto simp: list_ex_iff)
  then have "calls = []" using c(2) by simp
  then show ?thesis by (simp add: select_DispatchEvent_def UnRegisterCallback_def)
qed

definition sel_demo_srv_env :: sel_srv_env where
  "sel_demo_srv_env = \<lparr>sse_fs = (\<lambda>_. Some \<lparr>f_size = 1, f_data = ''x'', f_junk = ''''\<rparr>),
     sse_parse = (\<lambda>_ _. (True, sel_demo_cfg 4)), sse_show_num = (\<lambda>_. ''''), sse_folder = ''C:/'',
     sse_core = sel_demo_env\<rparr>"

text \<open>A start of the library on that system.\<close>

lemma sel_demo_start:
  "\<exists>w f. GTSelect_Initialize sel_demo_srv_env ''cfg'' (sel_wrapper_init :: nat sel_wrapper) = Inr (True, w) \<and>
     sel_ok (cfg_root (sw_cfg w)) (sw_core w) \<and> conns (sw_core w) = ([50], []) \<and>
     cfg_get (cfg_root (sw_cfg w)) = cfg_get (sel_demo_cfg 4) \<and>
     fd_view (sw_core w) EVENT_READ = Some f \<and> sock_count f = 1 \<and> ready_of f = [50] \<and>
     length (fd_sock_array f) = 4 \<and> read_cb w = None \<and> write_cb w = None"
proof -
  let ?i = "sel_wrapper_init :: nat sel_wrapper"
  let ?c = "snd (LoadCfg (sse_fs sel_demo_srv_env) (sse_parse sel_demo_srv_env) ''cfg'' (sw_cfg ?i))"
  have c: "cfg_root ?c = sel_demo_cfg 4"
    by (simp add: LoadCfg_def Let_def ReadFileContent_def sel_demo_srv_env_def sel_wrapper_init_def cfg_init_def)
  have "section_ok (cfg_root ?c) ''log_control''"
    unfolding c by (simp add: section_ok_def sel_demo_cfg_def member_def)
  from sel_wrapper_Initialize_spec [OF refl this] obtain c' where
    c': "\<forall>se k. cfg_get (cfg_root c') se k = cfg_get (sel_demo_cfg 4) se k" and
    w: "sel_wrapper_Initialize sel_demo_srv_env ''cfg'' ?i =
       (case select_Initialize sel_demo_env (cfg_root c') (sw_core ?i) of
          Inl u \<Rightarrow> Inl (Undefined u)
        | Inr (b, core) \<Rightarrow> Inr (b, ?i\<lparr>sw_cfg := c', sw_core := RegisterCallback SelectCallBack core, sw_service_inited := b,
            sw_log := snd (GT_LogInitialize (sse_folder sel_demo_srv_env)
              (GT_READ_CFG_STRING (cfg_root ?c) ''log_control'' ''log_name'' ''GT'')
              (LoglevelConvert_select (GT_READ_CFG_STRING (cfg_root ?c) ''log_control'' ''log_level'' ''off''))
              (GT_READ_CFG_INT (cfg_root ?c) ''log_control'' ''max_log_size'' 50) (sw_log ?i))\<rparr>))"
    unfolding c by (auto simp: sel_demo_srv_env_def)
  note g = GT_READ_CFG_INT_cong [OF c']
  have "0 < sint (GT_READ_CFG_INT (cfg_root c') ''select_control'' ''fd_grow_size'' 100)"
      "nat (sint (GT_READ_CFG_INT (cfg_root c') ''select_control'' ''fd_grow_size'' 100)) = 4"
    unfolding g by (simp_all add: sel_demo_cfg_simps)
  then obtain s where s: "select_Initialize sel_demo_env (cfg_root c') select_core_init = Inr (True, s)"
      "sel_ok (cfg_root c') (RegisterCallback SelectCallBack s)" "conns s = ([50], [])" "holds s EVENT_READ [50] 4"
    using select_Initialize_ok [of sel_demo_env "cfg_root c'"] sel_demo_ok(1) by (auto simp: sel_demo_env_def)
  obtain f where f: "fd_view s EVENT_READ = Some f" "unat (sock_count f) = 1" "length (fd_sock_array f) = 4"
      "take 1 (fd_sock_array f) = [50]" using s(4) by (auto simp: holds_def)
  have "fd_view (RegisterCallback SelectCallBack s) = fd_view s" "conns (RegisterCallback SelectCallBack s) = conns s"
    by (simp_all add: RegisterCallback_def fd_view_def fun_eq_iff conns_def)
  moreover have "sock_count f = 1" using f(2) by (metis unat_1 word_unat_eq_iff)
  moreover have "ready_of f = [50]" using f(2,4) by (simp add: ready_of_def)
  moreover have "sw_core ?i = select_core_init" "read_cb ?i = None" "write_cb ?i = None"
    by (simp_all add: sel_wrapper_init_def)
  ultimately show ?thesis
    using w s f c' by (simp add: GTSelect_Initialize_def fun_eq_iff)
qed

lemma sel_demo_turn:
  "\<exists>w w'. GTSelect_Initialize sel_demo_srv_env ''cfg'' (sel_wrapper_init :: nat sel_wrapper) = Inr (True, w) \<and>
     sel_wrapper_turn sel_demo_srv_env (sel_demo_answer [50]) (fold sel_cb.cb_step [Register EVENT_READ 7] w) = Inr w'"
proof -
  obtain w f where w: "GTSelect_Initialize sel_demo_srv_env ''cfg'' (sel_wrapper_init :: nat sel_wrapper) = Inr (True, w)"
      "sel_ok (cfg_root (sw_cfg w)) (sw_core w)" "conns (sw_core w) = ([50], [])"
      "cfg_get (cfg_root (sw_cfg w)) = cfg_get (sel_demo_cfg 4)"
      "fd_view (sw_core w) EVENT_READ = Some f" "sock_count f = 1" "ready_of f = [50]" "length (fd_sock_array f) = 4"
    using sel_demo_start by blast
  have "GT_READ_CFG_INT (cfg_root (sw_cfg w)) = GT_READ_CFG_INT (sel_demo_cfg 4)"
    using w(4) by (intro GT_READ_CFG_INT_cong) simp
  then have z: "select_sizes_ok (cfg_root (sw_cfg w))" "recv_ok sel_demo_env (cfg_root (sw_cfg w))"
    using sel_demo_ok(2,3) by (simp_all add: select_sizes_ok_def recv_ok_def)
  have "sock_count f \<noteq> 0" "set (sa_ready (sel_demo_answer [50]) EVENT_READ) \<subseteq> set (ready_of f)"
      "length (sa_ready (sel_demo_answer [50]) EVENT_READ) < length (fd_sock_array f)"
      "length (sa_ready (sel_demo_answer [50]) EVENT_READ) < 2 ^ 32" "length (fst (conns (sw_core w))) + FD_SETSIZE < 2 ^ 31"
    using w(3,6-8) by (simp_all add: sel_demo_answer_def FD_SETSIZE_def)
  with select_turn_ok [OF w(2) sel_demo_ok(1) z w(5) _ _ _ _ _ _ _ _ _ refl, of "sel_demo_answer [50]"]
  obtain c where "select_turn sel_demo_env (cfg_root (sw_cfg w)) (sel_demo_answer [50]) (sw_core w) = Inr c"
    by (auto simp: sel_demo_answer_def)
  moreover have "sse_core sel_demo_srv_env = sel_demo_env" by (simp add: sel_demo_srv_env_def)
  ultimately show ?thesis using w(1) by (auto simp: sel_wrapper_turn_def)
qed

theorem select_delivers_nothing_witness:
  "\<exists>w w'. GTSelect_Initialize sel_demo_srv_env ''cfg'' (sel_wrapper_init :: nat sel_wrapper) = Inr (True, w) \<and>
     sel_wrapper_turn sel_demo_srv_env (sel_demo_answer [50]) (fold sel_cb.cb_step [Register EVENT_READ 7] w) = Inr ([], w')"
  using sel_demo_turn select_delivers_nothing [of sel_demo_srv_env "sel_demo_answer [50]" "[Register EVENT_READ 7]"]
  by fastforce

end
