(* ===== verification/Select_Runs.thy ===== *)
theory Select_Runs
  imports Select_Service
begin

text \<open>
  Runs of the service loop of the select back end over several turns: they refine runs of an abstract
  service on the list of connections, and the block that a turn leaves behind has no room to spare, so
  that a later turn can read behind it.
\<close>

section \<open>The abstract service\<close>

text \<open>
  A turn of the abstract service, which answers the requests \<open>xs\<close>: one call for each, then those
  connections whose reading ended or failed are closed and leave. Its state is the list of connections
  with the log of the calls.
\<close>

definition abs_turn ::
    "select_env \<Rightarrow> SOCKET \<Rightarrow> int \<Rightarrow> SOCKET list \<Rightarrow> SOCKET list \<times> sel_call list \<Rightarrow> SOCKET list \<times> sel_call list" where
  "abs_turn env l udp xs x =
     (case x of (v0, calls) \<Rightarrow>
        (let cs = serve_calls env l (length calls) xs; (v, g) = fold (abs_call udp) cs (v0, [])
         in (filter (\<lambda>y. y \<notin> set g) v, calls @ cs @ map SClose (filter (\<lambda>y. y \<in> set g) v))))"

text \<open>
  An answer of \<open>select\<close> that reports some monitored sockets, fewer than the block has room for, and
  leaves behind them one that it does not report.
\<close>

definition answer_ok :: "fd_set_pri \<Rightarrow> select_answer \<Rightarrow> bool" where
  "answer_ok f ans =
     (let ready = sa_ready ans EVENT_READ
      in sock_count f \<noteq> 0 \<and> sa_ret ans \<noteq> -1 \<and> sa_ret ans \<noteq> 0 \<and> list_all (\<lambda>x. x \<in> set (ready_of f)) ready \<and>
         sa_ready ans EVENT_WRITE = [] \<and> sa_ready ans EVENT_EXCEPTION = [] \<and>
         length ready < length (fd_sock_array f) \<and> length ready < FD_SETSIZE \<and>
         fd_sock_array (select_block ready (sa_rest ans EVENT_READ) f) ! length ready \<notin> set ready)"

lemma answer_served:
  assumes "answer_ok f ans"
  shows "served (select_block (sa_ready ans EVENT_READ) (sa_rest ans EVENT_READ) f) = sa_ready ans EVENT_READ"
proof -
  let ?R = "select_block (sa_ready ans EVENT_READ) (sa_rest ans EVENT_READ) f"
  have l: "length (sa_ready ans EVENT_READ) < FD_SETSIZE" "length (sa_ready ans EVENT_READ) < length (fd_sock_array f)"
    using assms by (simp_all add: answer_ok_def Let_def)
  have R: "unat (sock_count ?R) = length (sa_ready ans EVENT_READ)"
      "length (fd_sock_array ?R) = length (fd_sock_array f)" "ready_of ?R = sa_ready ans EVENT_READ"
    using l by (auto simp: FD_SETSIZE_def intro!: select_block_view)
  then show ?thesis using served_spec [of ?R] l assms by (simp add: answer_ok_def Let_def)
qed

fun answers_fit :: "select_env \<Rightarrow> Json \<Rightarrow> select_answer list \<Rightarrow> select_core \<Rightarrow> bool" where
  "answers_fit env cfg [] s = True"
| "answers_fit env cfg (ans # rest) s =
     (length (fst (conns s)) + FD_SETSIZE < 2 ^ 31 \<and>
      (case fd_view s EVENT_READ of None \<Rightarrow> False | Some f \<Rightarrow> answer_ok f ans) \<and>
      (case select_turn env cfg ans s of Inl e \<Rightarrow> True | Inr s' \<Rightarrow> answers_fit env cfg rest s'))"

text \<open>A turn with such an answer: its calls, and the room in the block it leaves.\<close>

lemma turn_room:
  assumes ok: "sel_ok cfg s" and env: "mem_ok env" "select_sizes_ok cfg" "recv_ok env cfg"
    and f: "fd_view s EVENT_READ = Some f" and a: "answer_ok f ans"
    and len: "length (fst (conns s)) + FD_SETSIZE < 2 ^ 31"
    and vg: "(v, g) = fold (abs_call (udp_port s))
       (serve_calls env (sel_listen_socket s) (length (sel_log s)) (sa_ready ans EVENT_READ)) (conns s)"
  shows "\<exists>s'. select_turn env cfg ans s = Inr s' \<and> sel_ok cfg s' \<and> same_flags s s' \<and>
     fst (conns s') = filter (\<lambda>x. x \<notin> set g) v \<and>
     sel_log s' = sel_log s @ serve_calls env (sel_listen_socket s) (length (sel_log s)) (sa_ready ans EVENT_READ) @
       map SClose (filter (\<lambda>x. x \<in> set g) v) \<and>
     holds s' EVENT_READ (fst (conns s')) (length v - length g) \<and> set g \<subseteq> set v \<and> distinct g"
proof -
  note A = a [unfolded answer_ok_def Let_def]
  let ?xs = "sa_ready ans EVENT_READ"
  have r: "set ?xs \<subseteq> set (ready_of f)" using A by (auto simp: list_all_iff)
  have n: "length ?xs < 2 ^ 32" using A by (simp add: FD_SETSIZE_def)
  let ?cs = "serve_calls env (sel_listen_socket s) (length (sel_log s)) ?xs"
  have "?cs = serve_calls env (sel_listen_socket s) (length (sel_log s))
      (served (select_block ?xs (sa_rest ans EVENT_READ) f))"
    by (simp add: answer_served [OF a])
  from select_turn_ok [OF ok env f _ _ _ r _ _ _ n len this] A obtain s' v' g' where
    s': "select_turn env cfg ans s = Inr s'" "sel_ok cfg s'" "(v', g') = fold (abs_call (udp_port s)) ?cs (conns s)"
     "conns s' = (filter (\<lambda>x. x \<notin> set g') v', [])"
     "sel_log s' = sel_log s @ ?cs @ map SClose (filter (\<lambda>x. x \<in> set g') v')" "same_flags s s'"
     "holds s' EVENT_READ (fst (conns s')) (length v' - length g')"
    by blast
  have e: "v' = v" "g' = g" using s'(3) vg by (metis prod.inject)+
  have c: "conns s = (client_socket_vec s EVENT_READ, [])" "set (ready_of f) \<subseteq> set (client_socket_vec s EVENT_READ)"
    using ok f by (auto simp: sel_ok_def conns_def)
  note fa = fold_abs_call [OF vg [symmetric, unfolded c(1)]]
  have "handled (sel_listen_socket s) ` set ?cs = set ?xs" by (metis serve_calls_props(2) list.set_map)
  then have "set g \<subseteq> set v" using fa(2) fa(4) [of "sel_listen_socket s"] r c(2) by auto
  then show ?thesis using s' fa(3) unfolding e by (intro exI [of _ s']) simp
qed

lemma turn_abs:
  assumes "sel_ok cfg s" and "mem_ok env" "select_sizes_ok cfg" "recv_ok env cfg"
    and "fd_view s EVENT_READ = Some f" and "answer_ok f ans"
    and "length (fst (conns s)) + FD_SETSIZE < 2 ^ 31"
  shows "\<exists>s'. select_turn env cfg ans s = Inr s' \<and> sel_ok cfg s' \<and> same_flags s s' \<and>
     (fst (conns s'), sel_log s') =
       abs_turn env (sel_listen_socket s) (udp_port s) (sa_ready ans EVENT_READ) (fst (conns s), sel_log s)"
proof -
  let ?cs = "serve_calls env (sel_listen_socket s) (length (sel_log s)) (sa_ready ans EVENT_READ)"
  have c: "conns s = (fst (conns s), [])" using assms(1) by (auto simp: sel_ok_def conns_def)
  obtain v g where vg: "(v, g) = fold (abs_call (udp_port s)) ?cs (conns s)" by (metis surj_pair)
  obtain s' where s': "select_turn env cfg ans s = Inr s'" "sel_ok cfg s'" "same_flags s s'"
      "fst (conns s') = filter (\<lambda>x. x \<notin> set g) v"
      "sel_log s' = sel_log s @ ?cs @ map SClose (filter (\<lambda>x. x \<in> set g) v)"
    using turn_room [OF assms vg] by blast
  have "fold (abs_call (udp_port s)) ?cs (fst (conns s), []) = (v, g)" using vg c by simp
  then have "abs_turn env (sel_listen_socket s) (udp_port s) (sa_ready ans EVENT_READ) (fst (conns s), sel_log s) =
      (filter (\<lambda>x. x \<notin> set g) v, sel_log s @ ?cs @ map SClose (filter (\<lambda>x. x \<in> set g) v))"
    by (simp add: abs_turn_def)
  then show ?thesis using s' by (intro exI [of _ s']) simp
qed

lemma service_runs:
  "sel_ok cfg s \<Longrightarrow> mem_ok env \<Longrightarrow> select_sizes_ok cfg \<Longrightarrow> recv_ok env cfg \<Longrightarrow> \<not> end_thread s \<Longrightarrow>
   answers_fit env cfg anss s \<Longrightarrow>
   \<exists>s'. Select_service env cfg anss s = Inr (False, s') \<and> sel_ok cfg s' \<and> same_flags s s' \<and>
     (fst (conns s'), sel_log s') = fold (abs_turn env (sel_listen_socket s) (udp_port s))
       (map (\<lambda>ans. sa_ready ans EVENT_READ) anss) (fst (conns s), sel_log s)"
proof (induction anss arbitrary: s)
  case Nil
  then show ?case by (intro exI [of _ s]) (simp add: same_flags_def)
next
  case (Cons ans anss)
  obtain f where f: "fd_view s EVENT_READ = Some f" "answer_ok f ans"
      "length (fst (conns s)) + FD_SETSIZE < 2 ^ 31"
    using Cons.prems(6) by (auto split: option.splits)
  from turn_abs [OF Cons.prems(1-4) f] obtain s1 where
    1: "select_turn env cfg ans s = Inr s1" "sel_ok cfg s1" "same_flags s s1" "(fst (conns s1), sel_log s1) =
         abs_turn env (sel_listen_socket s) (udp_port s) (sa_ready ans EVENT_READ) (fst (conns s), sel_log s)"
    by blast
  have e: "\<not> end_thread s1" "udp_port s1 = udp_port s" "sel_listen_socket s1 = sel_listen_socket s"
    using 1(3) Cons.prems(5) by (simp_all add: same_flags_def)
  have "answers_fit env cfg anss s1" using Cons.prems(6) 1(1) by simp
  from Cons.IH [OF 1(2) Cons.prems(2-4) e(1) this] obtain s' where
    2: "Select_service env cfg anss s1 = Inr (False, s')" "sel_ok cfg s'" "same_flags s1 s'"
       "(fst (conns s'), sel_log s') = fold (abs_turn env (sel_listen_socket s1) (udp_port s1))
         (map (\<lambda>ans. sa_ready ans EVENT_READ) anss) (fst (conns s1), sel_log s1)"
    by blast
  have "same_flags s s'" using 1(3) 2(3) by (simp add: same_flags_def)
  then show ?case using Cons.prems(5) 1 2 e by (intro exI [of _ s']) simp
qed

section \<open>Properties\<close>

text \<open>C7: The service refines the abstract one over any number of turns. From a state in order, and as long as
  \<open>select\<close> reports some of the monitored sockets, fewer than its block has room for, and leaves none of
  them behind the others, the thread stays in its loop, in a state in order; its connections and all the
  calls it made are those that the abstract turns yield on the reported sockets alone.\<close>

theorem select_service_refines:
  assumes "sel_ok cfg s" and "mem_ok env" and "select_sizes_ok cfg" and "recv_ok env cfg"
    and "\<not> end_thread s" and "answers_fit env cfg anss s"
  shows "\<exists>s'. Select_service env cfg anss s = Inr (False, s') \<and> sel_ok cfg s' \<and>
     (fst (conns s'), sel_log s') = fold (abs_turn env (sel_listen_socket s) (udp_port s))
       (map (\<lambda>ans. sa_ready ans EVENT_READ) anss) (fst (conns s), sel_log s)"
  using service_runs [OF assms] by blast

lemma sel_demo_fit:
  assumes "sel_ok (sel_demo_cfg 4) s" and "conns s = ([50], [])"
    and "fd_view s EVENT_READ = Some f" "sock_count f = 1" "ready_of f = [50]" "length (fd_sock_array f) = 4"
  shows "answers_fit sel_demo_env (sel_demo_cfg 4) [(sel_demo_answer [50])\<lparr>sa_rest := \<lambda>_. [0]\<rparr>] s"
proof -
  have "answer_ok f ((sel_demo_answer [50])\<lparr>sa_rest := \<lambda>_. [0]\<rparr>)"
    using assms(4-6) by (simp add: answer_ok_def sel_demo_answer_def select_block_def Let_def FD_SETSIZE_def)
  then show ?thesis using assms(2,3) by (simp add: FD_SETSIZE_def split: sum.split)
qed

theorem select_service_refines_witness:
  "\<exists>s s'. select_Initialize sel_demo_env (sel_demo_cfg 4) select_core_init = Inr (True, s) \<and>
     Select_service sel_demo_env (sel_demo_cfg 4) [(sel_demo_answer [50])\<lparr>sa_rest := \<lambda>_. [0]\<rparr>]
       (RegisterCallback SelectCallBack s) = Inr (False, s') \<and>
     (fst (conns s'), sel_log s') = ([50, 60], [SAccept 60])"
proof -
  obtain s f where s: "select_Initialize sel_demo_env (sel_demo_cfg 4) select_core_init = Inr (True, s)"
      "sel_ok (sel_demo_cfg 4) (RegisterCallback SelectCallBack s)" "conns s = ([50], [])"
      "sel_listen_socket s = 50" "sel_log s = []" "\<not> end_thread s"
      "fd_view (RegisterCallback SelectCallBack s) EVENT_READ = Some f" "sock_count f = 1"
      "ready_of f = [50]" "length (fd_sock_array f) = 4"
    using sel_demo_state [of 4] by auto
  have r: "conns (RegisterCallback SelectCallBack s) = ([50], [])" "\<not> end_thread (RegisterCallback SelectCallBack s)"
      "sel_listen_socket (RegisterCallback SelectCallBack s) = 50" "sel_log (RegisterCallback SelectCallBack s) = []"
    using s(3-6) by (simp_all add: conns_def RegisterCallback_def)
  have "abs_turn sel_demo_env 50 udp [50] ([50], []) = ([50, 60], [SAccept 60])" for udp
    by (simp add: abs_turn_def serve_call_def sel_demo_env_def)
  with select_service_refines [OF s(2) sel_demo_ok r(2) sel_demo_fit [OF s(2) r(1) s(7-10)]] r s(1)
  show ?thesis by (auto simp: sel_demo_answer_def)
qed

text \<open>C8: A turn rebuilds its block with room for the connections that remain and no more. So if in the next
  turn all of them are ready, the loop reads behind the block: a server that no client is connected to,
  apart from one that has just started, does not survive the next connection.\<close>

theorem rebuilt_block_out_of_bounds:
  assumes "sel_ok cfg s" and "mem_ok env" and "select_sizes_ok cfg" and "recv_ok env cfg"
    and "\<not> end_thread s" and "answers_fit env cfg [a1] s"
    and "(v, g) = fold (abs_call (udp_port s))
       (serve_calls env (sel_listen_socket s) (length (sel_log s)) (sa_ready a1 EVENT_READ)) (conns s)"
    and "distinct v" and "sel_listen_socket s \<in> set v" and "sel_listen_socket s \<notin> set g"
    and "length v < FD_SETSIZE" and "sa_ret a2 \<noteq> -1" and "sa_ret a2 \<noteq> 0"
    and "set (sa_ready a2 EVENT_READ) = set v - set g" and "distinct (sa_ready a2 EVENT_READ)"
  shows "Select_service env cfg [a1, a2] s = Inl OutOfBounds"
proof -
  let ?l = "sel_listen_socket s"
  obtain f where f: "fd_view s EVENT_READ = Some f" "answer_ok f a1" "length (fst (conns s)) + FD_SETSIZE < 2 ^ 31"
    using assms(6) by (auto split: option.splits)
  obtain s' where s': "select_turn env cfg a1 s = Inr s'" "sel_ok cfg s'" "same_flags s s'"
      "holds s' EVENT_READ (fst (conns s')) (length v - length g)" "fst (conns s') = filter (\<lambda>x. x \<notin> set g) v"
      "set g \<subseteq> set v" "distinct g"
    using turn_room [OF assms(1-4) f assms(7)] by auto
  have n: "length (sa_ready a2 EVENT_READ) = length v - length g"
    using assms(8,14,15) s'(6,7) by (metis card_Diff_subset distinct_card finite_set)
  obtain f2 where f2: "fd_view s' EVENT_READ = Some f2" "length (fd_sock_array f2) = length v - length g"
      "unat (sock_count f2) = length (filter (\<lambda>x. x \<notin> set g) v)"
    using s'(4,5) by (auto simp: holds_def)
  have "filter (\<lambda>x. x \<notin> set g) v \<noteq> []" using assms(9,10) by (auto simp: filter_empty_conv)
  then have "sock_count f2 \<noteq> 0" using f2(3) by (auto simp: unat_eq_zero)
  from turn_full_block [OF s'(2) assms(3,4) f2(1) this assms(12,13)] n f2(2) assms(11)
  have "select_turn env cfg a2 s' = Inl OutOfBounds" by simp
  moreover have "\<not> end_thread s'" using s'(3) assms(5) by (simp add: same_flags_def)
  ultimately show ?thesis using s'(1) assms(5) by simp
qed

theorem rebuilt_block_out_of_bounds_witness:
  "\<exists>s. select_Initialize sel_demo_env (sel_demo_cfg 4) select_core_init = Inr (True, s) \<and>
     Select_service sel_demo_env (sel_demo_cfg 4)
       [(sel_demo_answer [50])\<lparr>sa_rest := \<lambda>_. [0]\<rparr>, sel_demo_answer [60, 50]]
       (RegisterCallback SelectCallBack s) = Inl OutOfBounds"
proof -
  obtain s f where s: "select_Initialize sel_demo_env (sel_demo_cfg 4) select_core_init = Inr (True, s)"
      "sel_ok (sel_demo_cfg 4) (RegisterCallback SelectCallBack s)" "conns s = ([50], [])"
      "sel_listen_socket s = 50" "sel_log s = []" "\<not> end_thread s"
      "fd_view (RegisterCallback SelectCallBack s) EVENT_READ = Some f" "sock_count f = 1"
      "ready_of f = [50]" "length (fd_sock_array f) = 4"
    using sel_demo_state [of 4] by auto
  have r: "conns (RegisterCallback SelectCallBack s) = ([50], [])" "\<not> end_thread (RegisterCallback SelectCallBack s)"
      "sel_listen_socket (RegisterCallback SelectCallBack s) = 50" "sel_log (RegisterCallback SelectCallBack s) = []"
    using s(3-6) by (simp_all add: conns_def RegisterCallback_def)
  have a: "sa_ready (sel_demo_answer xs) EVENT_READ = xs" "sa_ret (sel_demo_answer xs) = 1" for xs
    by (simp_all add: sel_demo_answer_def)
  have "([50, 60], []) = fold (abs_call udp) (serve_calls sel_demo_env 50 0 [50]) ([50], [])" for udp
    by (simp add: serve_call_def sel_demo_env_def)
  then have "Select_service sel_demo_env (sel_demo_cfg 4)
       [(sel_demo_answer [50])\<lparr>sa_rest := \<lambda>_. [0]\<rparr>, sel_demo_answer [60, 50]]
       (RegisterCallback SelectCallBack s) = Inl OutOfBounds"
    by (intro rebuilt_block_out_of_bounds [OF s(2) sel_demo_ok r(2) sel_demo_fit [OF s(2) r(1) s(7-10)],
          where v = "[50, 60]" and g = "[]"])
      (simp_all add: r a FD_SETSIZE_def insert_commute)
  then show ?thesis using s(1) by blast
qed

end
