(* ===== verification/Epoll.thy ===== *)
theory Epoll
  imports GT_Interfaces GT_Config GT_Log
begin

unbundle bit_operations_syntax

text \<open>
  \<open>GTEpollWrapper\<close>, the Linux back end, with the socket options of \<open>GTEpoll_Util\<close> and the exported
  functions of \<open>GTEpoll_Interface.cpp\<close>. The client map is a \<open>std::map\<close>: a list in the order of its
  keys, whose shared pointers have no other owner, so that it holds the states themselves. Blocks of
  bytes live in the heap \<open>ep_blocks\<close>, \<open>None\<close> when they were freed; \<open>new char[]\<close> succeeds. A callback is
  a value of the type \<open>'cb\<close>. The system answers through \<open>epoll_env\<close>, indexed by the length of the
  log. A result \<open>None\<close> is a call that does not return.
\<close>

section \<open>Ordered maps\<close>

type_synonym ('k, 'v) omap = "('k \<times> 'v) list"

definition om_find :: "'k \<Rightarrow> ('k, 'v) omap \<Rightarrow> 'v option" where
  "om_find k m = map_of m k"

fun om_insert :: "'k :: linorder \<Rightarrow> 'v \<Rightarrow> ('k, 'v) omap \<Rightarrow> ('k, 'v) omap" where
  "om_insert k v [] = [(k, v)]"
| "om_insert k v (e # m) =
     (if k < fst e then (k, v) # e # m else if k = fst e then e # m else e # om_insert k v m)"

definition om_erase :: "'k \<Rightarrow> ('k, 'v) omap \<Rightarrow> ('k, 'v) omap" where
  "om_erase k m = filter (\<lambda>e. fst e \<noteq> k) m"

definition om_update :: "'k \<Rightarrow> ('v \<Rightarrow> 'v) \<Rightarrow> ('k, 'v) omap \<Rightarrow> ('k, 'v) omap" where
  "om_update k f m = map (\<lambda>(k', v). (k', if k' = k then f v else v)) m"

definition om_ok :: "('k :: linorder, 'v) omap \<Rightarrow> bool" where
  "om_ok m = sorted_wrt (<) (map fst m)"

lemma om_Nil: "om_ok []" "om_find k [] = None"
  by (simp_all add: om_ok_def om_find_def)

lemma om_ok_Cons: "om_ok (e # m) \<longleftrightarrow> (\<forall>x \<in> set m. fst e < fst x) \<and> om_ok m"
  by (simp add: om_ok_def)

lemma fst_om_insert: "fst ` set (om_insert k v m) = insert k (fst ` set m)"
  by (induction m) auto

lemma om_ok_insert: "om_ok m \<Longrightarrow> om_ok (om_insert k v m)"
proof (induction m)
  case (Cons e m)
  note p = Cons.prems [unfolded om_ok_Cons]
  consider "k < fst e" | "k = fst e" | "fst e < k" by fastforce
  then show ?case
  proof cases
    case 1
    have "k < fst x" if "x \<in> set m" for x
    proof -
      have "fst e < fst x" using that p by simp
      with 1 show ?thesis by (rule less_trans)
    qed
    then show ?thesis using 1 Cons.prems by (simp add: om_ok_Cons)
  next
    case 3
    have "fst e < fst x" if "x \<in> set (om_insert k v m)" for x
    proof -
      have "fst x \<in> insert k (fst ` set m)" using imageI [OF that, of fst] by (simp add: fst_om_insert)
      then show ?thesis using 3 p by auto
    qed
    moreover have "om_ok (om_insert k v m)" using Cons.IH p by blast
    moreover have "\<not> k < fst e" "k \<noteq> fst e" using 3 by auto
    ultimately show ?thesis by (simp add: om_ok_Cons)
  qed (use Cons.prems in simp)
qed (simp add: om_ok_def)

lemma om_find_insert:
  "om_ok m \<Longrightarrow> om_find k (om_insert k' v m) = (if k = k' \<and> om_find k m = None then Some v else om_find k m)"
proof (induction m)
  case (Cons e m)
  have "map_of m k = None" if "k < fst e"
    using that Cons.prems by (force simp: om_ok_Cons map_of_eq_None_iff)
  then show ?case using Cons by (cases e) (auto simp: om_find_def om_ok_Cons)
qed (simp add: om_find_def)

lemma om_find_erase: "om_find k (om_erase k' m) = (if k = k' then None else om_find k m)"
  by (induction m) (auto simp: om_find_def om_erase_def)

lemma om_ok_erase: "om_ok m \<Longrightarrow> om_ok (om_erase k m)"
  by (induction m) (auto simp: om_ok_Cons om_erase_def)

lemma om_find_update: "om_find k (om_update k' f m) = (if k = k' then map_option f (om_find k m) else om_find k m)"
  by (induction m) (auto simp: om_find_def om_update_def)

interpretation om: kv_store om_find om_insert om_erase "[]" om_ok
  by unfold_locales (auto simp: om_Nil om_find_insert om_find_erase om_ok_insert om_ok_erase)

section \<open>State\<close>

record sock_state =
  is_read_finished :: bool
  is_write_finished :: bool
  client_fd :: cint
  content_remain_len :: dword
  client_port :: "16 word"
  client_ip :: "byte list"
  unsent :: "addr option"                 \<comment> \<open>\<open>content_\<close>\<close>

text \<open>The constructor leaves \<open>port\<close> and \<open>ip\<close> as they are; they are written right after it.\<close>

definition new_sock_state :: sock_state where
  "new_sock_state = \<lparr>is_read_finished = True, is_write_finished = True, client_fd = -1,
     content_remain_len = -1, client_port = 0, client_ip = replicate 20 0, unsent = None\<rparr>"

datatype 'cb ep_call =
    ESocket cint cint cint cint           \<comment> \<open>domain, type, protocol and the result\<close>
  | EFcntl cint bool
  | ESockOpt cint cint bool
  | EBind cint "16 word" cint
  | ECreate cint
  | ECtlAdd cint cint cint
  | EAccept cint
  | ERecv cint "64 word"
  | ESend cint "byte list" "64 word"
  | EShutdown cint
  | EClose cint
  | ECallRead 'cb "byte list"
  | ECallConn 'cb cint

record recv_answer =
  ra_ret :: "64 word"
  ra_errno :: cint
  ra_data :: "byte list"

record epoll_env =
  epe_fs :: "string \<Rightarrow> os_file option"
  epe_parse :: "string \<Rightarrow> Json \<Rightarrow> bool \<times> Json"
  epe_folder :: string
  epe_hardware :: cint                      \<comment> \<open>\<open>hardware_concurrency\<close>\<close>
  epe_fcntl_get :: "nat \<Rightarrow> cint"
  epe_fcntl_set :: "nat \<Rightarrow> cint"
  epe_setsockopt :: "nat \<Rightarrow> cint"
  epe_socket :: "nat \<Rightarrow> cint"
  epe_bind :: "nat \<Rightarrow> cint"
  epe_create :: "nat \<Rightarrow> cint"
  epe_ctl :: "nat \<Rightarrow> cint"
  epe_accept :: "nat \<Rightarrow> cint"
  epe_peer :: "nat \<Rightarrow> byte list \<times> 16 word"
  epe_recv :: "nat \<Rightarrow> recv_answer"
  epe_send :: "nat \<Rightarrow> 64 word \<times> cint"       \<comment> \<open>the result and \<open>errno\<close> after the call\<close>

record 'cb epoll =
  listen_port :: "16 word"
  thread_or_proc_num :: cint
  use_multi_process :: bool
  max_events_num :: cint
  ep_cfg_path :: string
  client_state :: "(int, sock_state) omap"
  ep_read_cb :: "'cb option"
  ep_conn_cb :: "'cb option"
  ep_blocks :: "addr \<Rightarrow> byte list option"
  next_ep_block :: addr
  ep_cfg :: cfg_state
  ep_glog :: log_state
  ep_log :: "'cb ep_call list"

definition epoll_init :: "'cb epoll" where
  "epoll_init = \<lparr>listen_port = 0, thread_or_proc_num = 0, use_multi_process = False, max_events_num = 0,
     ep_cfg_path = '''', client_state = [], ep_read_cb = None, ep_conn_cb = None,
     ep_blocks = (\<lambda>_. None), next_ep_block = 1, ep_cfg = cfg_init, ep_glog = log_init, ep_log = []\<rparr>"

definition ep_os :: "'cb ep_call \<Rightarrow> 'cb epoll \<Rightarrow> 'cb epoll" where
  "ep_os c s = s\<lparr>ep_log := ep_log s @ [c]\<rparr>"

abbreviation ep_now :: "'cb epoll \<Rightarrow> nat" where
  "ep_now s \<equiv> length (ep_log s)"

definition EAGAIN :: cint where "EAGAIN = 11"
definition EPOLLIN :: dword where "EPOLLIN = 1"
definition EPOLLOUT :: dword where "EPOLLOUT = 4"
definition EPOLLERR :: dword where "EPOLLERR = 8"
definition EPOLLHUP :: dword where "EPOLLHUP = 16"

section \<open>Initialisation and callbacks\<close>

definition initializeCfgAndLog :: "epoll_env \<Rightarrow> 'cb epoll \<Rightarrow> json_error + (bool \<times> 'cb epoll)" where
  "initializeCfgAndLog env s =
     (let (ret, c0) = LoadCfg (epe_fs env) (epe_parse env) (ep_cfg_path s) (ep_cfg s)
      in if \<not> ret then Inr (False, s\<lparr>ep_cfg := c0\<rparr>)
         else
           case ReadIntCfg ''server_cfg'' ''server_port'' 5000 c0 of Inl e \<Rightarrow> Inl e
         | Inr (p, c1) \<Rightarrow>
             case ReadBoolCfg ''epoll_control'' ''use_multi_process'' False c1 of Inl e \<Rightarrow> Inl e
         | Inr (u, c2) \<Rightarrow>
             case ReadIntCfg ''epoll_control'' ''event_num_pertime'' 128 c2 of Inl e \<Rightarrow> Inl e
         | Inr (m, c3) \<Rightarrow>
             case ReadIntCfg ''epoll_control'' ''thread_or_process_num'' (epe_hardware env) c3 of Inl e \<Rightarrow> Inl e
         | Inr (t, c4) \<Rightarrow>
             let (ret2, l) = GT_DefaultLogInitialize (epe_folder env) (ep_glog s)
             in Inr (ret2, s\<lparr>ep_cfg := c4, listen_port := ucast p, use_multi_process := u, max_events_num := m,
                             thread_or_proc_num := t, ep_glog := l\<rparr>))"

definition epoll_initialize :: "epoll_env \<Rightarrow> string \<Rightarrow> 'cb epoll \<Rightarrow> json_error + (bool \<times> 'cb epoll)" where
  "epoll_initialize env cfgpath s = initializeCfgAndLog env (s\<lparr>ep_cfg_path := cfgpath\<rparr>)"

definition registerCallBack :: "GTEPOLL_CALLBACK_TYPE \<Rightarrow> 'cb option \<Rightarrow> 'cb epoll \<Rightarrow> 'cb epoll" where
  "registerCallBack type cb s =
     (case type of GTEPOLL_READ \<Rightarrow> s\<lparr>ep_read_cb := cb\<rparr> | GTEPOLL_CONN \<Rightarrow> s\<lparr>ep_conn_cb := cb\<rparr>)"

definition unRegisterCallBack :: "GTEPOLL_CALLBACK_TYPE \<Rightarrow> 'cb epoll \<Rightarrow> 'cb epoll" where
  "unRegisterCallBack type s =
     (case type of GTEPOLL_READ \<Rightarrow> s\<lparr>ep_read_cb := None\<rparr> | GTEPOLL_CONN \<Rightarrow> s\<lparr>ep_conn_cb := None\<rparr>)"

section \<open>The listening socket\<close>

definition setsocket2noblock :: "epoll_env \<Rightarrow> cint \<Rightarrow> 'cb epoll \<Rightarrow> bool \<times> 'cb epoll" where
  "setsocket2noblock env fd s =
     (let ok = (if epe_fcntl_get env (ep_now s) = -1 then False
                else if epe_fcntl_set env (ep_now s) = -1 then False else True)
      in (ok, ep_os (EFcntl fd ok) s))"

definition setsockop :: "epoll_env \<Rightarrow> cint \<Rightarrow> cint \<Rightarrow> 'cb epoll \<Rightarrow> bool \<times> 'cb epoll" where
  "setsockop env fd name s =
     (let ok = (epe_setsockopt env (ep_now s) = 0) in (ok, ep_os (ESockOpt fd name ok) s))"

text \<open>
  \<open>socket(AF_INET, IPPROTO_TCP, 0)\<close>: the protocol 6 stands in the place of the type. What a step
  that fails leaves undone is not reported: the descriptor is returned in any case.
\<close>

definition createListenSock :: "epoll_env \<Rightarrow> 'cb epoll \<Rightarrow> cint \<times> 'cb epoll" where
  "createListenSock env s =
     (let listen_fd = epe_socket env (ep_now s);
          s0 = ep_os (ESocket 2 6 0 listen_fd) s;
          (r1, s1) = setsocket2noblock env listen_fd s0
      in if \<not> r1 then (listen_fd, s1)
         else
           let (r2, s2) = setsockop env listen_fd 2 s1
           in if \<not> r2 then (listen_fd, s2)
              else
                let (r3, s3) = setsockop env listen_fd 15 s2
                in if \<not> r3 then (listen_fd, s3)
                   else (listen_fd, ep_os (EBind listen_fd (htons (ucast (listen_port s3))) (epe_bind env (ep_now s3))) s3))"

section \<open>Clients\<close>

definition upd_client :: "cint \<Rightarrow> (sock_state \<Rightarrow> sock_state) \<Rightarrow> 'cb epoll \<Rightarrow> 'cb epoll" where
  "upd_client fd f s = s\<lparr>client_state := om_update (sint fd) f (client_state s)\<rparr>"

definition free_ep_block :: "addr option \<Rightarrow> 'cb epoll \<Rightarrow> 'cb epoll result" where
  "free_ep_block p s =
     (case p of None \<Rightarrow> Inr s
      | Some a \<Rightarrow> (case ep_blocks s a of
                     None \<Rightarrow> Inl UseAfterFree
                   | Some _ \<Rightarrow> Inr (s\<lparr>ep_blocks := (ep_blocks s)(a := None)\<rparr>)))"

text \<open>
  Keeping what was not sent: the old block is deleted, a new one made, and \<open>len - sl\<close> bytes from
  \<open>data + sl\<close> copied to it, where \<open>data\<close> may be the block that was just deleted.
\<close>

definition keep_rest :: "cint \<Rightarrow> addr \<Rightarrow> size_t \<Rightarrow> 64 word \<Rightarrow> addr option \<Rightarrow> 'cb epoll \<Rightarrow> 'cb epoll result" where
  "keep_rest fd data len sl old s =
     bindR (free_ep_block old (upd_client fd
         (\<lambda>c. c\<lparr>is_write_finished := False, content_remain_len := ucast (len - sl)\<rparr>) s)) (\<lambda>s1.
       let a = next_ep_block s1;
           s2 = upd_client fd (\<lambda>c. c\<lparr>unsent := Some a\<rparr>) (s1\<lparr>next_ep_block := Suc a\<rparr>)
       in case ep_blocks s2 data of
            None \<Rightarrow> Inl UseAfterFree
          | Some bs \<Rightarrow>
              if sint sl < 0 \<or> length bs < unat sl + unat (len - sl) then Inl OutOfBounds
              else Inr (s2\<lparr>ep_blocks := (ep_blocks s2)(a \<mapsto> take (unat (len - sl)) (drop (unat sl) bs))\<rparr>))"

definition sendData :: "epoll_env \<Rightarrow> cint \<Rightarrow> addr option \<Rightarrow> size_t \<Rightarrow> 'cb epoll \<Rightarrow> 'cb epoll result" where
  "sendData env fd data len s =
     (case data of
        None \<Rightarrow> Inr s
      | Some d \<Rightarrow>
          if len = 0 then Inr s
          else
            (case om_find (sint fd) (client_state s) of
               None \<Rightarrow> Inr s
             | Some c \<Rightarrow>
                 (case ep_blocks s d of
                    None \<Rightarrow> Inl UseAfterFree
                  | Some bs \<Rightarrow>
                      if length bs < unat len then Inl OutOfBounds
                      else
                        (let (sl, err) = epe_send env (ep_now s);
                             s1 = ep_os (ESend fd (take (unat len) bs) sl) s
                         in if sl = len then Inr (upd_client fd (\<lambda>c. c\<lparr>is_write_finished := True\<rparr>) s1)
                            else if err = EAGAIN then keep_rest fd d len sl (unsent c) s1
                            else Inr s1))))"

text \<open>The guard of \<open>push2ClientMap\<close> lets through what is in the map already, and \<open>insert\<close> keeps that.\<close>

definition push2ClientMap :: "cint \<Rightarrow> byte list \<Rightarrow> 16 word \<Rightarrow> 'cb epoll \<Rightarrow> 'cb epoll" where
  "push2ClientMap fd ip port s =
     (if om_find (sint fd) (client_state s) \<noteq> None then
        (let ss = new_sock_state\<lparr>client_fd := fd, client_ip := ip, client_port := port\<rparr>
         in s\<lparr>client_state := om_insert (sint fd) ss (client_state s)\<rparr>)
      else s)"

definition rmClientFromMap :: "cint \<Rightarrow> 'cb epoll \<Rightarrow> 'cb epoll result" where
  "rmClientFromMap fd s =
     (case om_find (sint fd) (client_state s) of
        None \<Rightarrow> Inr s
      | Some c \<Rightarrow> bindR (free_ep_block (unsent c) s) (\<lambda>s1.
                   Inr (s1\<lparr>client_state := om_erase (sint fd) (client_state s1)\<rparr>)))"

definition procSendEvents :: "epoll_env \<Rightarrow> cint \<Rightarrow> 'cb epoll \<Rightarrow> 'cb epoll result" where
  "procSendEvents env fd s =
     (case om_find (sint fd) (client_state s) of
        None \<Rightarrow> Inr s
      | Some c \<Rightarrow> if \<not> is_write_finished c then sendData env fd (unsent c) (ucast (content_remain_len c)) s
                  else Inr s)"

text \<open>\<open>epoll_ctl\<close> returns zero when it succeeded; that is the case in which the connection is closed.\<close>

definition addNewConn2Epoll :: "epoll_env \<Rightarrow> cint \<Rightarrow> cint \<Rightarrow> byte list \<times> 16 word \<Rightarrow> 'cb epoll \<Rightarrow> bool \<times> 'cb epoll" where
  "addNewConn2Epoll env newconn epfd peer s =
     (let ret = epe_ctl env (ep_now s); s1 = ep_os (ECtlAdd epfd newconn ret) s
      in if ret = 0 then (False, ep_os (EClose newconn) s1)
         else (True, push2ClientMap newconn (fst peer) (snd peer) s1))"

section \<open>The worker\<close>

definition MAX_BUFFER :: nat where "MAX_BUFFER = 2048"

definition bindO :: "'a result option \<Rightarrow> ('a \<Rightarrow> 'b result option) \<Rightarrow> 'b result option" where
  "bindO m f = (case m of None \<Rightarrow> None | Some (Inl e) \<Rightarrow> Some (Inl e) | Some (Inr x) \<Rightarrow> f x)"

lemma bindO_eq_Inr: "bindO m f = Some (Inr y) \<longleftrightarrow> (\<exists>x. m = Some (Inr x) \<and> f x = Some (Inr y))"
  by (auto simp: bindO_def split: option.splits sum.splits)

lemma bindO_Inr [simp]: "bindO (Some (Inr x)) f = f x"
  by (simp add: bindO_def)

definition mark_read :: "cint \<Rightarrow> 'cb epoll \<Rightarrow> 'cb epoll" where
  "mark_read fd s = upd_client fd (\<lambda>c. c\<lparr>is_read_finished := True\<rparr>) s"

text \<open>
  The loop around \<open>recv\<close>: it may go on for ever, as long as full buffers arrive. What the last call
  received is not appended.
\<close>

partial_function (option) recv_loop ::
    "epoll_env \<Rightarrow> cint \<Rightarrow> byte list \<Rightarrow> 'cb epoll \<Rightarrow> (byte list \<times> 'cb epoll) result option" where
  "recv_loop env fd acc s =
     (let a = epe_recv env (ep_now s); s1 = ep_os (ERecv fd (ra_ret a)) s
      in if sint (ra_ret a) < int MAX_BUFFER \<or> ra_errno a = EAGAIN then Some (Inr (acc, mark_read fd s1))
         else if int MAX_BUFFER < sint (ra_ret a) then Some (Inl OutOfBounds)
         else recv_loop env fd (acc @ take MAX_BUFFER (ra_data a)) s1)"

type_synonym epoll_event = "cint \<times> dword"

definition has_event :: "dword \<Rightarrow> epoll_event \<Rightarrow> bool" where
  "has_event flag ev = (snd ev AND flag \<noteq> 0)"

definition accept_conn :: "epoll_env \<Rightarrow> cint \<Rightarrow> 'cb epoll \<Rightarrow> 'cb epoll result" where
  "accept_conn env epfd s =
     (let new_conn = epe_accept env (ep_now s); peer = epe_peer env (ep_now s);
          s1 = ep_os (EAccept new_conn) s;
          (_, s2) = setsocket2noblock env new_conn s1;
          (_, s3) = addNewConn2Epoll env new_conn epfd peer s2
      in case ep_conn_cb s3 of None \<Rightarrow> Inl NullDeref | Some f \<Rightarrow> Inr (ep_os (ECallConn f new_conn) s3))"

definition process_event :: "epoll_env \<Rightarrow> cint \<Rightarrow> cint \<Rightarrow> epoll_event \<Rightarrow> 'cb epoll \<Rightarrow> 'cb epoll result option" where
  "process_event env listen_fd epfd ev s =
     (if fst ev = listen_fd \<and> has_event EPOLLIN ev then Some (accept_conn env epfd s)
      else if has_event EPOLLIN ev then
        bindO (recv_loop env (fst ev) [] s) (\<lambda>(content, s1).
          Some (case ep_read_cb s1 of None \<Rightarrow> Inl NullDeref | Some f \<Rightarrow> Inr (ep_os (ECallRead f content) s1)))
      else if has_event EPOLLOUT ev then Some (procSendEvents env (fst ev) s)
      else if has_event EPOLLERR ev \<or> has_event EPOLLHUP ev then
        Some (rmClientFromMap (fst ev) (ep_os (EClose (fst ev)) (ep_os (EShutdown (fst ev)) s)))
      else Some (Inr s))"

fun events_loop :: "epoll_env \<Rightarrow> cint \<Rightarrow> cint \<Rightarrow> epoll_event list \<Rightarrow> 'cb epoll \<Rightarrow> 'cb epoll result option" where
  "events_loop env listen_fd epfd [] s = Some (Inr s)"
| "events_loop env listen_fd epfd (ev # evs) s =
     bindO (process_event env listen_fd epfd ev s) (events_loop env listen_fd epfd evs)"

text \<open>
  The loop around \<open>epoll_wait\<close>, over its answers: the result and the array of events. \<open>True\<close> when the
  loop was left, \<open>False\<close> when it is still running after the answers given.
\<close>

fun wait_loop :: "epoll_env \<Rightarrow> cint \<Rightarrow> cint \<Rightarrow> (cint \<times> epoll_event list) list \<Rightarrow> 'cb epoll
    \<Rightarrow> (bool \<times> 'cb epoll) result option" where
  "wait_loop env listen_fd epfd [] s = Some (Inr (False, s))"
| "wait_loop env listen_fd epfd ((ret, evs) # rest) s =
     (if ret = 0 then wait_loop env listen_fd epfd rest s
      else if ret = -1 then Some (Inr (True, s))
      else if 0 < sint ret then
        bindO (events_loop env listen_fd epfd (take (nat (sint ret)) evs) s) (wait_loop env listen_fd epfd rest)
      else wait_loop env listen_fd epfd rest s)"

text \<open>
  The array of events has \<open>max_events_num_\<close> elements, which must be positive. The label after the loop
  is where the jump goes when \<open>epoll_ctl\<close> returned zero.
\<close>

definition workerFunc :: "epoll_env \<Rightarrow> (cint \<times> epoll_event list) list \<Rightarrow> 'cb epoll \<Rightarrow> (bool \<times> 'cb epoll) result option" where
  "workerFunc env waits s =
     (let (listen_fd, s1) = createListenSock env s;
          epfd = epe_create env (ep_now s1);
          s2 = ep_os (ECreate epfd) s1
      in if sint (max_events_num s2) \<le> 0 then Some (Inl OutOfBounds)
         else
           let ret = epe_ctl env (ep_now s2);
               s3 = ep_os (ECtlAdd epfd listen_fd ret) s2;
               ctl_err = (\<lambda>t. ep_os (EClose epfd) (ep_os (EClose listen_fd) t))
           in if ret = 0 then Some (Inr (True, ctl_err s3))
              else bindO (wait_loop env listen_fd epfd waits s3) (\<lambda>(left, s4).
                     Some (Inr (left, if left then ctl_err s4 else s4))))"

section \<open>Starting and stopping\<close>

text \<open>
  The processes are named by the turns of the loop in which they and their ancestors were forked. A
  child runs the worker on its copy of the state and, when that returns, goes on with the loop of
  its parent. The result lists the processes that run a worker, with what the worker comes to in
  each; \<open>ok\<close> says whether a \<open>fork\<close> succeeds, \<open>env\<close> and \<open>waits\<close> are what the system answers in a process. The
  threads of the other variant share one state; only their number is described.
\<close>

type_synonym epoll_waits = "(cint \<times> epoll_event list) list"

fun fork_loop :: "(nat list \<Rightarrow> nat \<Rightarrow> bool) \<Rightarrow> (nat list \<Rightarrow> epoll_env) \<Rightarrow> (nat list \<Rightarrow> epoll_waits)
    \<Rightarrow> nat list \<Rightarrow> nat \<Rightarrow> nat \<Rightarrow> 'cb epoll \<Rightarrow> (nat list \<times> (bool \<times> 'cb epoll) result option) list" where
  "fork_loop ok env waits p i 0 s = []"
| "fork_loop ok env waits p i (Suc n) s =
     (if ok p i then
        (let q = p @ [i]; r = workerFunc (env q) (waits q) s
         in (q, r) # (case r of
                        Some (Inr (True, s')) \<Rightarrow> fork_loop ok env waits q (Suc i) n s'
                      | _ \<Rightarrow> []))
      else []) @ fork_loop ok env waits p (Suc i) n s"

definition startByMultiprocess :: "(nat list \<Rightarrow> nat \<Rightarrow> bool) \<Rightarrow> (nat list \<Rightarrow> epoll_env) \<Rightarrow> (nat list \<Rightarrow> epoll_waits)
    \<Rightarrow> 'cb epoll \<Rightarrow> (nat list \<times> (bool \<times> 'cb epoll) result option) list" where
  "startByMultiprocess ok env waits s = fork_loop ok env waits [] 0 (nat (sint (thread_or_proc_num s))) s"

definition startByMultithread :: "'cb epoll \<Rightarrow> nat list list" where
  "startByMultithread s = map (\<lambda>i. [i]) [0..<nat (sint (thread_or_proc_num s))]"

definition startService :: "(nat list \<Rightarrow> nat \<Rightarrow> bool) \<Rightarrow> (nat list \<Rightarrow> epoll_env) \<Rightarrow> (nat list \<Rightarrow> epoll_waits)
    \<Rightarrow> 'cb epoll \<Rightarrow> nat list list" where
  "startService ok env waits s =
     (if use_multi_process s then map fst (startByMultiprocess ok env waits s) else startByMultithread s)"

text \<open>\<open>stopService\<close> has a result and no \<open>return\<close>.\<close>

definition stopService :: "'cb epoll \<Rightarrow> bool result" where
  "stopService s = Inl MissingReturn"

section \<open>The exported functions\<close>

definition Epoll_Initialize :: "epoll_env \<Rightarrow> string \<Rightarrow> 'cb epoll \<Rightarrow> json_error + (bool \<times> 'cb epoll)" where
  "Epoll_Initialize env cfg_path s = epoll_initialize env cfg_path s"

definition Epoll_Register :: "GTEPOLL_CALLBACK_TYPE \<Rightarrow> 'cb option \<Rightarrow> 'cb epoll \<Rightarrow> 'cb epoll" where
  "Epoll_Register type cb s = registerCallBack type cb s"

definition Epoll_UnRegister :: "GTEPOLL_CALLBACK_TYPE \<Rightarrow> 'cb epoll \<Rightarrow> 'cb epoll" where
  "Epoll_UnRegister type s = unRegisterCallBack type s"

definition Epoll_StartService :: "(nat list \<Rightarrow> nat \<Rightarrow> bool) \<Rightarrow> (nat list \<Rightarrow> epoll_env) \<Rightarrow> (nat list \<Rightarrow> epoll_waits)
    \<Rightarrow> 'cb epoll \<Rightarrow> nat list list" where
  "Epoll_StartService ok env waits s = startService ok env waits s"

definition Epoll_StopService :: "'cb epoll \<Rightarrow> unit result" where
  "Epoll_StopService s = bindR (stopService s) (\<lambda>_. Inr ())"

definition Epoll_SendData :: "epoll_env \<Rightarrow> cint \<Rightarrow> addr option \<Rightarrow> size_t \<Rightarrow> 'cb epoll \<Rightarrow> 'cb epoll result" where
  "Epoll_SendData env fd data len s = sendData env fd data len s"

section \<open>The table of callbacks\<close>

definition ep_slot :: "GTEPOLL_CALLBACK_TYPE \<Rightarrow> 'cb epoll \<Rightarrow> 'cb option" where
  "ep_slot type s = (case type of GTEPOLL_READ \<Rightarrow> ep_read_cb s | GTEPOLL_CONN \<Rightarrow> ep_conn_cb s)"

interpretation ep_cb: callback_table "\<lambda>t f s. Epoll_Register t (Some f) s" Epoll_UnRegister ep_slot "\<lambda>_. True"
  by unfold_locales
    (auto simp: ep_slot_def Epoll_Register_def Epoll_UnRegister_def registerCallBack_def unRegisterCallBack_def
      split: GTEPOLL_CALLBACK_TYPE.splits)

section \<open>Runs\<close>

text \<open>
  A run of the service: calls of the exported functions, whole workers, and single events of workers
  in any interleaving, with blocks the user makes to send.
\<close>

inductive ep_step :: "epoll_env \<Rightarrow> 'cb epoll \<Rightarrow> 'cb epoll \<Rightarrow> bool" for env where
  initialize: "Epoll_Initialize env path s = Inr (b, s') \<Longrightarrow> ep_step env s s'"
| register: "ep_step env s (Epoll_Register t f s)"
| unregister: "ep_step env s (Epoll_UnRegister t s)"
| worker: "workerFunc env waits s = Some (Inr (b, s')) \<Longrightarrow> ep_step env s s'"
| event: "process_event env lfd epfd ev s = Some (Inr s') \<Longrightarrow> ep_step env s s'"
| user_block: "ep_step env s (s\<lparr>ep_blocks := (ep_blocks s)(next_ep_block s \<mapsto> bs), next_ep_block := Suc (next_ep_block s)\<rparr>)"
| send: "Epoll_SendData env fd data len s = Inr s' \<Longrightarrow> ep_step env s s'"

inductive ep_reachable :: "epoll_env \<Rightarrow> 'cb epoll \<Rightarrow> bool" for env where
  start: "ep_reachable env epoll_init"
| step: "ep_reachable env s \<Longrightarrow> ep_step env s s' \<Longrightarrow> ep_reachable env s'"

fun is_send :: "'cb ep_call \<Rightarrow> bool" where
  "is_send (ESend fd bs sl) = True"
| "is_send _ = False"

text \<open>No client is known, and nothing was sent.\<close>

definition idle :: "'cb epoll \<Rightarrow> bool" where
  "idle s = (client_state s = [] \<and> \<not> list_ex is_send (ep_log s))"

lemma idle_simps [simp]:
  "client_state (ep_os c s) = client_state s" "ep_log (ep_os c s) = ep_log s @ [c]"
  "ep_read_cb (ep_os c s) = ep_read_cb s" "ep_conn_cb (ep_os c s) = ep_conn_cb s"
  "max_events_num (ep_os c s) = max_events_num s" "listen_port (ep_os c s) = listen_port s"
  "ep_blocks (ep_os c s) = ep_blocks s" "next_ep_block (ep_os c s) = next_ep_block s"
  by (simp_all add: ep_os_def)

lemma idle_os: "\<not> is_send c \<Longrightarrow> idle (ep_os c s) = idle s"
  by (simp add: idle_def)

lemma idle_upd_client: "idle s \<Longrightarrow> idle (upd_client fd f s)"
  by (simp add: idle_def upd_client_def om_update_def)

lemma idle_no_client: "idle s \<Longrightarrow> om_find k (client_state s) = None"
  by (simp add: idle_def om_Nil)

lemma idle_setsocket: "setsocket2noblock env fd s = (b, s') \<Longrightarrow> idle s' = idle s"
  by (auto simp: setsocket2noblock_def Let_def idle_os)

lemma idle_setsockop: "setsockop env fd n s = (b, s') \<Longrightarrow> idle s' = idle s"
  by (auto simp: setsockop_def Let_def idle_os)

lemma idle_listen: "createListenSock env s = (fd, s') \<Longrightarrow> idle s' = idle s"
  by (auto simp: createListenSock_def Let_def idle_os split: prod.splits if_splits
      dest!: idle_setsocket idle_setsockop)

lemma idle_sendData: "idle s \<Longrightarrow> sendData env fd data len s = Inr s' \<Longrightarrow> idle s'"
  by (auto simp: sendData_def idle_no_client split: option.splits if_splits)

lemma idle_addNewConn: "idle s \<Longrightarrow> addNewConn2Epoll env x epfd peer s = (b, s') \<Longrightarrow> idle s'"
  by (auto simp: addNewConn2Epoll_def Let_def push2ClientMap_def idle_no_client idle_os split: if_splits)

lemma idle_accept: "idle s \<Longrightarrow> accept_conn env epfd s = Inr s' \<Longrightarrow> idle s'"
  by (auto simp: accept_conn_def Let_def idle_os split: prod.splits option.splits
      dest!: idle_setsocket dest: idle_addNewConn)

lemma idle_recv_loop_all:
  assumes "recv_loop env fd acc s = Some r"
  shows "idle s \<longrightarrow> (\<forall>c s'. r = Inr (c, s') \<longrightarrow> idle s')"
  using assms
proof (induction rule: recv_loop.raw_induct [rotated, consumes 1, case_names step])
  case (step f env fd acc s r)
  let ?a = "epe_recv env (ep_now s)"
  let ?s = "ep_os (ERecv fd (ra_ret ?a)) s"
  have i: "idle ?s = idle s" by (simp add: idle_os)
  note r = step(2) [unfolded Let_def]
  show ?case
  proof (cases "sint (ra_ret ?a) < int MAX_BUFFER \<or> ra_errno ?a = EAGAIN")
    case True
    then have "r = Inr (acc, mark_read fd ?s)" using r by simp
    then show ?thesis using i idle_upd_client [of ?s fd] by (simp add: mark_read_def)
  next
    case False
    note r1 = r [unfolded if_not_P [OF False]]
    show ?thesis
    proof (cases "int MAX_BUFFER < sint (ra_ret ?a)")
      case True
      then show ?thesis using r1 by auto
    next
      case False
      then have "f env fd (acc @ take MAX_BUFFER (ra_data ?a)) ?s = Some r" using r1 by simp
      then show ?thesis using step(1) i by blast
    qed
  qed
qed

lemma idle_recv_loop: "idle s \<Longrightarrow> recv_loop env fd acc s = Some (Inr (c, s')) \<Longrightarrow> idle s'"
  using idle_recv_loop_all by blast

lemma idle_procSend: "idle s \<Longrightarrow> procSendEvents env fd s = Inr s' \<Longrightarrow> idle s'"
  by (simp add: procSendEvents_def idle_no_client)

lemma idle_rmClient: "idle s \<Longrightarrow> rmClientFromMap fd s = Inr s' \<Longrightarrow> idle s'"
  by (simp add: rmClientFromMap_def idle_no_client)

lemma idle_process_event:
  "idle s \<Longrightarrow> process_event env lfd epfd ev s = Some (Inr s') \<Longrightarrow> idle s'"
  by (auto simp: process_event_def bindO_eq_Inr idle_os split: if_splits option.splits
      elim!: idle_accept [rotated] idle_recv_loop [rotated] idle_procSend [rotated] idle_rmClient [rotated])

lemma idle_events_loop: "idle s \<Longrightarrow> events_loop env lfd epfd evs s = Some (Inr s') \<Longrightarrow> idle s'"
  by (induction evs arbitrary: s) (auto simp: bindO_eq_Inr dest: idle_process_event)

lemma idle_wait_loop: "idle s \<Longrightarrow> wait_loop env lfd epfd waits s = Some (Inr (b, s')) \<Longrightarrow> idle s'"
proof (induction waits arbitrary: s)
  case (Cons w waits)
  then show ?case
    by (cases w) (auto simp: bindO_eq_Inr split: if_splits dest: idle_events_loop)
qed simp

lemma idle_worker: "idle s \<Longrightarrow> workerFunc env waits s = Some (Inr (b, s')) \<Longrightarrow> idle s'"
  by (auto simp: workerFunc_def Let_def bindO_eq_Inr idle_os split: prod.splits if_splits
      dest!: idle_listen elim!: idle_wait_loop [rotated])

lemma idle_initialize: "idle s \<Longrightarrow> Epoll_Initialize env path s = Inr (b, s') \<Longrightarrow> idle s'"
  by (auto simp: Epoll_Initialize_def epoll_initialize_def initializeCfgAndLog_def Let_def idle_def
      split: prod.splits sum.splits if_splits)

lemma idle_step: "ep_step env s s' \<Longrightarrow> idle s \<Longrightarrow> idle s'"
proof (induction rule: ep_step.induct)
  case (register s t f)
  then show ?case by (cases t) (simp_all add: Epoll_Register_def registerCallBack_def idle_def)
next
  case (unregister s t)
  then show ?case by (cases t) (simp_all add: Epoll_UnRegister_def unRegisterCallBack_def idle_def)
next
  case (user_block s bs)
  then show ?case by (simp add: idle_def)
qed (auto simp: Epoll_SendData_def dest: idle_initialize idle_worker idle_process_event idle_sendData)

lemma idle_reachable: "ep_reachable env s \<Longrightarrow> idle s"
  by (induction rule: ep_reachable.induct) (auto simp: idle_def epoll_init_def dest: idle_step [unfolded idle_def])

end
