(* ===== verification/Epoll_Service.thy ===== *)
theory Epoll_Service
  imports Epoll
begin

text \<open>
  The properties of the Linux back end: what its workers do, when the receive loop returns and what
  it delivers, and the number of processes.
\<close>

section \<open>The receive loop\<close>

text \<open>An answer after which the loop goes on.\<close>

definition full_answer :: "recv_answer \<Rightarrow> bool" where
  "full_answer a = (ra_ret a = 2048 \<and> ra_errno a \<noteq> EAGAIN)"

definition stop_answer :: "recv_answer \<Rightarrow> bool" where
  "stop_answer a = (sint (ra_ret a) < int MAX_BUFFER \<or> ra_errno a = EAGAIN)"

lemma full_answer_simps:
  "full_answer a \<Longrightarrow> \<not> stop_answer a \<and> \<not> int MAX_BUFFER < sint (ra_ret a)"
  by (auto simp: full_answer_def stop_answer_def MAX_BUFFER_def)

lemma not_full_answer:
  assumes "\<not> full_answer a" and "\<not> stop_answer a"
  shows "int MAX_BUFFER < sint (ra_ret a)"
proof -
  have "ra_ret a \<noteq> 2048" using assms by (simp add: full_answer_def stop_answer_def)
  moreover have "ra_ret a = 2048" if "sint (ra_ret a) = 2048"
  proof -
    have "sint (ra_ret a) = sint (2048 :: 64 word)" using that by simp
    then show ?thesis by (simp only: signed_word_eqI)
  qed
  ultimately show ?thesis using assms(2) by (force simp: stop_answer_def MAX_BUFFER_def)
qed

lemma recv_loop_step:
  "recv_loop env fd acc s =
     (let a = epe_recv env (ep_now s); s1 = ep_os (ERecv fd (ra_ret a)) s
      in if stop_answer a then Some (Inr (acc, mark_read fd s1))
         else if int MAX_BUFFER < sint (ra_ret a) then Some (Inl OutOfBounds)
         else recv_loop env fd (acc @ take MAX_BUFFER (ra_data a)) s1)"
  unfolding stop_answer_def by (rule recv_loop.simps)

text \<open>The state after \<open>n\<close> calls of \<open>recv\<close>.\<close>

definition received :: "epoll_env \<Rightarrow> cint \<Rightarrow> nat \<Rightarrow> 'cb epoll \<Rightarrow> 'cb epoll" where
  "received env fd n s =
     s\<lparr>ep_log := ep_log s @ map (\<lambda>i. ERecv fd (ra_ret (epe_recv env (ep_now s + i)))) [0..<n]\<rparr>"

lemma received_0 [simp]: "received env fd 0 s = s"
  by (simp add: received_def)

lemma received_Suc: "received env fd (Suc n) s = ep_os (ERecv fd (ra_ret (epe_recv env (ep_now s + n)))) (received env fd n s)"
  by (simp add: received_def ep_os_def)

lemma ep_now_received [simp]: "ep_now (received env fd n s) = ep_now s + n"
  by (simp add: received_def)

definition chunks :: "epoll_env \<Rightarrow> nat \<Rightarrow> 'cb epoll \<Rightarrow> byte list" where
  "chunks env n s = concat (map (\<lambda>i. take MAX_BUFFER (ra_data (epe_recv env (ep_now s + i)))) [0..<n])"

lemma recv_loop_full:
  "(\<And>i. i < n \<Longrightarrow> full_answer (epe_recv env (ep_now s + i))) \<Longrightarrow>
   recv_loop env fd acc s = recv_loop env fd (acc @ chunks env n s) (received env fd n s)"
proof (induction n)
  case (Suc n)
  have "full_answer (epe_recv env (ep_now (received env fd n s)))" using Suc.prems [of n] by simp
  then have "recv_loop env fd (acc @ chunks env n s) (received env fd n s) =
      recv_loop env fd ((acc @ chunks env n s) @ take MAX_BUFFER (ra_data (epe_recv env (ep_now s + n))))
        (received env fd (Suc n) s)"
    using full_answer_simps by (subst recv_loop_step) (simp add: Let_def received_Suc)
  then show ?case using Suc by (simp add: chunks_def)
qed (simp add: chunks_def)

lemma recv_loop_stop:
  assumes "\<And>i. i < n \<Longrightarrow> full_answer (epe_recv env (ep_now s + i))" and "stop_answer (epe_recv env (ep_now s + n))"
  shows "recv_loop env fd acc s = Some (Inr (acc @ chunks env n s, mark_read fd (received env fd (Suc n) s)))"
proof -
  have "recv_loop env fd acc s = recv_loop env fd (acc @ chunks env n s) (received env fd n s)"
    using assms(1) by (rule recv_loop_full)
  also have "\<dots> = Some (Inr (acc @ chunks env n s, mark_read fd (received env fd (Suc n) s)))"
    using assms(2) by (subst recv_loop_step) (simp add: Let_def received_Suc)
  finally show ?thesis .
qed

lemma recv_loop_forever:
  assumes "recv_loop env fd acc s = Some r"
  shows "\<exists>k \<ge> ep_now s. \<not> full_answer (epe_recv env k)"
  using assms
proof (induction rule: recv_loop.raw_induct [rotated, consumes 1, case_names step])
  case (step f env fd acc s r)
  let ?a = "epe_recv env (ep_now s)"
  show ?case
  proof (cases "full_answer ?a")
    case True
    then have "f env fd (acc @ take MAX_BUFFER (ra_data ?a)) (ep_os (ERecv fd (ra_ret ?a)) s) = Some r"
      using step(2) full_answer_simps [OF True] by (simp add: Let_def stop_answer_def)
    from step(1) [OF this] show ?thesis by (auto intro: Suc_leD)
  qed auto
qed

section \<open>The worker\<close>

lemma worker_calls:
  assumes "\<And>n. epe_ctl env n = 0" and "0 < sint (max_events_num s)"
  shows "\<exists>s' cs lfd epfd. workerFunc env waits s = Some (Inr (True, s')) \<and> max_events_num s' = max_events_num s \<and>
     ep_log s' = ep_log s @ ESocket 2 6 0 lfd # cs @ [ECtlAdd epfd lfd 0, EClose lfd, EClose epfd] \<and>
     (\<forall>c \<in> set cs. (\<exists>b. c = EFcntl lfd b) \<or> (\<exists>n b. c = ESockOpt lfd n b) \<or> (\<exists>p r. c = EBind lfd p r) \<or> c = ECreate epfd)"
proof -
  obtain lfd s1 where 1: "createListenSock env s = (lfd, s1)" by fastforce
  have m: "max_events_num s1 = max_events_num s"
    using 1 by (auto simp: createListenSock_def setsocket2noblock_def setsockop_def Let_def split: if_splits)
  have "\<exists>cs. ep_log s1 = ep_log s @ ESocket 2 6 0 lfd # cs \<and>
      (\<forall>c \<in> set cs. (\<exists>b. c = EFcntl lfd b) \<or> (\<exists>n b. c = ESockOpt lfd n b) \<or> (\<exists>p r. c = EBind lfd p r))"
    using 1 by (auto simp: createListenSock_def setsocket2noblock_def setsockop_def Let_def split: if_splits)
  then obtain cs where cs: "ep_log s1 = ep_log s @ ESocket 2 6 0 lfd # cs"
      "\<forall>c \<in> set cs. (\<exists>b. c = EFcntl lfd b) \<or> (\<exists>n b. c = ESockOpt lfd n b) \<or> (\<exists>p r. c = EBind lfd p r)"
    by blast
  let ?epfd = "epe_create env (ep_now s1)"
  let ?s' = "ep_os (EClose ?epfd) (ep_os (EClose lfd) (ep_os (ECtlAdd ?epfd lfd 0) (ep_os (ECreate ?epfd) s1)))"
  have "workerFunc env waits s = Some (Inr (True, ?s'))" "max_events_num ?s' = max_events_num s"
    using 1 m assms by (simp_all add: workerFunc_def Let_def)
  moreover have "ep_log ?s' = ep_log s @ ESocket 2 6 0 lfd # (cs @ [ECreate ?epfd]) @ [ECtlAdd ?epfd lfd 0, EClose lfd, EClose ?epfd]"
    using cs(1) by simp
  moreover have "\<forall>c \<in> set (cs @ [ECreate ?epfd]). (\<exists>b. c = EFcntl lfd b) \<or> (\<exists>n b. c = ESockOpt lfd n b) \<or>
      (\<exists>p r. c = EBind lfd p r) \<or> c = ECreate ?epfd"
    using cs(2) by auto
  ultimately show ?thesis by blast
qed

text \<open>A worker that enters its loop leaves it only when a wait fails.\<close>

lemma wait_loop_stays:
  "wait_loop env lfd epfd waits s = Some (Inr (True, s')) \<Longrightarrow> \<exists>w \<in> set waits. fst w = -1"
proof (induction waits arbitrary: s)
  case (Cons w waits)
  then show ?case by (cases w) (auto simp: bindO_eq_Inr split: if_splits)
qed simp

lemma worker_stays:
  assumes "\<And>n. epe_ctl env n \<noteq> 0" and "\<And>w. w \<in> set waits \<Longrightarrow> fst w \<noteq> -1"
  shows "workerFunc env waits s \<noteq> Some (Inr (True, s'))"
  using assms wait_loop_stays [of env _ _ waits]
  by (auto simp: workerFunc_def Let_def bindO_eq_Inr split: prod.splits if_splits)

section \<open>The processes\<close>

text \<open>Every worker returns; no worker does.\<close>

lemma fork_loop_returning:
  assumes "\<And>p i. ok p i" and "\<And>p k. epe_ctl (env p) k = 0" and "0 < sint (max_events_num s)"
  shows "Suc (length (fork_loop ok env waits p i n s)) = 2 ^ n"
  using assms(3)
proof (induction n arbitrary: p i s)
  case (Suc n)
  obtain s' where "workerFunc (env (p @ [i])) (waits (p @ [i])) s = Some (Inr (True, s'))" "max_events_num s' = max_events_num s"
    using worker_calls [of "env (p @ [i])" s "waits (p @ [i])"] assms(2) Suc.prems by blast
  then show ?case using Suc.IH [of s' "p @ [i]" "Suc i"] Suc.IH [of s p "Suc i"] Suc.prems assms(1) [of p i]
    by (simp add: Let_def)
qed simp

lemma fork_loop_staying:
  assumes "\<And>p i. ok p i" and "\<And>q s'. workerFunc (env q) (waits q) s \<noteq> Some (Inr (True, s'))"
  shows "length (fork_loop ok env waits p i n s) = n"
proof (induction n arbitrary: i)
  case (Suc n)
  have "(case workerFunc (env q) (waits q) s of Some (Inr (True, s')) \<Rightarrow> fork_loop ok env waits q (Suc i) n s' | _ \<Rightarrow> []) = []" for q
    using assms(2) [of q] by (auto split: option.split sum.split bool.split)
  then show ?case using Suc assms(1) [of p i] by (simp add: Let_def)
qed simp

lemma fork_loop_path:
  "(x, r) \<in> set (fork_loop ok env waits p i n s) \<Longrightarrow> \<exists>j q. x = p @ j # q \<and> i \<le> j \<and> j < i + n"
proof (induction n arbitrary: p i s)
  case (Suc n)
  consider "x = p @ [i]" | s' where "(x, r) \<in> set (fork_loop ok env waits (p @ [i]) (Suc i) n s')"
    | "(x, r) \<in> set (fork_loop ok env waits p (Suc i) n s)"
    using Suc.prems by (auto simp: Let_def split: if_splits option.splits sum.splits bool.splits)
  then show ?case
  proof cases
    case 2
    then show ?thesis using Suc.IH [OF 2] by auto
  next
    case 3
    then obtain j q where "x = p @ j # q" "Suc i \<le> j" "j < Suc i + n" using Suc.IH by blast
    then show ?thesis by (intro exI [of _ j] exI [of _ q]) simp
  qed auto
qed simp

lemma fork_loop_distinct: "distinct (map fst (fork_loop ok env waits p i n s))"
proof (induction n arbitrary: p i s)
  case (Suc n)
  let ?F = "\<lambda>p s. fork_loop ok env waits p (Suc i) n s"
  note path = fork_loop_path [of _ _ ok env waits _ "Suc i" n]
  have 1: "p @ [i] \<notin> fst ` set (?F (p @ [i]) s')" for s'
    using path [of "p @ [i]" _ "p @ [i]" s'] by force
  have 2: "p @ [i] \<notin> fst ` set (?F p s)" using path [of "p @ [i]" _ p s] by force
  then have 4: "(p @ [i], r) \<notin> set (?F p s)" for r by force
  have 3: "fst ` set (?F (p @ [i]) s') \<inter> fst ` set (?F p s) = {}" for s'
  proof (rule ccontr)
    assume "fst ` set (?F (p @ [i]) s') \<inter> fst ` set (?F p s) \<noteq> {}"
    then obtain x r r' where "(x, r) \<in> set (?F (p @ [i]) s')" "(x, r') \<in> set (?F p s)" by force
    then obtain j q j' q' where "x = (p @ [i]) @ j # q" "x = p @ j' # q'" "Suc i \<le> j'"
      using path by meson
    then show False by auto
  qed
  let ?w = "workerFunc (env (p @ [i])) (waits (p @ [i])) s"
  consider s' where "?w = Some (Inr (True, s'))" | "\<And>s'. ?w \<noteq> Some (Inr (True, s'))" by blast
  then show ?case
  proof cases
    case (1 s')
    then show ?thesis using \<open>p @ [i] \<notin> fst ` set (?F (p @ [i]) s')\<close> 2 4 3 [of s'] Suc
      by (auto simp: Let_def)
  next
    case none: 2
    then have "(case ?w of Some (Inr (True, s')) \<Rightarrow> ?F (p @ [i]) s' | _ \<Rightarrow> []) = []"
      by (auto split: option.split sum.split bool.split)
    then show ?thesis using 2 Suc by (simp add: Let_def)
  qed
qed simp

section \<open>Properties\<close>

definition ep_demo_env :: epoll_env where
  "ep_demo_env = \<lparr>epe_fs = (\<lambda>_. None), epe_parse = (\<lambda>_ r. (False, r)), epe_folder = ''/'', epe_hardware = 4,
     epe_fcntl_get = (\<lambda>_. 2), epe_fcntl_set = (\<lambda>_. 0), epe_setsockopt = (\<lambda>_. 0), epe_socket = (\<lambda>_. 5),
     epe_bind = (\<lambda>_. 0), epe_create = (\<lambda>_. 6), epe_ctl = (\<lambda>_. 0), epe_accept = (\<lambda>_. 7),
     epe_peer = (\<lambda>_. (replicate 20 0, 80)),
     epe_recv = (\<lambda>k. if k = 0 then \<lparr>ra_ret = 2048, ra_errno = 0, ra_data = replicate 2048 1\<rparr>
                     else \<lparr>ra_ret = 3, ra_errno = 0, ra_data = [1, 2, 3]\<rparr>),
     epe_send = (\<lambda>_. (2, EAGAIN))\<rparr>"

text \<open>C11: In every state a run of the service reaches, whatever the system answers and whatever is accepted,
  the map of clients is empty and nothing was ever sent: a connection is entered in the map only if it
  is there already, and sending looks its client up first.\<close>

theorem epoll_no_clients:
  assumes "ep_reachable env s"
  shows "client_state s = [] \<and> \<not> list_ex is_send (ep_log s)"
  using idle_reachable [OF assms] by (simp add: idle_def)

theorem epoll_no_clients_witness:
  "\<exists>s. process_event (ep_demo_env\<lparr>epe_ctl := (\<lambda>_. -1)\<rparr>) 5 6 (5, 1) (Epoll_Register GTEPOLL_CONN (Some 8) epoll_init) = Some (Inr s) \<and>
     ECallConn (8 :: nat) 7 \<in> set (ep_log s) \<and> client_state s = []"
proof -
  let ?e = "ep_demo_env\<lparr>epe_ctl := (\<lambda>_. -1)\<rparr>"
  let ?s = "Epoll_Register GTEPOLL_CONN (Some (8 :: nat)) epoll_init"
  obtain s where s: "process_event ?e 5 6 (5, 1) ?s = Some (Inr s)" "ECallConn 8 7 \<in> set (ep_log s)"
    by (simp add: process_event_def has_event_def EPOLLIN_def accept_conn_def Let_def setsocket2noblock_def
        addNewConn2Epoll_def push2ClientMap_def Epoll_Register_def registerCallBack_def epoll_init_def ep_demo_env_def
        ep_os_def om_find_def)
  have "ep_reachable ?e ?s" by (rule ep_reachable.step [OF ep_reachable.start ep_step.register])
  then have "ep_reachable ?e s" by (rule ep_reachable.step) (rule ep_step.event [OF s(1)])
  from epoll_no_clients [OF this] show ?thesis using s by blast
qed

text \<open>C20: A worker whose listening socket was added to the epoll instance, which \<open>epoll_ctl\<close> reports by zero,
  ends at once: the last thing it does is to close both descriptors; it waits for no event and serves
  no client.\<close>

theorem worker_leaves_at_once:
  assumes "\<And>n. epe_ctl env n = 0" and "0 < sint (max_events_num s)"
  shows "\<exists>s' cs lfd epfd. workerFunc env waits s = Some (Inr (True, s')) \<and>
     ep_log s' = ep_log s @ ESocket 2 6 0 lfd # cs @ [ECtlAdd epfd lfd 0, EClose lfd, EClose epfd] \<and>
     (\<forall>c \<in> set cs. (\<exists>b. c = EFcntl lfd b) \<or> (\<exists>n b. c = ESockOpt lfd n b) \<or> (\<exists>p r. c = EBind lfd p r) \<or> c = ECreate epfd)"
  using worker_calls [OF assms] by blast

theorem worker_leaves_at_once_witness:
  "\<exists>s'. workerFunc ep_demo_env [(1, [(7, 1)])] (epoll_init\<lparr>max_events_num := 128\<rparr> :: nat epoll) = Some (Inr (True, s'))"
  using worker_leaves_at_once [of ep_demo_env "epoll_init\<lparr>max_events_num := 128\<rparr> :: nat epoll" "[(1, [(7, 1)])]"]
  by (auto simp: ep_demo_env_def)

text \<open>C18: The receive loop of a readable connection returns exactly when the system does not go on for ever to
  answer with full buffers and an \<open>errno\<close> that is not \<open>EAGAIN\<close>: one client that keeps sending occupies
  the worker without end.\<close>

theorem recv_loop_returns:
  "recv_loop env fd acc s \<noteq> None \<longleftrightarrow> (\<exists>k \<ge> ep_now s. \<not> full_answer (epe_recv env k))"
proof
  assume "recv_loop env fd acc s \<noteq> None"
  then show "\<exists>k \<ge> ep_now s. \<not> full_answer (epe_recv env k)" using recv_loop_forever by blast
next
  assume "\<exists>k \<ge> ep_now s. \<not> full_answer (epe_recv env k)"
  then have e: "\<exists>n. \<not> full_answer (epe_recv env (ep_now s + n))" by (metis le_iff_add)
  define n where "n = (LEAST n. \<not> full_answer (epe_recv env (ep_now s + n)))"
  have n: "\<not> full_answer (epe_recv env (ep_now s + n))" unfolding n_def by (rule LeastI_ex [OF e])
  have full: "full_answer (epe_recv env (ep_now s + i))" if "i < n" for i
    using not_less_Least that unfolding n_def by blast
  show "recv_loop env fd acc s \<noteq> None"
  proof (cases "stop_answer (epe_recv env (ep_now s + n))")
    case True
    then show ?thesis using recv_loop_stop [OF full, of n fd acc] by simp
  next
    case False
    then have "int MAX_BUFFER < sint (ra_ret (epe_recv env (ep_now s + n)))" by (rule not_full_answer [OF n])
    then have "recv_loop env fd (acc @ chunks env n s) (received env fd n s) = Some (Inl OutOfBounds)"
      using False by (subst recv_loop_step) (simp add: Let_def)
    then show ?thesis using recv_loop_full [OF full, of n fd acc] by simp
  qed
qed

text \<open>C19: What a readable connection delivers to the user is what \<open>n\<close> full buffers hold, one call with all of
  it; the bytes of the last, shorter buffer are not part of it, so that a message of less than 2048
  bytes is reported as an empty one.\<close>

theorem read_delivers_full_buffers:
  assumes "\<And>i. i < n \<Longrightarrow> full_answer (epe_recv env (ep_now s + i))" and "stop_answer (epe_recv env (ep_now s + n))"
    and "fst ev \<noteq> lfd" and "has_event EPOLLIN ev" and "ep_read_cb s = Some f"
  shows "\<exists>s'. process_event env lfd epfd ev s = Some (Inr s') \<and>
     ep_log s' = ep_log s @ map (\<lambda>i. ERecv (fst ev) (ra_ret (epe_recv env (ep_now s + i)))) [0..<Suc n] @
       [ECallRead f (concat (map (\<lambda>i. take MAX_BUFFER (ra_data (epe_recv env (ep_now s + i)))) [0..<n]))]"
proof -
  let ?s = "mark_read (fst ev) (received env (fst ev) (Suc n) s)"
  have "recv_loop env (fst ev) [] s = Some (Inr (chunks env n s, ?s))"
    using recv_loop_stop [OF assms(1,2), of "fst ev" "[]"] by simp
  moreover have "ep_read_cb ?s = Some f" using assms(5) by (simp add: mark_read_def upd_client_def received_def)
  ultimately have "process_event env lfd epfd ev s = Some (Inr (ep_os (ECallRead f (chunks env n s)) ?s))"
    using assms(3,4) by (simp add: process_event_def)
  moreover have "ep_log ?s = ep_log s @ map (\<lambda>i. ERecv (fst ev) (ra_ret (epe_recv env (ep_now s + i)))) [0..<Suc n]"
    by (simp add: mark_read_def upd_client_def received_def)
  ultimately show ?thesis by (simp add: chunks_def)
qed

theorem read_delivers_full_buffers_witness:
  "\<exists>s'. process_event ep_demo_env 5 6 (7, 1) (epoll_init\<lparr>ep_read_cb := Some 9\<rparr>) = Some (Inr s') \<and>
     ep_log s' = [ERecv 7 2048, ERecv 7 3, ECallRead (9 :: nat) (replicate 2048 1)]"
proof -
  let ?s = "epoll_init\<lparr>ep_read_cb := Some (9 :: nat)\<rparr>"
  have f: "full_answer (epe_recv ep_demo_env (ep_now ?s + i))" if "i < 1" for i
    using that by (simp add: full_answer_def ep_demo_env_def epoll_init_def EAGAIN_def)
  have "stop_answer (epe_recv ep_demo_env (ep_now ?s + 1))" "fst (7 :: cint, 1 :: dword) \<noteq> 5"
      "has_event EPOLLIN (7, 1)" "ep_read_cb ?s = Some 9"
    by (simp_all add: stop_answer_def ep_demo_env_def epoll_init_def has_event_def EPOLLIN_def MAX_BUFFER_def)
  from read_delivers_full_buffers [OF f this, of 6] show ?thesis
    by (simp add: ep_demo_env_def epoll_init_def MAX_BUFFER_def)
qed

text \<open>C36: How many processes the processes variant becomes, when every \<open>fork\<close> succeeds, depends on
  \<open>epoll_ctl\<close>. Where it adds the listening socket the worker of a child returns at once, the child goes on with the
  loop of its parent, and \<open>n\<close> configured processes become \<open>2 ^ n - 1\<close>. Where it fails the workers stay in their
  loops as long as no wait fails, and there are \<open>n\<close>, as with threads. No two of them are the same.\<close>

theorem process_count:
  assumes "\<And>p i. ok p i" and "0 < sint (max_events_num s)" and "\<And>p k. (epe_ctl (env p) k = 0) = added"
    and "\<And>p w. \<not> added \<Longrightarrow> w \<in> set (waits p) \<Longrightarrow> fst w \<noteq> -1"
  shows "length (startService ok env waits s) =
       (if use_multi_process s \<and> added then 2 ^ nat (sint (thread_or_proc_num s)) - 1 else nat (sint (thread_or_proc_num s))) \<and>
     distinct (startService ok env waits s)"
proof -
  let ?n = "nat (sint (thread_or_proc_num s))"
  have "length (startByMultiprocess ok env waits s) = (if added then 2 ^ ?n - 1 else ?n)"
  proof (cases added)
    case True
    then have "Suc (length (startByMultiprocess ok env waits s)) = 2 ^ ?n"
      unfolding startByMultiprocess_def using assms(1-3) by (intro fork_loop_returning) simp_all
    then show ?thesis using True by simp
  next
    case False
    then have "workerFunc (env q) (waits q) s \<noteq> Some (Inr (True, s'))" for q s'
      using assms(3,4) by (intro worker_stays) simp_all
    then show ?thesis unfolding startByMultiprocess_def using False assms(1) by (simp add: fork_loop_staying)
  qed
  moreover have "distinct (map fst (startByMultiprocess ok env waits s))"
    unfolding startByMultiprocess_def by (rule fork_loop_distinct)
  moreover have "distinct (startByMultithread s)"
    by (simp add: startByMultithread_def distinct_map inj_on_def)
  ultimately show ?thesis by (simp add: startService_def startByMultithread_def)
qed

theorem process_count_witness:
  "length (startService (\<lambda>_ _. True) (\<lambda>_. ep_demo_env) (\<lambda>_. [])
     (epoll_init\<lparr>max_events_num := 128, use_multi_process := True, thread_or_proc_num := 4\<rparr> :: nat epoll)) = 15 \<and>
   length (startService (\<lambda>_ _. True) (\<lambda>_. ep_demo_env\<lparr>epe_ctl := (\<lambda>_. -1)\<rparr>) (\<lambda>_. [(0, [])])
     (epoll_init\<lparr>max_events_num := 128, use_multi_process := True, thread_or_proc_num := 4\<rparr> :: nat epoll)) = 4"
proof -
  let ?s = "epoll_init\<lparr>max_events_num := 128, use_multi_process := True, thread_or_proc_num := 4\<rparr> :: nat epoll"
  let ?f = "ep_demo_env\<lparr>epe_ctl := (\<lambda>_. -1)\<rparr>"
  have "(epe_ctl ep_demo_env k = 0) = True" "(epe_ctl ?f k = 0) = False" for k by (simp_all add: ep_demo_env_def)
  then show ?thesis
    using process_count [of "\<lambda>_ _. True" ?s "\<lambda>_. ep_demo_env" True "\<lambda>_. []"]
      process_count [of "\<lambda>_ _. True" ?s "\<lambda>_. ?f" False "\<lambda>_. [(0, [])]"]
    by simp
qed

end
