(* ===== verification/Epoll_Test.thy ===== *)
theory Epoll_Test
  imports Epoll
begin

text \<open>
  The two test programs of \<open>GTEpoll/test\<close>: a server that forks processes which all wait for the
  same listening socket, to observe how many of them one connection wakes, and its client. A process is
  its exit code with the calls it made, in order. The system answers through \<open>herd_env\<close>: the parent's
  calls are made once each, those of the children are indexed by the turn of the loop that forked them.
\<close>

section \<open>The system\<close>

datatype herd_call =
    HSocket cint cint cint cint             \<comment> \<open>domain, type, protocol and the result\<close>
  | HGetFl cint cint
  | HSetFl cint cint cint                   \<comment> \<open>descriptor, flags and the result\<close>
  | HSetSockOpt cint cint cint
  | HBind cint "16 word" "32 word" cint
  | HListen cint cint
  | HConnect cint "16 word" "32 word" cint
  | HCreate cint
  | HCtlAdd cint cint dword cint            \<comment> \<open>the epoll descriptor, the socket, the events and the result\<close>
  | HWait cint nat cint                     \<comment> \<open>the epoll descriptor, the room for events and the result\<close>
  | HAccept cint cint
  | HClose cint

record herd_env =
  he_socket :: cint
  he_getfl :: cint
  he_setfl :: cint
  he_setsockopt :: cint
  he_bind :: cint
  he_listen :: cint
  he_fork :: "nat \<Rightarrow> cint"                   \<comment> \<open>what the parent gets in a turn of its loop\<close>
  he_waitpid :: "cint list"                 \<comment> \<open>the answers to \<open>waitpid\<close>, in order\<close>
  he_create :: "nat \<Rightarrow> cint"
  he_stack :: "nat \<Rightarrow> dword"                 \<comment> \<open>what the uninitialised \<open>ev.events\<close> holds\<close>
  he_ctl :: "nat \<Rightarrow> cint"
  he_wait :: "nat \<Rightarrow> cint \<times> epoll_event list"
  he_accept :: "nat \<Rightarrow> nat \<Rightarrow> cint"

definition PROCESS_NUM :: nat where "PROCESS_NUM = 7"
definition MAX_EPOLLEVENT :: nat where "MAX_EPOLLEVENT = 10"
definition O_NONBLOCK :: cint where "O_NONBLOCK = 2048"
definition EPOLLET :: dword where "EPOLLET = 0x80000000"

section \<open>The server\<close>

definition setnoblocksock :: "herd_env \<Rightarrow> cint \<Rightarrow> bool \<times> herd_call list" where
  "setnoblocksock env fd =
     (let flag = he_getfl env
      in if sint flag < 0 then (False, [HGetFl fd flag])
         else
           let flag' = flag OR O_NONBLOCK
           in if sint (he_setfl env) < 0 then (False, [HGetFl fd flag, HSetFl fd flag' (he_setfl env)])
              else (True, [HGetFl fd flag, HSetFl fd flag' (he_setfl env)]))"

text \<open>
  The guarded block, with the value of \<open>ret\<close> when it is left. \<open>setsockopt\<close> returns 0 on success, and
  the code takes \<open>!setsockopt\<close> for its failure.
\<close>

definition herd_setup :: "herd_env \<Rightarrow> cint \<Rightarrow> cint \<times> herd_call list" where
  "herd_setup env fd =
     (let (noblock, c1) = setnoblocksock env fd
      in if \<not> noblock then (-1, c1)
         else
           let c2 = c1 @ [HSetSockOpt fd 2 (he_setsockopt env)]
           in if he_setsockopt env = 0 then (-1, c2)
              else
                let ret = he_bind env; c3 = c2 @ [HBind fd (htons 30000) 0 ret]
                in if ret \<noteq> 0 then (ret, c3)
                   else (he_listen env, c3 @ [HListen fd (he_listen env)]))"

text \<open>The events of one wait; \<open>accept\<close> is called for those of the listening socket.\<close>

fun herd_events :: "herd_env \<Rightarrow> nat \<Rightarrow> cint \<Rightarrow> nat \<Rightarrow> epoll_event list \<Rightarrow> herd_call list" where
  "herd_events env i fd j [] = []"
| "herd_events env i fd j (ev # evs) =
     (if fst ev = fd then HAccept fd (he_accept env i j) # herd_events env i fd (Suc j) evs
      else herd_events env i fd (Suc j) evs)"

text \<open>The child of the turn \<open>i\<close>, from its \<open>epoll_create\<close> to its exit: the code it exits with and its calls.\<close>

definition herd_child :: "herd_env \<Rightarrow> cint \<Rightarrow> nat \<Rightarrow> cint \<times> herd_call list" where
  "herd_child env fd i =
     (let epfd = he_create env i
      in if sint epfd < 0 then (-1, [HCreate epfd])
         else
           let events = he_stack env i OR (EPOLLIN OR EPOLLET);
               c1 = [HCreate epfd, HCtlAdd epfd fd events (he_ctl env i)]
           in if he_ctl env i = -1 then (-1, c1)
              else
                let (ready_num, evlist) = he_wait env i; c2 = c1 @ [HWait epfd MAX_EPOLLEVENT ready_num]
                in if sint ready_num \<le> 0 then (0, c2)
                   else (0, c2 @ herd_events env i fd 0 (take (nat (sint ready_num)) evlist) @ [HClose epfd]))"

text \<open>The loop of the parent: a child leaves by \<open>return\<close> or \<open>exit\<close>, so that only the parent goes on.\<close>

fun herd_forks :: "herd_env \<Rightarrow> cint \<Rightarrow> nat \<Rightarrow> nat \<Rightarrow> (nat \<times> cint \<times> herd_call list) list" where
  "herd_forks env fd i 0 = []"
| "herd_forks env fd i (Suc n) =
     (if 0 < sint (he_fork env i) then (i, herd_child env fd i) # herd_forks env fd (Suc i) n
      else herd_forks env fd (Suc i) n)"

text \<open>\<open>waitpid\<close> until it fails; \<open>False\<close> when the parent still waits after the answers given.\<close>

fun wait_children :: "cint list \<Rightarrow> bool" where
  "wait_children [] = False"
| "wait_children (r # rs) = (if 0 < sint r then wait_children rs else True)"

record herd_run =
  hr_exit :: "cint option"                  \<comment> \<open>\<open>None\<close> while the parent waits for its children\<close>
  hr_calls :: "herd_call list"
  hr_children :: "(nat \<times> cint \<times> herd_call list) list"

definition herd_main :: "herd_env \<Rightarrow> herd_run" where
  "herd_main env =
     (let listen_fd = he_socket env;
          (ret, calls) = herd_setup env listen_fd;
          c = HSocket 2 6 0 listen_fd # calls
      in if ret \<noteq> 0 then \<lparr>hr_exit = Some (-1), hr_calls = c, hr_children = []\<rparr>
         else \<lparr>hr_exit = (if wait_children (he_waitpid env) then Some 0 else None), hr_calls = c,
                hr_children = herd_forks env listen_fd 0 PROCESS_NUM\<rparr>)"

section \<open>The client\<close>

definition herd_client_main :: "cint \<Rightarrow> cint \<Rightarrow> cint \<times> bool \<times> herd_call list" where
  "herd_client_main clifd ret =
     (0, ret = 0, [HSocket 2 6 0 clifd, HConnect clifd (htons 30000) 0 ret])"

section \<open>Lemmas\<close>

text \<open>The guarded block is left with 0 only when the option could not be set.\<close>

lemma herd_setup_zero:
  "fst (herd_setup env fd) = 0 \<longleftrightarrow>
     0 \<le> sint (he_getfl env) \<and> 0 \<le> sint (he_setfl env) \<and> he_setsockopt env \<noteq> 0 \<and> he_bind env = 0 \<and> he_listen env = 0"
  by (auto simp: herd_setup_def setnoblocksock_def Let_def)

lemma herd_forks_map:
  "herd_forks env fd i n = map (\<lambda>j. (j, herd_child env fd j)) (filter (\<lambda>j. 0 < sint (he_fork env j)) [i..<i + n])"
proof (induction n arbitrary: i)
  case (Suc n)
  have "[i..<i + Suc n] = i # [Suc i..<Suc i + n]" by (simp add: upt_conv_Cons)
  then show ?case using Suc.IH by (simp del: upt_Suc)
qed simp

fun is_accept :: "herd_call \<Rightarrow> bool" where
  "is_accept (HAccept fd r) = True"
| "is_accept _ = False"

text \<open>The events the wait of a child reported, where it got so far.\<close>

definition herd_reported :: "herd_env \<Rightarrow> nat \<Rightarrow> epoll_event list" where
  "herd_reported env i =
     (if 0 \<le> sint (he_create env i) \<and> he_ctl env i \<noteq> -1
      then take (nat (sint (fst (he_wait env i)))) (snd (he_wait env i)) else [])"

lemma herd_events_accepts:
  "filter is_accept (herd_events env i fd j evs) = herd_events env i fd j evs"
  "herd_events env i fd j evs =
     map (\<lambda>k. HAccept fd (he_accept env i (j + k))) (filter (\<lambda>k. fst (evs ! k) = fd) [0..<length evs])"
proof -
  show "filter is_accept (herd_events env i fd j evs) = herd_events env i fd j evs"
    by (induction evs arbitrary: j) auto
  show "herd_events env i fd j evs =
     map (\<lambda>k. HAccept fd (he_accept env i (j + k))) (filter (\<lambda>k. fst (evs ! k) = fd) [0..<length evs])"
  proof (induction evs arbitrary: j)
    case (Cons ev evs)
    have "[0..<length (ev # evs)] = 0 # map Suc [0..<length evs]" by (simp add: map_Suc_upt upt_conv_Cons del: upt_Suc)
    then show ?case using Cons [of "Suc j"] by (simp add: filter_map comp_def del: upt_Suc)
  qed simp
qed

lemma herd_child_accepts:
  "filter is_accept (snd (herd_child env fd i)) =
     map (\<lambda>j. HAccept fd (he_accept env i j)) (filter (\<lambda>j. fst (herd_reported env i ! j) = fd) [0..<length (herd_reported env i)])"
  using herd_events_accepts [of env i fd 0]
  by (auto simp: herd_child_def herd_reported_def Let_def split_beta)

section \<open>Properties\<close>

definition herd_demo :: herd_env where
  "herd_demo = \<lparr>he_socket = 3, he_getfl = 2, he_setfl = 0, he_setsockopt = -1, he_bind = 0, he_listen = 0,
     he_fork = (\<lambda>i. 100 + of_nat i), he_waitpid = [100, -1], he_create = (\<lambda>_. 4), he_stack = (\<lambda>_. 0),
     he_ctl = (\<lambda>_. 0), he_wait = (\<lambda>_. (1, [(3, 1)])), he_accept = (\<lambda>i _. if i = 2 then 9 else -1)\<rparr>"

text \<open>C21: The test of \<open>setsockopt\<close> in the test server is inverted: where the system grants the option, the program
  reports a failure and ends with the code -1, without binding its socket and without a child; it serves only where
  setting the option fails and everything else succeeds.\<close>

theorem herd_never_binds:
  "if he_setsockopt env = 0
   then hr_exit (herd_main env) = Some (-1) \<and> hr_children (herd_main env) = [] \<and>
     HBind fd port addr r \<notin> set (hr_calls (herd_main env))
   else hr_children (herd_main env) \<noteq> [] \<longleftrightarrow>
     0 \<le> sint (he_getfl env) \<and> 0 \<le> sint (he_setfl env) \<and> he_bind env = 0 \<and> he_listen env = 0 \<and>
     (\<exists>i < PROCESS_NUM. 0 < sint (he_fork env i))"
proof (cases "he_setsockopt env = 0")
  case True
  then have "fst (herd_setup env (he_socket env)) \<noteq> 0" by (simp add: herd_setup_zero)
  moreover have "HBind fd port addr r \<notin> set (snd (herd_setup env (he_socket env)))"
    using True by (auto simp: herd_setup_def setnoblocksock_def Let_def)
  ultimately show ?thesis using True by (simp add: herd_main_def Let_def split_beta)
next
  case False
  have "filter P [0..<n] \<noteq> [] \<longleftrightarrow> (\<exists>i < n. P i)" for P and n :: nat
    by (auto simp: filter_empty_conv)
  then show ?thesis
    using False herd_setup_zero [of env "he_socket env"] by (auto simp: herd_main_def Let_def split_beta herd_forks_map)
qed

text \<open>C22: Which process calls \<open>accept\<close> how often is up to \<open>epoll\<close> alone, whatever the waits report. The
  children are the turns in which \<open>fork\<close> succeeded, in order, for a child never goes on with the loop of its parent;
  each makes one call of \<open>accept\<close> for every event of the listening socket its only wait reported to it, and none if it
  did not get so far. So one connection makes a herd of as many calls as there are processes it was reported to, of
  which the program takes no notice.\<close>

theorem herd_accepts:
  "map (\<lambda>(i, code, calls). (i, filter is_accept calls)) (hr_children (herd_main env)) =
     (if fst (herd_setup env (he_socket env)) = 0
      then map (\<lambda>i. (i, map (\<lambda>j. HAccept (he_socket env) (he_accept env i j))
                           (filter (\<lambda>j. fst (herd_reported env i ! j) = he_socket env) [0..<length (herd_reported env i)])))
             (filter (\<lambda>i. 0 < sint (he_fork env i)) [0..<PROCESS_NUM])
      else [])"
  by (simp add: herd_main_def Let_def split_beta herd_forks_map herd_child_accepts comp_def)

end
