(* ===== verification/Server_Module.thy ===== *)
theory Server_Module
  imports IOCP_Server IOCP_Shutdown Select_Wrapper GT_CmdParser
begin

text \<open>
  The server program: \<open>GT_Module_Wrapper\<close>, which chooses one of the two back ends, the \<open>main\<close> of
  \<open>GT_Server_Wapper.cpp\<close> around it, and the program that asks the server to exit. Each library is
  linked with its own copy of the configuration and the log, and so is the program itself. What the
  threads of a service do while the program waits for its end is the parameter \<open>run\<close>. The command
  line is parsed and not used.
\<close>

section \<open>The module\<close>

datatype module_cb = ReadCallback | WriteCallback

record module_env =
  me_iocp :: srv_env
  me_sel :: sel_srv_env
  me_fs :: "string \<Rightarrow> os_file option"
  me_parse :: "string \<Rightarrow> Json \<Rightarrow> bool \<times> Json"
  me_show_num :: "Json \<Rightarrow> string"
  me_exe :: string                         \<comment> \<open>the path of the program\<close>
  me_event :: HANDLE                       \<comment> \<open>what \<open>CreateEvent\<close> returns\<close>
  me_last_turn :: "select_answer option"   \<comment> \<open>what ends the last turn of a select service\<close>

record module_state =
  is_module_initted :: bool
  module_type :: MODULE_TYPE
  iocp_lib :: "module_cb server"
  select_lib :: "module_cb sel_wrapper"
  mod_cfg :: cfg_state

definition module_init :: module_state where
  "module_init = \<lparr>is_module_initted = False, module_type = GT_IOCP, iocp_lib = server_init,
     select_lib = sel_wrapper_init, mod_cfg = cfg_init\<rparr>"

definition module_Initialize :: "module_env \<Rightarrow> string \<Rightarrow> module_state \<Rightarrow> srv_error + (bool \<times> module_state)" where
  "module_Initialize env cfg_path m =
     (if is_module_initted m then Inr (is_module_initted m, m)
      else if module_type m = GT_IOCP then
        (case GTIOCP_Initialize (me_iocp env) cfg_path (iocp_lib m) of
           Inl e \<Rightarrow> Inl e
         | Inr (errcode, s1) \<Rightarrow>
             (let s2 = snd (GTIOCP_RegisterEventCallBack IO_EVENT_READ (Some ReadCallback) s1);
                  s3 = snd (GTIOCP_RegisterEventCallBack IO_EVENT_WRITE (Some WriteCallback) s2);
                  m1 = m\<lparr>iocp_lib := s3, is_module_initted := (errcode \<noteq> GT_ERROR_FAILED)\<rparr>
              in Inr (is_module_initted m1, m1)))
      else
        (case GTSelect_Initialize (me_sel env) cfg_path (select_lib m) of
           Inl e \<Rightarrow> Inl e
         | Inr (ret, w1) \<Rightarrow>
             (let w2 = GTSelect_RegisterCallBack EVENT_READ (Some ReadCallback) w1;
                  w3 = GTSelect_RegisterCallBack EVENT_WRITE (Some WriteCallback) w2;
                  errcode = (if ret then GT_ERROR_SUCCESS else GT_ERROR_FAILED);
                  m1 = m\<lparr>select_lib := w3, is_module_initted := (errcode \<noteq> GT_ERROR_FAILED)\<rparr>
              in Inr (is_module_initted m1, m1))))"

definition SetModuleType :: "MODULE_TYPE \<Rightarrow> module_state \<Rightarrow> module_state" where
  "SetModuleType type m = m\<lparr>module_type := type\<rparr>"

definition module_StartGTService :: "module_state \<Rightarrow> bool \<times> module_state" where
  "module_StartGTService m =
     (let m1 =
        (if module_type m = GT_IOCP then
           (let (errcode, s1) = GTIOCP_StartService (iocp_lib m)
            in m\<lparr>iocp_lib := s1, is_module_initted := (errcode \<noteq> GT_ERROR_FAILED)\<rparr>)
         else if module_type m = GT_Select then m\<lparr>select_lib := GTSelect_StartGTService (select_lib m)\<rparr>
         else m)
      in (is_module_initted m1, m1))"

definition ExitGTService :: "module_env \<Rightarrow> module_state \<Rightarrow> module_state result" where
  "ExitGTService env m =
     (if module_type m = GT_IOCP then
        (let s1 = snd (GTIOCP_UnRegisterEventCallBack IO_EVENT_READ (iocp_lib m));
             s2 = snd (GTIOCP_UnRegisterEventCallBack IO_EVENT_WRITE s1)
         in bindR (GTIOCP_Uninitialize (me_iocp env) s2) (\<lambda>(_, s3). Inr (m\<lparr>iocp_lib := s3\<rparr>)))
      else
        (let w1 = GTSelect_UnRegisterCallBack EVENT_READ (select_lib m);
             w2 = GTSelect_UnRegisterCallBack EVENT_WRITE w1
         in bindR (GTSelect_Finalize (me_sel env) (me_last_turn env) w2) (\<lambda>(_, w3). Inr (m\<lparr>select_lib := w3\<rparr>))))"

text \<open>
  The two callbacks, as the text they print. The data are copied to a string of the given length,
  which throws for a negative one; \<open>%d\<close> prints the length in decimal and \<open>%s\<close> the string up to its
  first zero.
\<close>

definition byte_char :: "byte \<Rightarrow> char" where
  "byte_char b = char_of (unat b)"

definition ReadEventCallback :: "byte list \<Rightarrow> cint \<Rightarrow> string result" where
  "ReadEventCallback data len =
     (if sint len < 0 then Inl BadAlloc
      else if length data < unat len then Inl OutOfBounds
      else
        (let recv_data = take (unat len) data
         in Inr (''get data from client data len = '' @ itoa10 (nat (sint len)) @ '', content: '' @
              map byte_char (takeWhile (\<lambda>b. b \<noteq> 0) recv_data) @ '' '' @ [CHR 0x0A])))"

definition WriteEventCallBack :: "string result" where
  "WriteEventCallBack = Inr (''get write complete event! '' @ [CHR 0x0A])"

text \<open>What a call of the IOCP library into the program prints.\<close>

fun module_call :: "module_cb server \<Rightarrow> module_cb user_call \<Rightarrow> string result" where
  "module_call s (WriteCallback, c, d, n) = WriteEventCallBack"
| "module_call s (ReadCallback, c, d, n) =
     (case d of
        None \<Rightarrow> Inl NullDeref
      | Some a \<Rightarrow> (case blocks (bufs_of (srv_iocp s)) a of
                     None \<Rightarrow> Inl UseAfterFree
                   | Some bs \<Rightarrow> ReadEventCallback bs n))"

section \<open>The program\<close>

text \<open>
  The loop on the exit event, over the results of the waits and the characters the user then
  enters: \<open>True\<close> when it was left.
\<close>

fun wait_exit :: "(dword \<times> char) list \<Rightarrow> bool" where
  "wait_exit [] = False"
| "wait_exit ((retcode, c) # rest) =
     (if retcode = 0 \<and> (c = CHR ''y'' \<or> c = CHR ''Y'') then True else wait_exit rest)"

definition CreateAndWaitEvent :: "HANDLE \<Rightarrow> (dword \<times> char) list \<Rightarrow> bool" where
  "CreateAndWaitEvent m_event answers = (if m_event = INVALID_HANDLE_VALUE then True else wait_exit answers)"

definition leave_main :: "module_env \<Rightarrow> module_state \<Rightarrow> srv_error + (int \<times> module_state)" where
  "leave_main env m = (case ExitGTService env m of Inl u \<Rightarrow> Inl (Undefined u) | Inr m' \<Rightarrow> Inr (0, m'))"

text \<open>
  \<open>main\<close> after the back end was chosen, and the whole of it: the exit code and the final state;
  \<open>None\<close> when the program is still waiting.
\<close>

definition main_service ::
    "module_env \<Rightarrow> (module_state \<Rightarrow> module_state result) \<Rightarrow> (dword \<times> char) list \<Rightarrow> string \<Rightarrow> module_state
     \<Rightarrow> (srv_error + (int \<times> module_state)) option" where
  "main_service env run answers config_path m =
     (case module_Initialize env config_path m of
        Inl e \<Rightarrow> Some (Inl e)
      | Inr (ret, m1) \<Rightarrow>
          if \<not> ret then Some (leave_main env m1)
          else
            (let (ret2, m2) = module_StartGTService m1
             in if \<not> ret2 then Some (leave_main env m2)
                else
                  (case run m2 of
                     Inl u \<Rightarrow> Some (Inl (Undefined u))
                   | Inr m3 \<Rightarrow>
                       if CreateAndWaitEvent (me_event env) answers then Some (leave_main env m3) else None)))"

definition main_path :: "module_env \<Rightarrow> string" where
  "main_path env = GetCurrentFolder (me_exe env) @ ''GTServer.cfg''"

definition server_main ::
    "module_env \<Rightarrow> (module_state \<Rightarrow> module_state result) \<Rightarrow> (dword \<times> char) list \<Rightarrow> module_state
     \<Rightarrow> (srv_error + (int \<times> module_state)) option" where
  "server_main env run answers m =
     (let c0 = snd (LoadCfg (me_fs env) (me_parse env) (main_path env) (mod_cfg m))
      in case ReadStringCfg (me_show_num env) ''server_cfg'' ''server_type'' ''iocp'' c0 of
           Inl e \<Rightarrow> Some (Inl (Thrown e))
         | Inr (type, c1) \<Rightarrow>
             (let m1 = m\<lparr>mod_cfg := c1\<rparr>;
                  m2 = (if type = ''iocp'' then SetModuleType GT_IOCP m1
                        else if type = ''select'' then SetModuleType GT_Select m1 else m1)
              in main_service env run answers (main_path env) m2))"

text \<open>The program that asks the server to exit, as the events it sets and its exit code.\<close>

definition exit_helper_main :: "HANDLE \<Rightarrow> HANDLE list \<times> int" where
  "exit_helper_main m_event = (if m_event = INVALID_HANDLE_VALUE then ([], 0) else ([m_event], 0))"

section \<open>Leaving the program\<close>

lemma module_Initialize_iocp:
  assumes "module_type m = GT_IOCP" and "\<not> is_module_initted m"
    and "GTIOCP_Initialize (me_iocp env) p (iocp_lib m) = Inr (code, s1)"
  shows "\<exists>s3. module_Initialize env p m = Inr (code \<noteq> GT_ERROR_FAILED,
       m\<lparr>iocp_lib := s3, is_module_initted := (code \<noteq> GT_ERROR_FAILED)\<rparr>) \<and>
     srv_iocp s3 = srv_iocp s1 \<and> srv_cfg s3 = srv_cfg s1 \<and> server_initted s3 = server_initted s1 \<and>
     read_call_back s3 = Some ReadCallback \<and>
     (srv_reachable (me_iocp env) (iocp_lib m) \<longrightarrow> srv_reachable (me_iocp env) s3)"
proof -
  let ?s2 = "snd (GTIOCP_RegisterEventCallBack IO_EVENT_READ (Some ReadCallback) s1)"
  let ?s3 = "snd (GTIOCP_RegisterEventCallBack IO_EVENT_WRITE (Some WriteCallback) ?s2)"
  have "srv_reachable (me_iocp env) ?s3" if "srv_reachable (me_iocp env) (iocp_lib m)"
    using srv_reachable.step [OF that srv_step.initialize [OF assms(3)]] srv_step.register srv_reachable.step by metis
  moreover have "server_initted ?s3 = server_initted s1" "read_call_back ?s3 = Some ReadCallback"
    by (simp_all add: GTIOCP_RegisterEventCallBack_def RegisterServerCallBack_def)
  ultimately show ?thesis
    using assms by (intro exI [of _ ?s3]) (simp add: module_Initialize_def Let_def)
qed

lemma ExitGTService_iocp:
  assumes "module_type m = GT_IOCP"
  shows "\<exists>s2. srv_iocp s2 = srv_iocp (iocp_lib m) \<and> read_call_back s2 = None \<and> write_call_back s2 = None \<and>
     (srv_reachable (me_iocp env) (iocp_lib m) \<longrightarrow> srv_reachable (me_iocp env) s2) \<and>
     ExitGTService env m = bindR (GTIOCP_Uninitialize (me_iocp env) s2) (\<lambda>(_, s3). Inr (m\<lparr>iocp_lib := s3\<rparr>))"
proof -
  let ?s1 = "snd (GTIOCP_UnRegisterEventCallBack IO_EVENT_READ (iocp_lib m))"
  let ?s2 = "snd (GTIOCP_UnRegisterEventCallBack IO_EVENT_WRITE ?s1)"
  have "srv_reachable (me_iocp env) ?s2" if "srv_reachable (me_iocp env) (iocp_lib m)"
    using that srv_step.unregister srv_reachable.step by metis
  moreover have "read_call_back ?s2 = None" "write_call_back ?s2 = None"
    by (simp_all add: GTIOCP_UnRegisterEventCallBack_def UnRegisterServerCallBack_def)
  ultimately show ?thesis
    using assms by (intro exI [of _ ?s2]) (simp add: ExitGTService_def Let_def)
qed

lemma StopService_no_key:
  assumes "init_inv s" and "accept_key s = None" and "0 < n_threads env"
  shows "StopService env cfg s = Inl NullDeref"
proof -
  have "rcore (res s)" using assms(1) core_invD(1) by (simp add: init_inv_def)
  then have "exit_loop env cfg (Suc (n_threads env - 1)) s = Inl NullDeref"
    using exit_loop_no_key assms(2) by blast
  then show ?thesis using assms(3) by (simp add: StopService_def PostExitEvent_def)
qed

lemma block_ops_started:
  "new_fd_set env g n s = Inr (a, s') \<Longrightarrow> service_started s' = service_started s"
  "delete_block b s = Inr s' \<Longrightarrow> service_started s' = service_started s"
  "push_fd t x s = Inr s' \<Longrightarrow> service_started s' = service_started s"
  by (auto simp: new_fd_set_def delete_block_def push_fd_def bindR_eq_Inr Let_def split: if_splits option.splits)

lemma GrowSet_started: "GrowSet env t g s = Inr s' \<Longrightarrow> service_started s' = service_started s"
  by (auto simp: GrowSet_def bindR_eq_Inr Let_def set_total_def set_block_def
      split: if_splits option.splits dest!: block_ops_started)

lemma AddListenEvent_started: "AddListenEvent env x s = Inr s' \<Longrightarrow> service_started s' = service_started s"
  by (auto simp: AddListenEvent_def AddEvent_def bindR_eq_Inr split: if_splits
      dest!: GrowSet_started block_ops_started(3))

lemma select_setup_started: "select_setup env cfg s = Inr s' \<Longrightarrow> service_started s' = service_started s"
  by (auto simp: select_setup_def sel_os_def bindR_eq_Inr Let_def split: if_splits dest!: AddListenEvent_started)

lemma select_Initialize_started:
  "select_Initialize env cfg s = Inr (b, s') \<Longrightarrow> service_started s' = service_started s"
  by (auto simp: select_Initialize_def bindR_eq_Inr Let_def split: if_splits
      dest!: GrowSet_started select_setup_started)

lemma GTSelect_Initialize_started:
  assumes "GTSelect_Initialize env p w = Inr (b, w')"
  shows "service_started (sw_core w') = service_started (sw_core w)"
  using assms
  by (auto simp: GTSelect_Initialize_def sel_wrapper_Initialize_def RegisterSelectCallBack_def RegisterCallback_def
      Let_def split: sum.splits prod.splits dest!: select_Initialize_started)

section \<open>Properties\<close>

text \<open>The program takes the back end from its own configuration: \<open>select\<close> chooses the select service, and
  every other value, an absent one included, the IOCP service; the library is then given the path of
  the same file next to the program.\<close>

theorem chosen_back_end:
  assumes "section_ok (cfg_root (snd (LoadCfg (me_fs env) (me_parse env) (main_path env) cfg_init))) ''server_cfg''"
  shows "\<exists>c. server_main env run answers module_init =
     main_service env run answers (main_path env) (module_init\<lparr>mod_cfg := c, module_type :=
       (if GT_READ_CFG_STRING (cfg_root (snd (LoadCfg (me_fs env) (me_parse env) (main_path env) cfg_init)))
             ''server_cfg'' ''server_type'' ''iocp'' = ''select'' then GT_Select else GT_IOCP)\<rparr>)"
proof -
  obtain c where "ReadStringCfg (me_show_num env) ''server_cfg'' ''server_type'' ''iocp''
      (snd (LoadCfg (me_fs env) (me_parse env) (main_path env) cfg_init)) =
      Inr (GT_READ_CFG_STRING (cfg_root (snd (LoadCfg (me_fs env) (me_parse env) (main_path env) cfg_init)))
             ''server_cfg'' ''server_type'' ''iocp'', c)"
    using ReadString_pure [OF assms] by blast
  moreover have "mod_cfg module_init = cfg_init"
      "module_init\<lparr>mod_cfg := c\<rparr> = module_init\<lparr>mod_cfg := c, module_type := GT_IOCP\<rparr>"
    by (simp_all add: module_init_def)
  ultimately show ?thesis
    by (intro exI [of _ c]) (auto simp: server_main_def SetModuleType_def Let_def)
qed

text \<open>C16: When the IOCP library fails to initialise before it has an accept key, the program does not end with
  its message and the code 0: leaving it stops the library, which dereferences the null key. \<close>

theorem failed_iocp_start:
  assumes "module_type m = GT_IOCP" and "\<not> is_module_initted m" and "srv_reachable (me_iocp env) (iocp_lib m)"
    and "GTIOCP_Initialize (me_iocp env) p (iocp_lib m) = Inr (GT_ERROR_FAILED, s)"
    and "accept_key (srv_iocp s) = None" and "0 < n_threads (se_iocp (me_iocp env))"
  shows "main_service env run answers p m = Some (Inl (Undefined NullDeref))"
proof -
  obtain s3 where 3: "module_Initialize env p m = Inr (False, m\<lparr>iocp_lib := s3, is_module_initted := False\<rparr>)"
      "srv_iocp s3 = srv_iocp s" "srv_reachable (me_iocp env) s3"
    using module_Initialize_iocp [OF assms(1,2,4)] assms(3) by auto
  let ?m = "m\<lparr>iocp_lib := s3, is_module_initted := False\<rparr>"
  obtain s2 where 2: "srv_iocp s2 = srv_iocp s3"
      "ExitGTService env ?m = bindR (GTIOCP_Uninitialize (me_iocp env) s2) (\<lambda>(_, s3). Inr (?m\<lparr>iocp_lib := s3\<rparr>))"
    using ExitGTService_iocp [of ?m env] assms(1) by auto
  have "StopService (se_iocp (me_iocp env)) cfg (srv_iocp s2) = Inl NullDeref" for cfg
    using StopService_no_key srv_reachable_inv [OF 3(3)] assms(5,6) 2(1) 3(2) by metis
  then have "GTIOCP_Uninitialize (me_iocp env) s2 = Inl NullDeref"
    by (simp add: GTIOCP_Uninitialize_def server_StopService_def)
  then show ?thesis using 3(1) 2(2) by (simp add: main_service_def leave_main_def)
qed

definition demo_module_env :: "iocp_env \<Rightarrow> module_env" where
  "demo_module_env e = \<lparr>me_iocp = demo_srv_env\<lparr>se_iocp := e\<rparr>, me_sel = sel_demo_srv_env, me_fs = se_fs demo_srv_env,
     me_parse = se_parse demo_srv_env, me_show_num = (\<lambda>_. ''''), me_exe = ''C:/server.exe'', me_event = 9,
     me_last_turn = None\<rparr>"

lemma demo_main_cfg: "cfg_root (snd (LoadCfg (me_fs (demo_module_env e)) (me_parse (demo_module_env e)) p cfg_init)) = demo_cfg"
  by (simp add: demo_module_env_def LoadCfg_def demo_srv_env_def cfg_init_def ReadFileContent_def Let_def)

theorem chosen_back_end_witness:
  "\<exists>c. server_main (demo_module_env demo_env) Inr [] module_init =
     main_service (demo_module_env demo_env) Inr [] (main_path (demo_module_env demo_env)) (module_init\<lparr>mod_cfg := c, module_type := GT_IOCP\<rparr>)"
proof -
  let ?e = "demo_module_env demo_env"
  have ok: "section_ok (cfg_root (snd (LoadCfg (me_fs ?e) (me_parse ?e) (main_path ?e) cfg_init))) ''server_cfg''"
    unfolding demo_main_cfg by (simp add: section_ok_def member_def demo_cfg_def)
  have "GT_READ_CFG_STRING demo_cfg ''server_cfg'' ''server_type'' ''iocp'' \<noteq> ''select''"
    by (simp add: GT_READ_CFG_STRING_def cfg_get_def member_def demo_cfg_def)
  then show ?thesis using chosen_back_end [OF ok, of Inr "[]"] unfolding demo_main_cfg by simp
qed

lemma demo_failed_iocp:
  "\<exists>s. GTIOCP_Initialize (me_iocp (demo_module_env (demo_env\<lparr>ie_WSAStartup := 1\<rparr>))) p (server_init :: module_cb server) =
       Inr (GT_ERROR_FAILED, s) \<and> accept_key (srv_iocp s) = None"
proof -
  let ?e = "me_iocp (demo_module_env (demo_env\<lparr>ie_WSAStartup := 1\<rparr>))"
  let ?init = "server_init :: module_cb server" and ?c = "\<lparr>cfg_content = ''x'', cfg_root = demo_cfg, cfg_load = True\<rparr>"
  have c: "?c = snd (LoadCfg (se_fs ?e) (se_parse ?e) p (srv_cfg ?init))"
    by (simp add: LoadCfg_def demo_module_env_def demo_srv_env_def server_init_def cfg_init_def ReadFileContent_def Let_def)
  have "section_ok (cfg_root ?c) ''log_control''" by (simp add: section_ok_def member_def demo_cfg_def)
  from InitLogAndCfgSrvice_spec [OF c this] obtain s1 where 1: "InitLogAndCfgSrvice ?e p ?init = Inr s1" by auto
  have i1: "srv_iocp s1 = iocp_init" using InitLogAndCfgSrvice_iocp [OF 1] by (simp add: server_init_def)
  obtain i where "iocp_Initialize (demo_env\<lparr>ie_WSAStartup := 1\<rparr>) (cfg_root (srv_cfg s1)) iocp_init = Inr (False, i)"
      "accept_key i = None"
    by (simp add: iocp_Initialize_def init_body_def iocp_init_def Let_def on_res_def os_def)
  moreover have "server_initted ?init = False" "se_iocp ?e = demo_env\<lparr>ie_WSAStartup := 1\<rparr>"
    by (simp_all add: server_init_def demo_module_env_def)
  ultimately show ?thesis using 1 i1 by (simp add: GTIOCP_Initialize_def server_Initialize_def Let_def)
qed

theorem failed_iocp_start_witness:
  "main_service (demo_module_env (demo_env\<lparr>ie_WSAStartup := 1\<rparr>)) Inr [] ''cfg'' module_init = Some (Inl (Undefined NullDeref))"
proof -
  let ?e = "demo_module_env (demo_env\<lparr>ie_WSAStartup := 1\<rparr>)"
  obtain s where s: "GTIOCP_Initialize (me_iocp ?e) ''cfg'' (iocp_lib module_init) = Inr (GT_ERROR_FAILED, s)"
      "accept_key (srv_iocp s) = None"
    using demo_failed_iocp by (auto simp: module_init_def)
  have "srv_reachable (me_iocp ?e) (iocp_lib module_init)"
    using srv_reachable.start by (simp add: module_init_def)
  moreover have "0 < n_threads (se_iocp (me_iocp ?e))" by (simp add: n_threads_def demo_module_env_def demo_env_def)
  ultimately show ?thesis
    by (intro failed_iocp_start [OF _ _ _ s]) (simp_all add: module_init_def)
qed

text \<open>When the select library reports that it could not initialise, the program ends in order: nothing was
  started that leaving it could stop, and the exit code is 0.\<close>

theorem failed_select_start:
  assumes "module_type m = GT_Select" and "\<not> is_module_initted m" and "\<not> service_started (sw_core (select_lib m))"
    and "GTSelect_Initialize (me_sel env) p (select_lib m) = Inr (False, w)"
  shows "\<exists>m'. main_service env run answers p m = Some (Inr (0, m')) \<and> \<not> is_module_initted m' \<and>
     sw_core (select_lib m') = sw_core w"
proof -
  let ?w = "GTSelect_RegisterCallBack EVENT_WRITE (Some WriteCallback) (GTSelect_RegisterCallBack EVENT_READ (Some ReadCallback) w)"
  let ?m = "m\<lparr>select_lib := ?w, is_module_initted := False\<rparr>"
  let ?u = "GTSelect_UnRegisterCallBack EVENT_WRITE (GTSelect_UnRegisterCallBack EVENT_READ ?w)"
  have "module_Initialize env p m = Inr (False, ?m)"
    using assms by (simp add: module_Initialize_def Let_def)
  moreover have "\<not> service_started (sw_core ?u)"
    using GTSelect_Initialize_started [OF assms(4)] assms(3) by simp
  then have "GTSelect_Finalize (me_sel env) (me_last_turn env) ?u = Inr (True, ?u)"
    by (simp add: GTSelect_Finalize_def sel_wrapper_Finalize_def select_Finalize_def)
  then have "ExitGTService env ?m = Inr (?m\<lparr>select_lib := ?u\<rparr>)"
    using assms(1) by (simp add: ExitGTService_def Let_def)
  ultimately show ?thesis by (simp add: main_service_def leave_main_def)
qed

lemma sel_demo_failed:
  assumes "GT_READ_CFG_INT c = GT_READ_CFG_INT (sel_demo_cfg 4)"
  shows "\<exists>s. select_Initialize (sel_demo_env\<lparr>sel_WSAStartup := 1\<rparr>) c select_core_init = Inr (False, s)"
proof -
  let ?e = "sel_demo_env\<lparr>sel_WSAStartup := 1\<rparr>" and ?i = "select_core_init"
  have m: "mem_ok ?e" by (simp add: mem_ok_def sel_demo_env_def)
  have i: "wf_sets ?i" "socketset ?i t = None" for t by (simp_all add: wf_sets_def select_core_init_def)
  obtain s1 where 1: "GrowSet ?e EVENT_READ 4 ?i = Inr s1" "wf_sets s1" "same_rest ?i s1"
    using GrowSet_new [OF i, of 4 ?e] m by auto
  have n1: "socketset s1 EVENT_WRITE = None" "socketset s1 EVENT_EXCEPTION = None"
    using GrowSet_total [OF 1(1) i(2)] i(2) by simp_all
  obtain s2 where 2: "GrowSet ?e EVENT_WRITE 4 s1 = Inr s2" "wf_sets s2" "same_rest s1 s2"
    using GrowSet_new [OF 1(2) n1(1), of 4 ?e] m by auto
  have n2: "socketset s2 EVENT_EXCEPTION = None" using GrowSet_total [OF 2(1) n1(1)] n1 by simp
  obtain s3 where 3: "GrowSet ?e EVENT_EXCEPTION 4 s2 = Inr s3" "same_rest s2 s3"
    using GrowSet_new [OF 2(2) n2, of 4 ?e] m by auto
  have "\<not> service_inited s3" using 1(3) 2(3) 3(2) by (simp add: same_rest_def select_core_init_def)
  then show ?thesis
    using 1(1) 2(1) 3(1) by (simp add: select_Initialize_def assms sel_demo_cfg_simps select_setup_def sel_os_def)
      (simp add: select_core_init_def)
qed

theorem failed_select_start_witness:
  "\<exists>w m'. GTSelect_Initialize (sel_demo_srv_env\<lparr>sse_core := sel_demo_env\<lparr>sel_WSAStartup := 1\<rparr>\<rparr>) ''cfg''
       (sel_wrapper_init :: module_cb sel_wrapper) = Inr (False, w) \<and>
     main_service ((demo_module_env demo_env)\<lparr>me_sel := sel_demo_srv_env\<lparr>sse_core := sel_demo_env\<lparr>sel_WSAStartup := 1\<rparr>\<rparr>\<rparr>)
       Inr [] ''cfg'' (module_init\<lparr>module_type := GT_Select\<rparr>) = Some (Inr (0, m'))"
proof -
  let ?e = "sel_demo_srv_env\<lparr>sse_core := sel_demo_env\<lparr>sel_WSAStartup := 1\<rparr>\<rparr>"
  let ?i = "sel_wrapper_init :: module_cb sel_wrapper" and ?m = "module_init\<lparr>module_type := GT_Select\<rparr>"
  let ?c = "snd (LoadCfg (sse_fs ?e) (sse_parse ?e) ''cfg'' (sw_cfg ?i))"
  have c: "cfg_root ?c = sel_demo_cfg 4"
    by (simp add: LoadCfg_def Let_def ReadFileContent_def sel_demo_srv_env_def sel_wrapper_init_def cfg_init_def)
  have "section_ok (cfg_root ?c) ''log_control''"
    unfolding c by (simp add: section_ok_def sel_demo_cfg_def member_def)
  from sel_wrapper_Initialize_spec [OF refl this] obtain c' l where
    c': "\<forall>se k. cfg_get (cfg_root c') se k = cfg_get (sel_demo_cfg 4) se k" and
    w: "sel_wrapper_Initialize ?e ''cfg'' ?i =
       (case select_Initialize (sse_core ?e) (cfg_root c') (sw_core ?i) of
          Inl u \<Rightarrow> Inl (Undefined u)
        | Inr (b, core) \<Rightarrow> Inr (b, ?i\<lparr>sw_cfg := c', sw_core := RegisterCallback SelectCallBack core,
            sw_service_inited := b, sw_log := l\<rparr>))"
    unfolding c by blast
  obtain s where "select_Initialize (sel_demo_env\<lparr>sel_WSAStartup := 1\<rparr>) (cfg_root c') select_core_init = Inr (False, s)"
    using sel_demo_failed [OF GT_READ_CFG_INT_cong [OF c']] by blast
  moreover have "sw_core ?i = select_core_init" by (simp add: sel_wrapper_init_def)
  ultimately obtain w' where w': "GTSelect_Initialize ?e ''cfg'' ?i = Inr (False, w')"
    using w by (simp add: GTSelect_Initialize_def)
  let ?env = "(demo_module_env demo_env)\<lparr>me_sel := ?e\<rparr>"
  have "\<not> is_module_initted ?m" "select_lib ?m = ?i" "\<not> service_started (sw_core (select_lib ?m))" "me_sel ?env = ?e"
    by (simp_all add: module_init_def sel_wrapper_init_def select_core_init_def)
  then show ?thesis using failed_select_start [of ?m ?env "''cfg''" w' Inr "[]"] w' by auto
qed

text \<open>
  The program on a system where the workers that return are those for which \<open>ends\<close> holds. Nothing
  that comes before the stop depends on them.
\<close>

definition with_ends :: "(addr \<Rightarrow> bool) \<Rightarrow> module_env \<Rightarrow> module_env" where
  "with_ends ends env =
     env\<lparr>me_iocp := (me_iocp env)\<lparr>se_iocp := (se_iocp (me_iocp env))\<lparr>ie_thread_ends := ends\<rparr>\<rparr>\<rparr>"

lemma iocp_Initialize_ends:
  "iocp_Initialize (env\<lparr>ie_thread_ends := f\<rparr>) cfg s = iocp_Initialize env cfg s"
proof -
  have e: "ie_res (env\<lparr>ie_thread_ends := f\<rparr>) = ie_res env"
    "ie_concurrency (env\<lparr>ie_thread_ends := f\<rparr>) = ie_concurrency env"
    "ie_WSAStartup (env\<lparr>ie_thread_ends := f\<rparr>) = ie_WSAStartup env"
    "ie_version (env\<lparr>ie_thread_ends := f\<rparr>) = ie_version env"
    "ie_bind (env\<lparr>ie_thread_ends := f\<rparr>) = ie_bind env" "ie_listen (env\<lparr>ie_thread_ends := f\<rparr>) = ie_listen env"
    "ie_AcceptEx_addr (env\<lparr>ie_thread_ends := f\<rparr>) = ie_AcceptEx_addr env"
    "ie_SockAddrs_addr (env\<lparr>ie_thread_ends := f\<rparr>) = ie_SockAddrs_addr env"
    "ie_new_port (env\<lparr>ie_thread_ends := f\<rparr>) = ie_new_port env" "ie_ret (env\<lparr>ie_thread_ends := f\<rparr>) = ie_ret env"
    "ie_err (env\<lparr>ie_thread_ends := f\<rparr>) = ie_err env" "ie_port (env\<lparr>ie_thread_ends := f\<rparr>) = ie_port env"
    by simp_all
  show ?thesis
    unfolding iocp_Initialize_def init_body_def init_services_def open_accept_def PrePostAcceptEvent_def
      PostAnotherAcceptEvent_def try_accept_def get_buffer_def get_socket_def BindSocketToCompletionPort_def
      InitThreadPool_def n_threads_def GetAcceptEXFuncAddress_def GetAcceptExSockAddrsFuncAddress_def
      InitializeListenSocket_def CreateOverlappedSocket_def listen_on_def e ..
qed

lemma GTIOCP_Initialize_ends:
  "GTIOCP_Initialize (env\<lparr>se_iocp := (se_iocp env)\<lparr>ie_thread_ends := f\<rparr>\<rparr>) p s = GTIOCP_Initialize env p s"
proof -
  let ?e = "env\<lparr>se_iocp := (se_iocp env)\<lparr>ie_thread_ends := f\<rparr>\<rparr>"
  have e: "se_fs ?e = se_fs env" "se_parse ?e = se_parse env" "se_show_num ?e = se_show_num env"
    "se_folder ?e = se_folder env" "se_iocp ?e = (se_iocp env)\<lparr>ie_thread_ends := f\<rparr>"
    by simp_all
  show ?thesis
    unfolding GTIOCP_Initialize_def server_Initialize_def InitLogAndCfgSrvice_def e iocp_Initialize_ends ..
qed

lemma module_Initialize_ends: "module_Initialize (with_ends f env) p m = module_Initialize env p m"
proof -
  have e: "me_iocp (with_ends f env) = (me_iocp env)\<lparr>se_iocp := (se_iocp (me_iocp env))\<lparr>ie_thread_ends := f\<rparr>\<rparr>"
    "me_sel (with_ends f env) = me_sel env"
    by (simp_all add: with_ends_def)
  show ?thesis unfolding module_Initialize_def e GTIOCP_Initialize_ends ..
qed

text \<open>Stopping the library when every worker of its pool ends.\<close>

lemma ExitGTService_ends:
  assumes "module_type m = GT_IOCP" and i: "init_inv (srv_iocp (iocp_lib m))"
    and "accept_key (srv_iocp (iocp_lib m)) \<noteq> None" and "thread_pool_started (srv_iocp (iocp_lib m))"
  shows "\<exists>s. ExitGTService (with_ends (\<lambda>_. True) env) m = Inr (m\<lparr>iocp_lib := s\<rparr>) \<and>
     read_call_back s = None \<and> write_call_back s = None \<and>
     Stop (\<lambda>_. True) (iocp_pool (srv_iocp (iocp_lib m))) =
       Inr (workpool (iocp_pool (srv_iocp (iocp_lib m))), iocp_pool (srv_iocp s))"
proof -
  let ?env = "with_ends (\<lambda>_. True) env"
  let ?e = "me_iocp ?env"
  obtain s4 where 4: "srv_iocp s4 = srv_iocp (iocp_lib m)" "read_call_back s4 = None" "write_call_back s4 = None"
      "ExitGTService ?env m = bindR (GTIOCP_Uninitialize ?e s4) (\<lambda>(_, s5). Inr (m\<lparr>iocp_lib := s5\<rparr>))"
    using ExitGTService_iocp [OF assms(1), of ?env] by blast
  obtain ak where ak: "accept_key (srv_iocp s4) = Some ak" using assms(3) 4(1) by auto
  have "core_inv (srv_iocp s4)" "pool_inv (iocp_pool (srv_iocp s4))" using i 4(1) by (simp_all add: init_inv_def)
  moreover have ends: "ie_thread_ends (se_iocp ?e) = (\<lambda>_. True)" by (simp add: with_ends_def)
  ultimately obtain i' where "StopService (se_iocp ?e) (cfg_root (srv_cfg s4)) (srv_iocp s4) = Inr (True, i')"
      "Stop (\<lambda>_. True) (iocp_pool (srv_iocp s4)) = Inr (workpool (iocp_pool (srv_iocp s4)), iocp_pool i')"
    using StopService_ok [OF _ ak, of "se_iocp ?e" "cfg_root (srv_cfg s4)"] assms(4) 4(1) by auto
  then show ?thesis
    using 4 by (intro exI [of _ "s4\<lparr>srv_iocp := i'\<rparr>"])
      (simp add: GTIOCP_Uninitialize_def server_StopService_def)
qed

text \<open>C10: A whole run of the program on the IOCP service, with no more workers than exit packets are posted when it
  is left: when the library initialises and has its accept key, whatever the service then does in a run of
  its own that keeps the key and the pool, the stop that follows comes to an end from any interleaving with the
  workers, wherever these are in their loops. And with the threads that have ended there, the program ends with the
  code 0 once the exit event is set and the user confirms; no function is registered any more, the pool
  is the one that interleaved stop leaves, and every worker was joined and deleted.\<close>

theorem complete_run:
  assumes "module_type m = GT_IOCP" and "\<not> is_module_initted m" and "srv_reachable (me_iocp env) (iocp_lib m)"
    and "GTIOCP_Initialize (me_iocp env) p (iocp_lib m) = Inr (GT_ERROR_SUCCESS, s)"
    and "accept_key (srv_iocp s) \<noteq> None" and "thread_pool_started (srv_iocp s)"
    and "length (workpool (iocp_pool (srv_iocp s))) \<le> n_threads (se_iocp (me_iocp env))"
    and "\<And>x. srv_reachable (me_iocp env) (iocp_lib x) \<Longrightarrow>
      accept_key (srv_iocp (iocp_lib x)) \<noteq> None \<Longrightarrow> thread_pool_started (srv_iocp (iocp_lib x)) \<Longrightarrow>
      \<exists>y. run x = Inr y \<and> module_type y = module_type x \<and> srv_reachable (me_iocp env) (iocp_lib y) \<and>
        accept_key (srv_iocp (iocp_lib y)) \<noteq> None \<and> thread_pool_started (srv_iocp (iocp_lib y)) \<and>
        iocp_pool (srv_iocp (iocp_lib y)) = iocp_pool (srv_iocp (iocp_lib x))"
    and "c = CHR ''y'' \<or> c = CHR ''Y''" and "(0, c) \<in> set answers"
    and "\<And>a. w a \<noteq> Gone \<Longrightarrow> a \<in> set (workpool (iocp_pool (srv_iocp s)))"
  shows "\<exists>m1 m2 m3. module_Initialize env p m = Inr (True, m1) \<and> module_StartGTService m1 = (True, m2) \<and> run m2 = Inr m3 \<and>
     (\<forall>cfg n x. shut_run (se_iocp (me_iocp env)) cfg (stop_init (se_iocp (me_iocp env)) (srv_iocp (iocp_lib m3)) w) n x \<longrightarrow>
        (\<exists>k y. shut_run (se_iocp (me_iocp env)) cfg x k y \<and> stopped y) \<and>
        (stopped x \<longrightarrow> (\<exists>m'. main_service (with_ends (\<lambda>a. sd_worker x a = Gone) env) run answers p m = Some (Inr (0, m')) \<and>
           read_call_back (iocp_lib m') = None \<and> write_call_back (iocp_lib m') = None \<and>
           iocp_pool (srv_iocp (iocp_lib m')) = iocp_pool (sd_iocp x) \<and>
           (\<forall>a \<in> set (workpool (iocp_pool (srv_iocp s))). tuples (iocp_pool (sd_iocp x)) a = None))))"
proof -
  let ?e = "me_iocp env"
  obtain s3 where 3: "module_Initialize env p m = Inr (True, m\<lparr>iocp_lib := s3, is_module_initted := True\<rparr>)"
      "srv_iocp s3 = srv_iocp s" "srv_reachable ?e s3"
    using module_Initialize_iocp [OF assms(1,2,4)] assms(3) by auto
  let ?m1 = "m\<lparr>iocp_lib := snd (GTIOCP_StartService s3), is_module_initted := True\<rparr>"
  have st: "module_StartGTService (m\<lparr>iocp_lib := s3, is_module_initted := True\<rparr>) = (True, ?m1)"
    using assms(1) by (simp add: module_StartGTService_def GTIOCP_StartService_def Let_def)
  have r1: "srv_reachable ?e (iocp_lib ?m1)" using srv_reachable.step [OF 3(3) srv_step.start] by simp
  have k1: "accept_key (srv_iocp (iocp_lib ?m1)) \<noteq> None" "thread_pool_started (srv_iocp (iocp_lib ?m1))"
      "iocp_pool (srv_iocp (iocp_lib ?m1)) = iocp_pool (srv_iocp s)"
    using assms(5,6) 3(2) by (simp_all add: GTIOCP_StartService_def server_GTStartService_def GTStartService_def)
  obtain m3 where 2: "run ?m1 = Inr m3" "module_type m3 = GT_IOCP" "srv_reachable ?e (iocp_lib m3)"
      "accept_key (srv_iocp (iocp_lib m3)) \<noteq> None" "thread_pool_started (srv_iocp (iocp_lib m3))"
      "iocp_pool (srv_iocp (iocp_lib m3)) = iocp_pool (srv_iocp s)"
    using assms(8) [OF r1 k1(1,2)] assms(1) k1(3) by auto
  have i: "init_inv (srv_iocp (iocp_lib m3))" by (rule srv_reachable_inv [OF 2(3)])
  then have p: "pool_inv (iocp_pool (srv_iocp s))" using 2(6) by (simp add: init_inv_def)
  obtain ak where ak: "accept_key (srv_iocp (iocp_lib m3)) = Some ak" using 2(4) by blast
  have w: "w a \<noteq> Gone \<Longrightarrow> a \<in> set (workpool (iocp_pool (srv_iocp (iocp_lib m3))))" for a
    using assms(11) 2(6) by simp
  obtain s5 where 5: "ExitGTService (with_ends (\<lambda>_. True) env) m3 = Inr (m3\<lparr>iocp_lib := s5\<rparr>)"
      "read_call_back s5 = None" "write_call_back s5 = None"
      "Stop (\<lambda>_. True) (iocp_pool (srv_iocp s)) = Inr (workpool (iocp_pool (srv_iocp s)), iocp_pool (srv_iocp s5))"
    using ExitGTService_ends [OF 2(2) i 2(4,5), of env] 2(6) by auto
  have "wait_exit answers" using assms(9,10) by (induction answers) auto
  then have main: "main_service (with_ends (\<lambda>_. True) env) run answers p m = Some (Inr (0, m3\<lparr>iocp_lib := s5\<rparr>))"
    using 3(1) st 2(1) 5(1) by (simp add: main_service_def module_Initialize_ends leave_main_def CreateAndWaitEvent_def)
  have fin: "\<exists>k y. shut_run (se_iocp ?e) cfg x k y \<and> stopped y"
    if "shut_run (se_iocp ?e) cfg (stop_init (se_iocp ?e) (srv_iocp (iocp_lib m3)) w) n x" for cfg n x
  proof -
    have I: "stop_inv (stop_init (se_iocp ?e) (srv_iocp (iocp_lib m3)) w)"
      by (rule stop_init_inv(1) [OF i ak 2(5)]) (rule w)
    have "enough (stop_init (se_iocp ?e) (srv_iocp (iocp_lib m3)) w)"
      by (rule stop_init_enough [OF I, unfolded 2(6), OF assms(7)])
    then have "stop_inv x" "enough x"
      using shut_run_inv [OF that I, of "set (unjoined (stop_init (se_iocp ?e) (srv_iocp (iocp_lib m3)) w))"] by simp_all
    then show ?thesis by (rule can_finish [OF _ _ finite_set subset_refl])
  qed
  have "\<exists>m'. main_service (with_ends (\<lambda>a. sd_worker x a = Gone) env) run answers p m = Some (Inr (0, m')) \<and>
      read_call_back (iocp_lib m') = None \<and> write_call_back (iocp_lib m') = None \<and>
      iocp_pool (srv_iocp (iocp_lib m')) = iocp_pool (sd_iocp x) \<and>
      (\<forall>a \<in> set (workpool (iocp_pool (srv_iocp s))). tuples (iocp_pool (sd_iocp x)) a = None)"
    if "shut_run (se_iocp ?e) cfg (stop_init (se_iocp ?e) (srv_iocp (iocp_lib m3)) w) n x" "stopped x" for cfg n x
  proof -
    note g = stopped_pool [OF i ak 2(5) w that]
    have "iocp_pool (srv_iocp s5) = iocp_pool (sd_iocp x)" using g(1) 5(4) 2(6) by simp
    moreover have "iocp_pool (sd_iocp x) = (iocp_pool (srv_iocp s))\<lparr>tuples := (\<lambda>a.
        if a \<in> set (workpool (iocp_pool (srv_iocp s))) then None else tuples (iocp_pool (srv_iocp s)) a)\<rparr>"
      using g(1) Stop_result [OF p, of "\<lambda>_. True"] unfolding 2(6) by simp
    then have "\<forall>a \<in> set (workpool (iocp_pool (srv_iocp s))). tuples (iocp_pool (sd_iocp x)) a = None" by simp
    ultimately show ?thesis using main g(2) 5(2,3) by simp
  qed
  then show ?thesis using 3(1) st 2(1) fin by blast
qed

theorem complete_run_witness:
  "\<exists>y m'. stopped y \<and>
     main_service (with_ends (\<lambda>a. sd_worker y a = Gone) (demo_module_env demo_env)) Inr
       [(0, CHR ''n''), (258, CHR ''0''), (0, CHR ''y'')] ''cfg'' module_init = Some (Inr (0, m')) \<and>
     read_call_back (iocp_lib m') = None \<and> iocp_pool (srv_iocp (iocp_lib m')) = iocp_pool (sd_iocp y)"
proof -
  let ?e = "demo_module_env demo_env"
  have e: "me_iocp ?e = demo_srv_env" by (simp add: demo_module_env_def demo_srv_env_def)
  obtain s where s: "GTIOCP_Initialize (me_iocp ?e) ''cfg'' (iocp_lib module_init) = Inr (GT_ERROR_SUCCESS, s)"
      "accept_key (srv_iocp s) \<noteq> None" "thread_pool_started (srv_iocp s)" "length (workpool (iocp_pool (srv_iocp s))) = 2"
    using demo_srv_start unfolding e by (auto simp: module_init_def)
  have m: "module_type module_init = GT_IOCP" "\<not> is_module_initted module_init" "srv_reachable (me_iocp ?e) (iocp_lib module_init)"
    using srv_reachable.start by (simp_all add: module_init_def)
  have n: "length (workpool (iocp_pool (srv_iocp s))) \<le> n_threads (se_iocp (me_iocp ?e))"
    unfolding e s(4) by (simp add: demo_srv_env_def n_threads_def demo_env_def)
  have yes: "(0, CHR ''y'') \<in> set [(0 :: dword, CHR ''n''), (258, CHR ''0''), (0, CHR ''y'')]" by simp
  let ?w = "all_waiting (srv_iocp s)"
  have run: "\<exists>y. (Inr x :: module_state result) = Inr y \<and> module_type y = module_type x \<and> srv_reachable (me_iocp ?e) (iocp_lib y) \<and>
      accept_key (srv_iocp (iocp_lib y)) \<noteq> None \<and> thread_pool_started (srv_iocp (iocp_lib y)) \<and>
      iocp_pool (srv_iocp (iocp_lib y)) = iocp_pool (srv_iocp (iocp_lib x))"
    if "srv_reachable (me_iocp ?e) (iocp_lib x)" "accept_key (srv_iocp (iocp_lib x)) \<noteq> None"
      "thread_pool_started (srv_iocp (iocp_lib x))" for x
    using that by blast
  have c: "CHR ''y'' = CHR ''y'' \<or> CHR ''y'' = CHR ''Y''" by simp
  obtain m3 :: module_state where
    all: "\<forall>cfg n x. shut_run (se_iocp (me_iocp ?e)) cfg (stop_init (se_iocp (me_iocp ?e)) (srv_iocp (iocp_lib m3)) ?w) n x \<longrightarrow>
        (\<exists>k y. shut_run (se_iocp (me_iocp ?e)) cfg x k y \<and> stopped y) \<and>
        (stopped x \<longrightarrow> (\<exists>m'. main_service (with_ends (\<lambda>a. sd_worker x a = Gone) ?e) Inr
             [(0, CHR ''n''), (258, CHR ''0''), (0, CHR ''y'')] ''cfg'' module_init = Some (Inr (0, m')) \<and>
           read_call_back (iocp_lib m') = None \<and> write_call_back (iocp_lib m') = None \<and>
           iocp_pool (srv_iocp (iocp_lib m')) = iocp_pool (sd_iocp x) \<and>
           (\<forall>a \<in> set (workpool (iocp_pool (srv_iocp s))). tuples (iocp_pool (sd_iocp x)) a = None)))"
    by (rule exE [OF complete_run [where run = Inr and w = ?w, OF m s(1-3) n run c yes all_waiting_pool]])
      (assumption+, elim exE conjE, rule that)
  let ?x = "stop_init (se_iocp (me_iocp ?e)) (srv_iocp (iocp_lib m3)) ?w"
  obtain k y where "shut_run (se_iocp (me_iocp ?e)) JNull ?x k y" "stopped y"
    using all shut_run.start [where x = ?x] by blast
  then show ?thesis using all by meson
qed

text \<open>A module whose client sent three bytes.\<close>

definition printing_server :: "module_cb server" where
  "printing_server = server_init\<lparr>srv_iocp := on_bufs (\<lambda>m. m\<lparr>blocks := (blocks m)(1 \<mapsto> [0x68, 0x69, 0, 0])\<rparr>)
     (demo_state IO_EVENT_READ), read_call_back := Some ReadCallback\<rparr>"

lemma printing_server_facts:
  "core_inv (srv_iocp printing_server)" "accept_key (srv_iocp printing_server) \<noteq> None"
  "need_wait (srv_iocp printing_server)" "(3 :: dword) \<noteq> 0"
  "GetCompletionKeyPtr 2 (res (srv_iocp printing_server)) = Some 2"
  "GetIOBufferPtr 2 1 (res (srv_iocp printing_server)) = Some 1"
  "GetIOEventType 1 (bufs_of (srv_iocp printing_server)) = IO_EVENT_READ"
  "read_call_back printing_server = Some ReadCallback"
proof -
  let ?s = "demo_state IO_EVENT_READ"
  let ?m = "bufs_of ?s" and ?w = "\<lambda>m. m\<lparr>blocks := (blocks m)(1 \<mapsto> [0x68 :: byte, 0x69, 0, 0])\<rparr>"
  have c: "core_inv ?s" by (rule demo_state_inv) simp
  then have r: "rm_inv (res ?s)" by (rule core_invD)
  then have b: "buf_inv ?m" "cache_zero ?m" by (auto simp: rm_inv_def bufs_of_def)
  have "bufs ?m 1 = Some \<lparr>io_socket_ptr = Some 2, io_wsa_buf = \<lparr>ws_len = 4, ws_buf = Some 1\<rparr>,
      io_buffer = Some 1, io_buffer_size = 4, io_event_type = IO_EVENT_READ\<rparr>" "1 \<notin> set (io_buffer_cache ?m)"
    by (simp_all add: demo_state_def bufs_of_def buf_mgr_init_def)
  from write_block_inv [OF b(1) this, of 1 "[0x68, 0x69, 0, 0]"] b(2)
  have "buf_inv (?w ?m)" "cache_zero (?w ?m)" by simp_all
  then have "rm_inv ((res ?s)\<lparr>rm_bufs := ?w ?m\<rparr>)" using r by (intro rm_inv_bufs) (simp_all add: bufs_of_def)
  then have "core_inv (on_bufs ?w ?s)"
    using c by (simp add: core_inv_def rcore_def bufs_typed_def bufs_of_def)
  then show "core_inv (srv_iocp printing_server)" by (simp add: printing_server_def)
qed (simp_all add: printing_server_def demo_state_def iocp_init_def GetCompletionKeyPtr_def um_find_def
    GetIOBufferPtr_def GetIOBufferCache_def GetIOEventType_def bufs_of_def on_bufs_def on_res_def)

text \<open>C29: Data of a client come out at the console: on a module that was initialised, a completed read of \<open>n\<close>
  bytes makes the program print one line, with the number \<open>n\<close> in decimal and the bytes the descriptor's block
  holds, of which those after a zero byte are counted and not shown.\<close>

theorem read_is_printed:
  assumes "core_inv (srv_iocp s)" and "accept_key (srv_iocp s) \<noteq> None" and "need_wait (srv_iocp s)" and "n \<noteq> 0"
    and "GetCompletionKeyPtr c (res (srv_iocp s)) = Some c" and "GetIOBufferPtr c b (res (srv_iocp s)) = Some b"
    and "GetIOEventType b (bufs_of (srv_iocp s)) = IO_EVENT_READ" and "read_call_back s = Some ReadCallback"
    and "wsa_data b s = Some a" and "blocks (bufs_of (srv_iocp s)) a = Some (shown @ hidden @ rest)"
    and "0 \<le> sint n" and "unat n = length shown + length hidden" and "0 \<notin> set shown"
    and "hidden \<noteq> [] \<Longrightarrow> hd hidden = 0"
  shows "\<exists>calls s'. worker_turn env \<lparr>c_ret = True, c_bytes = n, c_key = Some c, c_overlapped = Some b\<rparr> s =
       Inr (calls, s') \<and>
     map (module_call s) calls = [Inr (''get data from client data len = '' @ itoa10 (length shown + length hidden) @
       '', content: '' @ map byte_char shown @ '' '' @ [CHR 0x0A])]"
proof -
  have "DispatchEvent IO_EVENT_READ c b n s = [(ReadCallback, c, Some a, n)]"
    using assms(8,9) by (simp add: DispatchEvent_def)
  then have turn: "\<exists>s'. worker_turn env \<lparr>c_ret = True, c_bytes = n, c_key = Some c, c_overlapped = Some b\<rparr> s =
      Inr ([(ReadCallback, c, Some a, n)], s')"
    using read_turn [OF assms(1-7), of env] by simp
  have "takeWhile (\<lambda>b. b \<noteq> 0) (shown @ hidden) = shown"
    using assms(13,14) by (cases hidden) (auto simp: takeWhile_append)
  moreover have "nat (sint n) = unat n"
    using assms(11) sint_lt [of n] by (simp add: unat_eq_nat_uint uint_sint take_bit_int_eq_self)
  ultimately have "module_call s (ReadCallback, c, Some a, n) = Inr (''get data from client data len = '' @
      itoa10 (length shown + length hidden) @ '', content: '' @ map byte_char shown @ '' '' @ [CHR 0x0A])"
    using assms(10-12) by (simp add: ReadEventCallback_def)
  then show ?thesis using turn by auto
qed

theorem read_is_printed_witness:
  "\<exists>calls s'. worker_turn demo_srv_env \<lparr>c_ret = True, c_bytes = 3, c_key = Some 2, c_overlapped = Some 1\<rparr> printing_server =
       Inr (calls, s') \<and>
     map (module_call printing_server) calls = [Inr (''get data from client data len = 3, content: hi '' @ [CHR 0x0A])]"
proof -
  note d = printing_server_facts
  have "wsa_data 1 printing_server = Some 1"
    "blocks (bufs_of (srv_iocp printing_server)) 1 = Some ([0x68, 0x69] @ [0] @ [0])"
    by (simp_all add: wsa_data_def printing_server_def demo_state_def bufs_of_def GetWsaBuf_def)
  with read_is_printed [of printing_server 3 2 1, OF d(1-8) this] show ?thesis
    by (simp add: byte_char_def char_of_def itoa10.simps bit_0)
qed

end
