(* ===== verification/Test_Client.thy ===== *)
theory Test_Client
  imports GT_Config GT_Log GT_ThreadPool GT_CmdParser
begin

text \<open>
  \<open>GT_Client\<close>, the load generator of \<open>GTClient4Test\<close>, and its \<open>main\<close>. A turn is one pass of the loop of
  a test thread; the calls of the socket library are logged, and answered by \<open>client_env\<close>, indexed by
  the length of the log.
\<close>

section \<open>State\<close>

record sock_pack =
  sock :: SOCKET
  use_times :: dword

datatype cl_call =
    CSocket SOCKET
  | CConnect SOCKET string "16 word" cint
  | CSend SOCKET string cint
  | CCloseSocket SOCKET
  | CCloseHandle SOCKET

record client_env =
  ce_fs :: "string \<Rightarrow> os_file option"
  ce_parse :: "string \<Rightarrow> Json \<Rightarrow> bool \<times> Json"
  ce_show_num :: "Json \<Rightarrow> string"
  ce_folder :: string
  ce_exe :: string
  ce_WSAStartup :: cint
  ce_version :: "byte \<times> byte"
  ce_socket :: "nat \<Rightarrow> SOCKET"
  ce_connect :: "nat \<Rightarrow> cint"
  ce_send :: "nat \<Rightarrow> cint"

record client =
  stop_thread :: bool
  connect_sock :: "sock_pack list"
  cl_cfg :: cfg_state
  cl_glog :: log_state
  cl_log :: "cl_call list"

definition client_init :: client where
  "client_init = \<lparr>stop_thread = False, connect_sock = [], cl_cfg = cfg_init, cl_glog = log_init, cl_log = []\<rparr>"

definition cl_os :: "cl_call \<Rightarrow> client \<Rightarrow> client" where
  "cl_os c s = s\<lparr>cl_log := cl_log s @ [c]\<rparr>"

section \<open>Initialisation\<close>

definition InitializeLog :: "client_env \<Rightarrow> string \<Rightarrow> client \<Rightarrow> json_error + (bool \<times> client)" where
  "InitializeLog env cfg_path s =
     (let c0 = snd (LoadCfg (ce_fs env) (ce_parse env) cfg_path (cl_cfg s))
      in case read_log_cfg (ce_show_num env) c0 of
           Inl e \<Rightarrow> Inl e
         | Inr (level_str, max_logsize, c1) \<Rightarrow>
             Inr (True, s\<lparr>cl_cfg := c1, cl_glog := snd (GT_LogInitialize (ce_folder env) ''GTClient.log''
                            (LoglevelConvert_client level_str) max_logsize (cl_glog s))\<rparr>))"

definition InitializeClient :: "client_env \<Rightarrow> bool" where
  "InitializeClient env =
     (if ce_WSAStartup env \<noteq> 0 then False
      else if fst (ce_version env) \<noteq> 2 \<or> snd (ce_version env) \<noteq> 2 then False
      else True)"

section \<open>The test threads\<close>

definition server_address :: "Json \<Rightarrow> string" where
  "server_address cfg = GT_READ_CFG_STRING cfg ''server_cfg'' ''server_address'' ''127.0.0.2''"

definition client_server_port :: "Json \<Rightarrow> 16 word" where
  "client_server_port cfg = htons (GT_READ_CFG_INT cfg ''server_cfg'' ''server_port'' 5000)"

text \<open>A new connection for every message. A socket that was not made or not connected goes to \<open>CloseHandle\<close>.\<close>

definition uncontinuous_turn :: "client_env \<Rightarrow> Json \<Rightarrow> client \<Rightarrow> client" where
  "uncontinuous_turn env cfg s =
     (let c = ce_socket env (length (cl_log s)); s1 = cl_os (CSocket c) s
      in if c = INVALID_SOCKET then cl_os (CCloseHandle c) s1
         else
           let ret = ce_connect env (length (cl_log s1));
               s2 = cl_os (CConnect c (server_address cfg) (client_server_port cfg) ret) s1
           in if ret \<noteq> 0 then cl_os (CCloseHandle c) s2
              else
                let num = ce_send env (length (cl_log s2));
                    s3 = cl_os (CSend c ''hello GTServer!'' num) s2;
                    s4 = (if num = -1 then cl_os (CCloseSocket c) s3 else s3)
                in cl_os (CCloseSocket c) s4)"

definition MAX_CLIENT_USED_TIME :: dword where "MAX_CLIENT_USED_TIME = 1200"

definition client_msg :: "dword \<Rightarrow> string" where
  "client_msg n = ''hello GTServer, this msg index = '' @ itoa10 (unat n)"

text \<open>
  The loop over the connections: \<open>kept\<close> are those before the iterator, \<open>new\<close> the connection of this
  turn, whose socket is what a failed \<open>send\<close> closes.
\<close>

fun send_loop :: "client_env \<Rightarrow> SOCKET \<Rightarrow> sock_pack list \<Rightarrow> sock_pack list \<Rightarrow> client \<Rightarrow> sock_pack list \<times> client" where
  "send_loop env new [] kept s = (kept, s)"
| "send_loop env new (p # ps) kept s =
     (if MAX_CLIENT_USED_TIME < use_times p then send_loop env new ps kept (cl_os (CCloseSocket (sock p)) s)
      else
        (let num = ce_send env (length (cl_log s));
             s1 = cl_os (CSend (sock p) (client_msg (use_times p)) num) s
         in if num = -1 then send_loop env new ps kept (cl_os (CCloseSocket new) s1)
            else send_loop env new ps (kept @ [p\<lparr>use_times := use_times p + 1\<rparr>]) s1))"

definition continuous_turn :: "client_env \<Rightarrow> Json \<Rightarrow> client \<Rightarrow> client" where
  "continuous_turn env cfg s =
     (let c = ce_socket env (length (cl_log s)); s1 = cl_os (CSocket c) s
      in if c = INVALID_SOCKET then cl_os (CCloseSocket c) s1
         else
           let ret = ce_connect env (length (cl_log s1));
               s2 = cl_os (CConnect c (server_address cfg) (client_server_port cfg) ret) s1
           in if ret \<noteq> 0 then cl_os (CCloseSocket c) s2
              else
                let (kept, s3) = send_loop env c (connect_sock s2 @ [\<lparr>sock = c, use_times = 0\<rparr>]) [] s2
                in s3\<lparr>connect_sock := kept\<rparr>)"

definition StartTestByUnContinuous :: "client_env \<Rightarrow> Json \<Rightarrow> bool list \<Rightarrow> client \<Rightarrow> bool \<times> client" where
  "StartTestByUnContinuous env cfg flags s = LongTimeWorker (uncontinuous_turn env cfg) flags s"

definition StartTestByContinuous :: "client_env \<Rightarrow> Json \<Rightarrow> bool list \<Rightarrow> client \<Rightarrow> bool \<times> client" where
  "StartTestByContinuous env cfg flags s = LongTimeWorker (continuous_turn env cfg) flags s"

text \<open>The thread that the test starts, over what it reads of the flag.\<close>

definition StartTest :: "string \<Rightarrow> client_env \<Rightarrow> Json \<Rightarrow> bool list \<Rightarrow> client \<Rightarrow> bool \<times> client" where
  "StartTest test_mode =
     (if test_mode = ''continuous'' then StartTestByContinuous else StartTestByUnContinuous)"

definition StopTest :: "client \<Rightarrow> client" where
  "StopTest s = s\<lparr>stop_thread := True\<rparr>"

section \<open>The program\<close>

text \<open>
  \<open>n\<close> is how often the thread reads its flag before the test is stopped, and \<open>inputs\<close> what the user
  enters; \<open>None\<close> when the program is still asking.
\<close>

definition client_main :: "client_env \<Rightarrow> nat \<Rightarrow> char list \<Rightarrow> (json_error + (int \<times> client)) option" where
  "client_main env n inputs =
     (case InitializeLog env (GetCurrentFolder (ce_exe env) @ ''GTServer.cfg'') client_init of
        Inl e \<Rightarrow> Some (Inl e)
      | Inr (_, s) \<Rightarrow>
          if \<not> InitializeClient env then Some (Inr (0, s))
          else
            (case ReadStringCfg (ce_show_num env) ''client_test_mode'' ''model'' ''uncontinuous'' (cl_cfg s) of
               Inl e \<Rightarrow> Some (Inl e)
             | Inr (mode, c) \<Rightarrow>
                 if CHR ''y'' \<in> set inputs \<or> CHR ''Y'' \<in> set inputs then
                   (let s1 = s\<lparr>cl_cfg := c\<rparr>;
                        (_, s2) = StartTest mode env (cfg_root c) (replicate n False @ [True]) s1
                    in Some (Inr (0, StopTest s2)))
                 else None))"

section \<open>Properties\<close>

definition worn :: "sock_pack \<Rightarrow> bool" where
  "worn p = (MAX_CLIENT_USED_TIME < use_times p)"

definition loop_calls :: "SOCKET \<Rightarrow> sock_pack \<Rightarrow> cint \<Rightarrow> cl_call list" where
  "loop_calls new p num =
     (if worn p then [CCloseSocket (sock p)]
      else CSend (sock p) (client_msg (use_times p)) num # (if num = -1 then [CCloseSocket new] else []))"

definition loop_keeps :: "sock_pack \<Rightarrow> cint \<Rightarrow> sock_pack list" where
  "loop_keeps p num = (if worn p \<or> num = -1 then [] else [p\<lparr>use_times := use_times p + 1\<rparr>])"

text \<open>The loop over the connections comes to this, with \<open>nums\<close> what the system answers for each: a worn
  connection is closed and removed; every other one is sent its next message, stays with one more use
  when that worked, and is removed when it failed; what is closed then is the socket of the newest
  connection, never the one that failed.\<close>

theorem send_loop_effect:
  "\<exists>nums. length nums = length ps \<and>
     send_loop env new ps kept s =
       (kept @ concat (map (\<lambda>(p, num). loop_keeps p num) (zip ps nums)),
        s\<lparr>cl_log := cl_log s @ concat (map (\<lambda>(p, num). loop_calls new p num) (zip ps nums))\<rparr>)"
proof (induction ps arbitrary: kept s)
  case (Cons p ps)
  define num where "num = ce_send env (length (cl_log s))"
  let ?s = "s\<lparr>cl_log := cl_log s @ loop_calls new p num\<rparr>"
  obtain nums where nums: "length nums = length ps" "send_loop env new ps (kept @ loop_keeps p num) ?s =
       ((kept @ loop_keeps p num) @ concat (map (\<lambda>(p, num). loop_keeps p num) (zip ps nums)),
        ?s\<lparr>cl_log := cl_log ?s @ concat (map (\<lambda>(p, num). loop_calls new p num) (zip ps nums))\<rparr>)"
    using Cons.IH by blast
  have "send_loop env new (p # ps) kept s = send_loop env new ps (kept @ loop_keeps p num) ?s"
    by (simp add: loop_calls_def loop_keeps_def worn_def cl_os_def num_def Let_def)
  then show ?case using nums by (intro exI [of _ "num # nums"]) simp
qed simp

text \<open>The index of a message has at most four digits, so that it fits the buffer of ten characters.\<close>

lemma itoa10_short: "n < 10000 \<Longrightarrow> length (itoa10 n) \<le> 4"
proof -
  have i: "length (itoa10 n) = (if n < 10 then 1 else Suc (length (itoa10 (n div 10))))" for n
    by (subst itoa10.simps) simp
  have 1: "length (itoa10 n) = 1" if "n < 10" for n using that i [of n] by simp
  have 2: "length (itoa10 n) \<le> 2" if "n < 100" for n
    using 1 [of "n div 10"] that i [of n] by simp
  have 3: "length (itoa10 n) \<le> 3" if "n < 1000" for n
    using 2 [of "n div 10"] that i [of n] by simp
  show "n < 10000 \<Longrightarrow> length (itoa10 n) \<le> 4"
    using 3 [of "n div 10"] i [of n] by simp
qed

fun msg_ok :: "cl_call \<Rightarrow> bool" where
  "msg_ok (CSend x m num) = (\<exists>k \<le> MAX_CLIENT_USED_TIME. m = client_msg k)"
| "msg_ok _ = True"

definition client_inv :: "client \<Rightarrow> bool" where
  "client_inv s =
     ((\<forall>p \<in> set (connect_sock s). use_times p \<le> MAX_CLIENT_USED_TIME + 1) \<and> list_all msg_ok (cl_log s))"

lemma use_times_Suc: "use_times p \<le> MAX_CLIENT_USED_TIME \<Longrightarrow> use_times p + 1 \<le> MAX_CLIENT_USED_TIME + 1"
  by (simp add: MAX_CLIENT_USED_TIME_def word_le_nat_alt unat_word_ariths(1))

lemma send_loop_inv:
  assumes "send_loop env new ps [] s = (kept, s')"
    and "list_all msg_ok (cl_log s)"
  shows "client_inv (s'\<lparr>connect_sock := kept\<rparr>)"
proof -
  have "\<And>kept0 s. send_loop env new ps kept0 s = (kept, s') \<Longrightarrow>
      (\<forall>p \<in> set kept0. use_times p \<le> MAX_CLIENT_USED_TIME + 1) \<Longrightarrow>
      list_all msg_ok (cl_log s) \<Longrightarrow>
      client_inv (s'\<lparr>connect_sock := kept\<rparr>)"
  proof (induction ps)
    case (Cons p ps)
    show ?case
    proof (cases "MAX_CLIENT_USED_TIME < use_times p")
      case True
      then show ?thesis using Cons.prems by (intro Cons.IH [of kept0 "cl_os (CCloseSocket (sock p)) s"]) (simp_all add: cl_os_def)
    next
      case False
      let ?num = "ce_send env (length (cl_log s))"
      let ?s1 = "cl_os (CSend (sock p) (client_msg (use_times p)) ?num) s"
      have u: "use_times p \<le> MAX_CLIENT_USED_TIME" using False by simp
      show ?thesis
      proof (cases "?num = -1")
        case True
        then show ?thesis
          using Cons.prems False u by (intro Cons.IH [of kept0 "cl_os (CCloseSocket new) ?s1"]) (auto simp: cl_os_def)
      next
        case n: False
        then show ?thesis
          using Cons.prems False u use_times_Suc [OF u]
          by (intro Cons.IH [of "kept0 @ [p\<lparr>use_times := use_times p + 1\<rparr>]" ?s1]) (auto simp: cl_os_def)
      qed
    qed
  qed (simp add: client_inv_def)
  from this [OF assms(1) _ assms(2)] show ?thesis by simp
qed

lemma continuous_turn_inv:
  assumes "client_inv s"
  shows "client_inv (continuous_turn env cfg s)"
proof -
  let ?c = "ce_socket env (length (cl_log s))"
  let ?s1 = "cl_os (CSocket ?c) s"
  let ?ret = "ce_connect env (length (cl_log ?s1))"
  let ?s2 = "cl_os (CConnect ?c (server_address cfg) (client_server_port cfg) ?ret) ?s1"
  obtain kept s3 where l: "send_loop env ?c (connect_sock ?s2 @ [\<lparr>sock = ?c, use_times = 0\<rparr>]) [] ?s2 = (kept, s3)"
    by fastforce
  have "client_inv (s3\<lparr>connect_sock := kept\<rparr>)"
    using assms by (intro send_loop_inv [OF l]) (auto simp: client_inv_def cl_os_def)
  then show ?thesis using assms l by (auto simp: continuous_turn_def Let_def client_inv_def cl_os_def)
qed

lemma continuous_turns_inv: "client_inv ((continuous_turn env cfg ^^ n) client_init)"
  by (induction n) (simp_all add: continuous_turn_inv, simp add: client_inv_def client_init_def)

text \<open>C30: However long the continuous test runs, no connection has more than 1201 uses, and every message that
  was sent is the fixed text with the number of an earlier use, whose at most four digits fit the
  buffer they are written to.\<close>

theorem client_use_bound:
  fixes env cfg and n :: nat
  defines "s \<equiv> (continuous_turn env cfg ^^ n) client_init"
  shows "(\<forall>p \<in> set (connect_sock s). unat (use_times p) \<le> 1201) \<and>
     (\<forall>x m num. CSend x m num \<in> set (cl_log s) \<longrightarrow>
        (\<exists>k \<le> 1200. m = ''hello GTServer, this msg index = '' @ itoa10 k \<and> length (itoa10 k) \<le> 4))"
proof -
  have i: "client_inv s" unfolding s_def by (rule continuous_turns_inv)
  have "unat (use_times p) \<le> 1201" if "p \<in> set (connect_sock s)" for p
    using i that by (force simp: client_inv_def MAX_CLIENT_USED_TIME_def word_le_nat_alt)
  moreover have "\<exists>k \<le> 1200. m = ''hello GTServer, this msg index = '' @ itoa10 k \<and> length (itoa10 k) \<le> 4"
    if m: "CSend x m num \<in> set (cl_log s)" for x m num
  proof -
    obtain k where k: "k \<le> MAX_CLIENT_USED_TIME" "m = client_msg k" using i m unfolding client_inv_def list_all_iff by force
    have "unat k \<le> 1200" using k(1) by (simp add: MAX_CLIENT_USED_TIME_def word_le_nat_alt)
    then show ?thesis using k(2) itoa10_short [of "unat k"] by (intro exI [of _ "unat k"]) (simp add: client_msg_def)
  qed
  ultimately show ?thesis by blast
qed

definition cl_demo_env :: client_env where
  "cl_demo_env = \<lparr>ce_fs = (\<lambda>_. Some \<lparr>f_size = 1, f_data = ''x'', f_junk = ''''\<rparr>),
     ce_parse = (\<lambda>_ _. (True, JObject [(''client_test_mode'', JObject [(''model'', JString ''continuous'')])])),
     ce_show_num = (\<lambda>_. ''''), ce_folder = ''C:/'', ce_exe = ''C:/client.exe'', ce_WSAStartup = 0,
     ce_version = (2, 2), ce_socket = (\<lambda>k. of_nat (100 + k)), ce_connect = (\<lambda>_. 0), ce_send = (\<lambda>_. 10)\<rparr>"

lemma cl_demo_turn:
  "connect_sock (continuous_turn cl_demo_env cfg client_init) = [\<lparr>sock = 100, use_times = 1\<rparr>]"
  "CSend 100 (client_msg 0) 10 \<in> set (cl_log (continuous_turn cl_demo_env cfg client_init))"
  by (simp_all add: continuous_turn_def Let_def cl_os_def cl_demo_env_def client_init_def INVALID_SOCKET_def
      MAX_CLIENT_USED_TIME_def)

theorem client_use_bound_witness:
  "connect_sock ((continuous_turn cl_demo_env JNull ^^ 1) client_init) = [\<lparr>sock = 100, use_times = 1\<rparr>] \<and>
   unat (use_times \<lparr>sock = 100, use_times = 1\<rparr>) \<le> 1201 \<and>
   (\<exists>k. k \<le> 1200 \<and> client_msg 0 = ''hello GTServer, this msg index = '' @ itoa10 k)"
  using client_use_bound [of 1 cl_demo_env JNull] cl_demo_turn [of JNull] by fastforce

text \<open>A run of the test program whose log and socket library start: after the user confirmed, it ends with
  the code 0 in the state that the turns of the configured mode lead to, as many as the thread made
  before it saw the flag.\<close>

theorem client_run:
  assumes "InitializeLog env (GetCurrentFolder (ce_exe env) @ ''GTServer.cfg'') client_init = Inr (True, s)"
    and "InitializeClient env" and "section_ok (cfg_root (cl_cfg s)) ''client_test_mode''"
    and "CHR ''y'' \<in> set inputs \<or> CHR ''Y'' \<in> set inputs"
  shows "\<exists>c. client_main env n inputs = Some (Inr (0, StopTest
     (((if GT_READ_CFG_STRING (cfg_root (cl_cfg s)) ''client_test_mode'' ''model'' ''uncontinuous'' = ''continuous''
        then continuous_turn env (cfg_root c) else uncontinuous_turn env (cfg_root c)) ^^ n) (s\<lparr>cl_cfg := c\<rparr>)))) \<and>
     (\<forall>se k. cfg_get (cfg_root c) se k = cfg_get (cfg_root (cl_cfg s)) se k)"
proof -
  obtain c where c: "ReadStringCfg (ce_show_num env) ''client_test_mode'' ''model'' ''uncontinuous'' (cl_cfg s) =
      Inr (GT_READ_CFG_STRING (cfg_root (cl_cfg s)) ''client_test_mode'' ''model'' ''uncontinuous'', c)"
      "\<forall>se k. cfg_get (cfg_root c) se k = cfg_get (cfg_root (cl_cfg s)) se k"
    using ReadString_pure [OF assms(3)] by blast
  have t: "StartTest mode env (cfg_root c) (replicate n False @ [True]) s1 =
      (True, ((if mode = ''continuous'' then continuous_turn env (cfg_root c) else uncontinuous_turn env (cfg_root c)) ^^ n) s1)"
    for mode s1
    by (simp add: StartTest_def StartTestByContinuous_def StartTestByUnContinuous_def LongTimeWorker_stops)
  show ?thesis
    using assms(1,2,4) c by (intro exI [of _ c]) (simp add: client_main_def t Let_def)
qed

theorem client_run_witness:
  "\<exists>s'. client_main cl_demo_env 3 ''ny'' = Some (Inr (0, s')) \<and> stop_thread s'"
proof -
  let ?p = "GetCurrentFolder (ce_exe cl_demo_env) @ ''GTServer.cfg''"
  let ?c = "snd (LoadCfg (ce_fs cl_demo_env) (ce_parse cl_demo_env) ?p (cl_cfg client_init))"
  have r: "cfg_root ?c = JObject [(''client_test_mode'', JObject [(''model'', JString ''continuous'')])]"
    by (simp add: LoadCfg_def cl_demo_env_def client_init_def cfg_init_def ReadFileContent_def Let_def)
  have "section_ok (cfg_root ?c) ''log_control''" unfolding r by (simp add: section_ok_def member_def)
  from read_log_cfg_pure [OF this, of "ce_show_num cl_demo_env"] obtain c1 l n where
    c1: "read_log_cfg (ce_show_num cl_demo_env) ?c = Inr (l, n, c1)"
        "\<forall>se. section_ok (cfg_root c1) se = section_ok (cfg_root ?c) se" by blast
  then obtain s where s: "InitializeLog cl_demo_env ?p client_init = Inr (True, s)" "cl_cfg s = c1"
    by (simp add: InitializeLog_def)
  have "section_ok (cfg_root (cl_cfg s)) ''client_test_mode''"
    unfolding s(2) using c1(2) r by (simp add: section_ok_def member_def)
  moreover have "InitializeClient cl_demo_env" by (simp add: InitializeClient_def cl_demo_env_def)
  ultimately show ?thesis using client_run [OF s(1), of "''ny''" 3] by (auto simp: StopTest_def)
qed

end
